(* ===== verification/Prelude.thy ===== *)
theory Prelude
  imports Main "HOL-Library.Char_ord" "HOL-Library.List_Lexorder" "HOL-Library.Code_Target_Nat"
begin

text \<open>
  Shared vocabulary of the development: the faults a C++ execution can end in and the result
  type that carries them, 64-bit \<open>size_t\<close> and 32-bit \<open>int\<close> arithmetic with the wrap-around
  written out, the counted \<open>for\<close> loop, \<open>std::vector\<close> resizing and block copies, byte constants,
  and the list lemmas every component uses.
\<close>

section \<open>Faults and results\<close>

text \<open>
  The build type is Debug, so a failing \<open>assert\<close> aborts. An exception nobody catches terminates
  the process. Undefined behaviour has no defined continuation, so it ends the model's run too.
\<close>

datatype fault =
    AssertFailed      \<comment> \<open>\<open>assert\<close> evaluated to false\<close>
  | OutOfRange        \<comment> \<open>uncaught \<open>std::out_of_range\<close>\<close>
  | LengthError       \<comment> \<open>uncaught \<open>std::length_error\<close>\<close>
  | BadFunctionCall   \<comment> \<open>an empty \<open>std::function\<close> was called\<close>
  | BadWeakPtr        \<comment> \<open>uncaught \<open>std::bad_weak_ptr\<close>\<close>
  | NoReturn          \<comment> \<open>the call never returns\<close>
  | BadAccess         \<comment> \<open>undefined: index or iterator outside its object\<close>
  | SignedOverflow    \<comment> \<open>undefined: \<open>int\<close> arithmetic out of range\<close>
  | DivisionByZero    \<comment> \<open>undefined: \<open>%\<close> by zero\<close>
  | UseAfterFree      \<comment> \<open>undefined: access to a destroyed object\<close>
  | ProcessExit nat   \<comment> \<open>the process ended itself with this status\<close>

type_synonym 'a outcome = "fault + 'a"

named_theorems outcome_simps \<open>rules that run an outcome-valued program\<close>
named_theorems size_simps \<open>machine arithmetic that does not wrap\<close>

fun obind :: "'a outcome \<Rightarrow> ('a \<Rightarrow> 'b outcome) \<Rightarrow> 'b outcome" where
  "obind (Inl e) f = Inl e"
| "obind (Inr x) f = f x"

definition check :: "bool \<Rightarrow> fault \<Rightarrow> 'a outcome \<Rightarrow> 'a outcome" where
  "check c e m = (if c then m else Inl e)"

lemma check_simps [simp]: "check True e m = m" "check False e m = Inl e"
  by (simp_all add: check_def)

lemma obind_cong [fundef_cong]:
  "m = m' \<Longrightarrow> (\<And>x. m' = Inr x \<Longrightarrow> f x = f' x) \<Longrightarrow> obind m f = obind m' f'"
  by (cases m') auto

lemma check_cong [fundef_cong]: "c = c' \<Longrightarrow> (c' \<Longrightarrow> m = m') \<Longrightarrow> check c e m = check c' e m'"
  by (simp add: check_def)

lemma obind_Inr_iff: "obind m f = Inr y \<longleftrightarrow> (\<exists>x. m = Inr x \<and> f x = Inr y)"
  by (cases m) auto

lemma obind_assoc: "obind (obind m f) g = obind m (\<lambda>x. obind (f x) g)"
  by (cases m) auto

lemma check_Inr_iff: "check c e m = Inr y \<longleftrightarrow> c \<and> m = Inr y"
  by (simp add: check_def)

declare obind_Inr_iff [outcome_simps] check_Inr_iff [outcome_simps]

text \<open>A counted loop \<open>for (i = 0; i < n; ++i) body\<close> is \<open>for_each [0..<n] body\<close>.\<close>

fun for_each :: "nat list \<Rightarrow> (nat \<Rightarrow> 's \<Rightarrow> 's outcome) \<Rightarrow> 's \<Rightarrow> 's outcome" where
  "for_each [] body s = Inr s"
| "for_each (i # is) body s = obind (body i s) (for_each is body)"

lemma for_each_append:
  "for_each (xs @ ys) body s = obind (for_each xs body s) (for_each ys body)"
proof (induction xs arbitrary: s)
  case (Cons x xs)
  then show ?case by (cases "body x s") auto
qed auto

text \<open>
  The loop rule: a function \<open>st\<close> giving the state before each iteration determines the result.
\<close>

lemma for_each_upt:
  assumes "\<And>i. i < n \<Longrightarrow> body i (st i) = Inr (st (Suc i))"
  shows "for_each [0..<n] body (st 0) = Inr (st n)"
  using assms by (induction n) (auto simp: for_each_append)

section \<open>Machine integers\<close>

text \<open>\<open>size_t\<close> values are naturals below \<open>2 ^ 64\<close>; its operators wrap.\<close>

definition sz_add :: "nat \<Rightarrow> nat \<Rightarrow> nat" where
  "sz_add a b = (a + b) mod 2 ^ 64"

definition sz_sub :: "nat \<Rightarrow> nat \<Rightarrow> nat" where
  "sz_sub a b = (a + (2 ^ 64 - b)) mod 2 ^ 64"

definition sz_mul :: "nat \<Rightarrow> nat \<Rightarrow> nat" where
  "sz_mul a b = (a * b) mod 2 ^ 64"

text \<open>\<open>static_cast<int>\<close> of a \<open>size_t\<close>, and the conversion of an \<open>int\<close> operand to \<open>size_t\<close>.\<close>

definition to_int32 :: "nat \<Rightarrow> int" where
  "to_int32 n = (int n + 2 ^ 31) mod 2 ^ 32 - 2 ^ 31"

definition to_size :: "int \<Rightarrow> nat" where
  "to_size i = nat (i mod 2 ^ 64)"

abbreviation int_max :: nat where "int_max \<equiv> 2 ^ 31 - 1"

abbreviation vector_max_size :: nat where "vector_max_size \<equiv> 2 ^ 63 - 1"

lemma sz_add_id [size_simps]: "a + b < 2 ^ 64 \<Longrightarrow> sz_add a b = a + b"
  by (simp add: sz_add_def)

lemma sz_mul_id [size_simps]: "a * b < 2 ^ 64 \<Longrightarrow> sz_mul a b = a * b"
  by (simp add: sz_mul_def)

lemma sz_sub_id [size_simps]:
  assumes "b \<le> a" "a < 2 ^ 64"
  shows "sz_sub a b = a - b"
proof -
  from assms have "sz_sub a b = ((a - b) + 2 ^ 64) mod 2 ^ 64"
    by (simp only: sz_sub_def) (rule arg_cong [where f = "\<lambda>x. x mod 2 ^ 64"], linarith)
  also have "\<dots> = (a - b) mod 2 ^ 64" by (rule mod_add_self2)
  also have "\<dots> = a - b" using assms by (intro mod_less) simp
  finally show ?thesis .
qed

lemma sz_sub_wraps:
  assumes "a < b" "b < 2 ^ 64"
  shows "sz_sub a b = 2 ^ 64 - (b - a)"
  using assms by (simp add: sz_sub_def)

lemma to_int32_id [size_simps]: "n < 2 ^ 31 \<Longrightarrow> to_int32 n = int n"
  by (simp add: to_int32_def)

lemma to_size_int [size_simps]: "n < 2 ^ 64 \<Longrightarrow> to_size (int n) = n"
  by (simp add: to_size_def nat_mod_distrib)

section \<open>Vectors and blocks\<close>

text \<open>\<open>std::vector<char>::resize\<close>: new elements are value-initialised to the zero byte.\<close>

abbreviation NUL :: char where "NUL \<equiv> CHR 0x00"
abbreviation LF :: char where "LF \<equiv> CHR 0x0A"
abbreviation CR :: char where "CR \<equiv> CHR 0x0D"

definition kCRLF :: string where "kCRLF = [CR, LF]"

definition vector_resize :: "nat \<Rightarrow> char list \<Rightarrow> char list outcome" where
  "vector_resize n d =
     (if vector_max_size < n then Inl LengthError
      else Inr (take n d @ replicate (n - length d) NUL))"

text \<open>\<open>std::copy\<close> / \<open>memcpy\<close> of a block into a vector or array at a given position.\<close>

definition store_block :: "nat \<Rightarrow> 'a list \<Rightarrow> 'a list \<Rightarrow> 'a list outcome" where
  "store_block pos xs d =
     (if pos + length xs \<le> length d
      then Inr (take pos d @ xs @ drop (pos + length xs) d) else Inl BadAccess)"

text \<open>The bytes between two indices of a vector.\<close>

definition slice :: "nat \<Rightarrow> nat \<Rightarrow> 'a list \<Rightarrow> 'a list" where
  "slice i j d = take (j - i) (drop i d)"

lemma length_slice [simp]: "j \<le> length d \<Longrightarrow> length (slice i j d) = j - i"
  by (simp add: slice_def)

lemma slice_empty [simp]: "slice i i d = []"
  by (simp add: slice_def)

lemma slice_split: "i \<le> j \<Longrightarrow> j \<le> k \<Longrightarrow> slice i k d = slice i j d @ slice j k d"
  using take_add [of "j - i" "k - j" "drop i d"] by (simp add: slice_def)

lemma slice_nth [simp]: "k < j - i \<Longrightarrow> j \<le> length d \<Longrightarrow> slice i j d ! k = d ! (i + k)"
  by (simp add: slice_def)

lemma slice_drop: "i + n \<le> j \<Longrightarrow> slice (i + n) j d = drop n (slice i j d)"
  by (simp add: slice_def drop_take add.commute)

lemma slice_take: "i + n \<le> j \<Longrightarrow> slice i (i + n) d = take n (slice i j d)"
  by (simp add: slice_def)

lemma slice_append_left: "j \<le> length xs \<Longrightarrow> slice i j (xs @ ys) = slice i j xs"
  by (simp add: slice_def)

lemma slice_block:
  "pos \<le> length d \<Longrightarrow> slice pos (pos + length xs) (take pos d @ xs @ ys) = xs"
  by (simp add: slice_def)

lemma slice_before_block:
  "j \<le> pos \<Longrightarrow> pos \<le> length d \<Longrightarrow> slice i j (take pos d @ ys) = slice i j d"
  by (simp add: slice_def drop_take)

lemma length_store_block:
  "store_block pos xs d = Inr d' \<Longrightarrow> length d' = length d"
  by (auto simp: store_block_def split: if_splits)

lemma nth_append_upt_map:
  "map f [0..<m] @ map (\<lambda>i. f (m + i)) [0..<n] = map f [0..<m + n]"
  by (induction n) auto

end
