(* ===== verification/Byte_Queues.thy ===== *)
theory Byte_Queues
  imports Prelude
begin

text \<open>
  The contract both buffer classes are used through: a queue of bytes with an abstraction
  \<open>bytes\<close>, an invariant, removal at the front and, in the extended interface, insertion at the
  back as long as there is room. The stream theorem, proved once here, says that any admissible
  mix of insertions and removals delivers the bytes in the order they came in.
\<close>

section \<open>Interfaces\<close>

locale byte_source =
  fixes bytes :: "'q \<Rightarrow> char list"
    and invar :: "'q \<Rightarrow> bool"
    and consume :: "nat \<Rightarrow> 'q \<Rightarrow> 'q outcome"
  assumes consume_law:
    "invar q \<Longrightarrow> n \<le> length (bytes q) \<Longrightarrow>
       \<exists>q'. consume n q = Inr q' \<and> invar q' \<and> bytes q' = drop n (bytes q)"

locale byte_fifo = byte_source +
  fixes room :: "'q \<Rightarrow> nat"
    and produce :: "char list \<Rightarrow> 'q \<Rightarrow> 'q outcome"
  assumes produce_law:
    "invar q \<Longrightarrow> length xs \<le> room q \<Longrightarrow>
       \<exists>q'. produce xs q = Inr q' \<and> invar q' \<and> bytes q' = bytes q @ xs"

section \<open>Runs of queue operations\<close>

datatype fifo_op = Put "char list" | Get nat

fun fifo_puts :: "fifo_op list \<Rightarrow> char list" where
  "fifo_puts [] = []"
| "fifo_puts (Put xs # ops) = xs @ fifo_puts ops"
| "fifo_puts (Get n # ops) = fifo_puts ops"

fun fifo_run :: "('q \<Rightarrow> char list) \<Rightarrow> (nat \<Rightarrow> 'q \<Rightarrow> 'q outcome) \<Rightarrow>
    (char list \<Rightarrow> 'q \<Rightarrow> 'q outcome) \<Rightarrow> fifo_op list \<Rightarrow> 'q \<Rightarrow> (char list \<times> 'q) outcome" where
  "fifo_run by con pro [] q = Inr ([], q)"
| "fifo_run by con pro (Put xs # ops) q = obind (pro xs q) (fifo_run by con pro ops)"
| "fifo_run by con pro (Get n # ops) q =
     obind (con n q) (\<lambda>q1. obind (fifo_run by con pro ops q1)
       (\<lambda>(got, q2). Inr (take n (by q) @ got, q2)))"

fun fifo_ok :: "('q \<Rightarrow> char list) \<Rightarrow> (nat \<Rightarrow> 'q \<Rightarrow> 'q outcome) \<Rightarrow> ('q \<Rightarrow> nat) \<Rightarrow>
    (char list \<Rightarrow> 'q \<Rightarrow> 'q outcome) \<Rightarrow> fifo_op list \<Rightarrow> 'q \<Rightarrow> bool" where
  "fifo_ok by con rm pro [] q = True"
| "fifo_ok by con rm pro (Put xs # ops) q =
     (length xs \<le> rm q \<and> (case pro xs q of Inl _ \<Rightarrow> False | Inr q1 \<Rightarrow> fifo_ok by con rm pro ops q1))"
| "fifo_ok by con rm pro (Get n # ops) q =
     (n \<le> length (by q) \<and> (case con n q of Inl _ \<Rightarrow> False | Inr q1 \<Rightarrow> fifo_ok by con rm pro ops q1))"

context byte_source
begin

lemma consume_all:
  "invar q \<Longrightarrow> \<exists>q'. consume (length (bytes q)) q = Inr q' \<and> invar q' \<and> bytes q' = []"
  using consume_law [of q "length (bytes q)"] by simp

lemma consume_twice:
  assumes "invar q" "m + n \<le> length (bytes q)"
  shows "\<exists>q'. obind (consume m q) (consume n) = Inr q' \<and> invar q' \<and> bytes q' = drop (m + n) (bytes q)"
proof -
  from assms obtain q1 where q1: "consume m q = Inr q1" "invar q1" "bytes q1 = drop m (bytes q)"
    using consume_law [of q m] by auto
  with assms show ?thesis
    using consume_law [of q1 n] by (auto simp: add.commute)
qed

end

context byte_fifo
begin

text \<open>The bytes delivered, followed by the bytes left, are the bytes there plus the bytes put in.\<close>

lemma stream:
  assumes "invar q" "fifo_ok bytes consume room produce ops q"
  shows "\<exists>got q'. fifo_run bytes consume produce ops q = Inr (got, q') \<and> invar q' \<and>
           bytes q @ fifo_puts ops = got @ bytes q'"
  using assms
proof (induction ops arbitrary: q)
  case Nil
  then show ?case by simp
next
  case (Cons x ops)
  show ?case
  proof (cases x)
    case (Put xs)
    with Cons.prems obtain q1 where q1: "produce xs q = Inr q1" "invar q1" "bytes q1 = bytes q @ xs"
      using produce_law [of q xs] by auto
    with Cons.prems Put Cons.IH [of q1] show ?thesis by auto
  next
    case (Get n)
    with Cons.prems obtain q1 where q1: "consume n q = Inr q1" "invar q1" "bytes q1 = drop n (bytes q)"
      using consume_law [of q n] by auto
    from q1 Cons.prems Get Cons.IH [of q1] obtain got q2 where
      "fifo_run bytes consume produce ops q1 = Inr (got, q2)" "invar q2"
      "bytes q1 @ fifo_puts ops = got @ bytes q2" by auto
    moreover have "bytes q = take n (bytes q) @ bytes q1" using q1 by simp
    ultimately show ?thesis using q1 Get by (metis append_assoc fifo_puts.simps(3) fifo_run.simps(3)
        obind.simps(2) split_conv)
  qed
qed

end

end
