(* ===== verification/Circular_Buffer.thy ===== *)
theory Circular_Buffer
  imports Byte_Queues
begin

text \<open>
  \<open>CircularBuffer\<close> (include/CircularBuffer.h, src/CircularBuffer.cc): a ring of bytes with a read
  and a write index and one slot always free. The abstraction is the list of readable bytes;
  \<open>Append\<close>, \<open>ReadBytesBy\<close>, \<open>ParseLine\<close>, \<open>ReadableSpace\<close> and \<open>print\<close> are related to it.
\<close>

section \<open>The class\<close>

record circular_buffer =
  cb_buffer :: "char list"
  cb_read_index :: nat
  cb_write_index :: nat

definition CircularBuffer_ReadableBytes :: "circular_buffer \<Rightarrow> nat" where
  "CircularBuffer_ReadableBytes cb =
     (if cb_read_index cb \<le> cb_write_index cb
      then sz_sub (cb_write_index cb) (cb_read_index cb)
      else sz_sub (length (cb_buffer cb)) (sz_sub (cb_read_index cb) (cb_write_index cb)))"

definition CircularBuffer_WriteableBytes :: "circular_buffer \<Rightarrow> nat" where
  "CircularBuffer_WriteableBytes cb =
     sz_sub (sz_sub (length (cb_buffer cb)) (CircularBuffer_ReadableBytes cb)) 1"

definition CircularBuffer_new :: "nat \<Rightarrow> circular_buffer outcome" where
  "CircularBuffer_new initial_size =
     (let cb = \<lparr>cb_buffer = replicate initial_size NUL, cb_read_index = 0, cb_write_index = 0\<rparr>
      in check (CircularBuffer_ReadableBytes cb = 0) AssertFailed
           (check (CircularBuffer_WriteableBytes cb = sz_sub initial_size 1) AssertFailed (Inr cb)))"

text \<open>
  \<open>ParseLine\<close> scans with an \<open>int\<close> index that is compared with the \<open>size_t\<close> members. The fuel bounds
  the number of positions looked at; \<open>None\<close> is a scan that has not ended.
\<close>

fun CircularBuffer_ParseLine_loop ::
    "nat \<Rightarrow> circular_buffer \<Rightarrow> int \<Rightarrow> char list \<Rightarrow> (string \<times> circular_buffer) outcome option" where
  "CircularBuffer_ParseLine_loop 0 cb checked_index res = None"
| "CircularBuffer_ParseLine_loop (Suc fuel) cb checked_index res =
     (if to_size checked_index = cb_write_index cb then Some (Inr ([], cb))
      else if \<not> to_size checked_index < length (cb_buffer cb) then Some (Inl BadAccess)
      else let c = cb_buffer cb ! to_size checked_index in
        if c = LF then
          (if 1 < length res \<and> last res = CR
           then Some (Inr (butlast res,
                  cb\<lparr>cb_read_index :=
                       sz_add (sz_add (cb_read_index cb) (length res)) 1 mod length (cb_buffer cb)\<rparr>))
           else Some (Inr ([], cb)))
        else if checked_index = int int_max then Some (Inl SignedOverflow)
        else CircularBuffer_ParseLine_loop fuel cb
               (if to_size (checked_index + 1) = length (cb_buffer cb) then 0 else checked_index + 1)
               (res @ [c]))"

definition CircularBuffer_ParseLine ::
    "nat \<Rightarrow> circular_buffer \<Rightarrow> (string \<times> circular_buffer) outcome option" where
  "CircularBuffer_ParseLine fuel cb =
     CircularBuffer_ParseLine_loop fuel cb (to_int32 (cb_read_index cb)) []"

text \<open>\<open>Append\<close>: the growth branch, its copy loop, and the store loop.\<close>

definition CircularBuffer_move :: "int \<Rightarrow> nat \<Rightarrow> char list \<Rightarrow> char list outcome" where
  "CircularBuffer_move pos i d =
     check (pos + int i \<le> int int_max) SignedOverflow
       (check (to_size (pos + int i) < length d \<and> i < length d) BadAccess
          (Inr (d[to_size (pos + int i) := d ! i])))"

definition CircularBuffer_grow :: "nat \<Rightarrow> circular_buffer \<Rightarrow> circular_buffer outcome" where
  "CircularBuffer_grow len cb =
     (let pos = to_int32 (length (cb_buffer cb)) in
      obind (vector_resize (sz_add (sz_mul (length (cb_buffer cb)) 2) len) (cb_buffer cb)) (\<lambda>d.
        if cb_write_index cb < cb_read_index cb
        then check (cb_write_index cb \<le> int_max) SignedOverflow
               (obind (for_each [0..<cb_write_index cb] (CircularBuffer_move pos) d) (\<lambda>d1.
                  Inr (cb\<lparr>cb_buffer := d1,
                          cb_write_index := sz_add (to_size pos) (cb_write_index cb)\<rparr>)))
        else Inr (cb\<lparr>cb_buffer := d\<rparr>)))"

definition CircularBuffer_store :: "nat \<Rightarrow> char list \<Rightarrow> nat \<Rightarrow> char list \<Rightarrow> char list outcome" where
  "CircularBuffer_store write_index data i d =
     check (length d \<noteq> 0) DivisionByZero
       (check (i < length data) BadAccess
          (Inr (d[sz_add write_index i mod length d := data ! i])))"

definition CircularBuffer_Append :: "char list \<Rightarrow> nat \<Rightarrow> circular_buffer \<Rightarrow> circular_buffer outcome" where
  "CircularBuffer_Append data len cb =
     obind (if CircularBuffer_WriteableBytes cb < len then CircularBuffer_grow len cb else Inr cb) (\<lambda>cb1.
       check (len \<le> CircularBuffer_WriteableBytes cb1) AssertFailed
         (check (len \<le> int_max) SignedOverflow
            (obind (for_each [0..<len] (CircularBuffer_store (cb_write_index cb1) data) (cb_buffer cb1)) (\<lambda>d.
               check (length d \<noteq> 0) DivisionByZero
                 (Inr (cb1\<lparr>cb_buffer := d,
                           cb_write_index := sz_add (cb_write_index cb1) len mod length d\<rparr>))))))"

text \<open>
  \<open>ReadFd\<close>: \<open>readv\<close> into the 65536-byte \<open>extrabuf\<close> either fails (\<open>None\<close>, return value \<open>-1\<close>) or
  delivers bytes; the return value is passed to \<open>Append\<close> as a \<open>size_t\<close> without a test.
\<close>

definition CircularBuffer_ReadFd :: "char list option \<Rightarrow> circular_buffer \<Rightarrow> (int \<times> circular_buffer) outcome" where
  "CircularBuffer_ReadFd rd cb =
     (case rd of
        None \<Rightarrow> obind (CircularBuffer_Append [] (to_size (-1)) cb) (\<lambda>cb1. Inr (-1, cb1))
      | Some data \<Rightarrow> obind (CircularBuffer_Append data (length data) cb) (\<lambda>cb1. Inr (int (length data), cb1)))"

definition CircularBuffer_ReadBytesBy :: "nat \<Rightarrow> circular_buffer \<Rightarrow> circular_buffer outcome" where
  "CircularBuffer_ReadBytesBy n cb =
     check (length (cb_buffer cb) \<noteq> 0) DivisionByZero
       (Inr (cb\<lparr>cb_read_index := sz_add (cb_read_index cb) n mod length (cb_buffer cb)\<rparr>))"

text \<open>\<open>ReadableSpace\<close>: the two \<open>iovec\<close>s as (offset into the ring, length).\<close>

definition CircularBuffer_ReadableSpace :: "circular_buffer \<Rightarrow> (nat \<times> nat) list" where
  "CircularBuffer_ReadableSpace cb =
     (if cb_read_index cb \<le> cb_write_index cb
      then [(cb_read_index cb, sz_sub (cb_write_index cb) (cb_read_index cb)), (0, 0)]
      else [(cb_read_index cb, sz_sub (length (cb_buffer cb)) (cb_read_index cb)),
            (0, cb_write_index cb)])"

text \<open>\<open>print\<close>: the bytes written to the terminal between the two markers.\<close>

definition CircularBuffer_print :: "circular_buffer \<Rightarrow> string" where
  "CircularBuffer_print cb =
     (if cb_read_index cb \<le> cb_write_index cb
      then map (\<lambda>i. cb_buffer cb ! i) [cb_read_index cb..<cb_write_index cb]
      else map (\<lambda>i. cb_buffer cb ! (i mod length (cb_buffer cb)))
             [cb_read_index cb..<sz_add (cb_write_index cb) (length (cb_buffer cb))])"

section \<open>Abstraction and invariant\<close>

definition ring_view :: "nat \<Rightarrow> nat \<Rightarrow> 'a list \<Rightarrow> 'a list" where
  "ring_view r m d = map (\<lambda>i. d ! ((r + i) mod length d)) [0..<m]"

definition cb_contents :: "circular_buffer \<Rightarrow> char list" where
  "cb_contents cb = ring_view (cb_read_index cb) (CircularBuffer_ReadableBytes cb) (cb_buffer cb)"

definition cb_invar :: "circular_buffer \<Rightarrow> bool" where
  "cb_invar cb \<longleftrightarrow> length (cb_buffer cb) < 2 ^ 31 \<and>
     cb_read_index cb < length (cb_buffer cb) \<and> cb_write_index cb < length (cb_buffer cb)"

text \<open>How many bytes an \<open>Append\<close> may bring: what is free now, or what keeps the grown ring below \<open>2 ^ 31\<close>.\<close>

definition cb_room :: "circular_buffer \<Rightarrow> nat" where
  "cb_room cb = max (CircularBuffer_WriteableBytes cb) (int_max - 2 * length (cb_buffer cb))"

text \<open>What \<open>ParseLine\<close> is meant to do, on the readable bytes: the line returned and the bytes left.\<close>

definition line_spec :: "char list \<Rightarrow> string \<times> char list" where
  "line_spec xs =
     (let l = takeWhile (\<lambda>c. c \<noteq> LF) xs
      in if length l < length xs \<and> 1 < length l \<and> last l = CR
         then (butlast l, drop (Suc (length l)) xs) else ([], xs))"

section \<open>Ring arithmetic\<close>

lemma mod_add_inj:
  fixes r i j n :: nat
  assumes "(r + i) mod n = (r + j) mod n" "i < n" "j < n"
  shows "i = j"
  using assms
proof (induction i j rule: linorder_wlog)
  case (le i j)
  then have "n dvd (r + j) - (r + i)" using mod_eq_dvd_iff_nat [of "r + i" "r + j" n] by simp
  with le show ?case by (auto dest!: dvd_imp_le)
qed auto

lemma length_ring_view [simp]: "length (ring_view r m d) = m"
  by (simp add: ring_view_def)

lemma ring_view_nth [simp]: "i < m \<Longrightarrow> ring_view r m d ! i = d ! ((r + i) mod length d)"
  by (simp add: ring_view_def)

lemma ring_view_Suc: "ring_view r (Suc m) d = ring_view r m d @ [d ! ((r + m) mod length d)]"
  by (simp add: ring_view_def)

lemma ring_view_mod: "ring_view (r mod length d) m d = ring_view r m d"
  by (simp add: ring_view_def mod_add_left_eq)

lemma drop_ring_view: "n \<le> m \<Longrightarrow> drop n (ring_view r m d) = ring_view (r + n) (m - n) d"
  by (rule nth_equalityI) (auto simp: add.assoc)

lemma ring_view_slice:
  assumes "r + m \<le> length d"
  shows "ring_view r m d = slice r (r + m) d"
  using assms by (intro nth_equalityI) auto

text \<open>A wrapped view is the tail of the ring followed by its head.\<close>

lemma ring_view_wrapped:
  assumes "w < r" "r < length d"
  shows "ring_view r (length d - (r - w)) d = drop r d @ take w d"
proof (rule nth_equalityI)
  fix k assume "k < length (ring_view r (length d - (r - w)) d)"
  then have k: "k < length d - (r - w)" by simp
  show "ring_view r (length d - (r - w)) d ! k = (drop r d @ take w d) ! k"
  proof (cases "r + k < length d")
    case True
    then have "k < length d - r" by linarith
    with k True show ?thesis by (simp add: nth_append)
  next
    case False
    then have "(r + k) mod length d = r + k - length d" "k - (length d - r) = r + k - length d"
        "\<not> k < length d - r"
      using assms k by (auto simp: mod_if)
    with False k assms show ?thesis by (simp add: nth_append)
  qed
qed (use assms in simp)

lemma ring_view_unwrapped:
  assumes "w < r" "r < length d"
  shows "ring_view r (length d - (r - w)) (d @ take w d @ ys) = ring_view r (length d - (r - w)) d"
proof -
  have "r + (length d - (r - w)) = length d + w" using assms by simp
  then have "ring_view r (length d - (r - w)) (d @ take w d @ ys) = slice r (length d + w) (d @ take w d @ ys)"
    using assms by (subst ring_view_slice) simp_all
  also have "\<dots> = drop r d @ take w d" using assms by (simp add: slice_def)
  finally show ?thesis using ring_view_wrapped [OF assms] by simp
qed

lemma ring_view_update:
  assumes "m < length d"
  shows "ring_view r (Suc m) (d[(r + m) mod length d := x]) = ring_view r m d @ [x]"
proof (rule nth_equalityI)
  fix i assume "i < length (ring_view r (Suc m) (d[(r + m) mod length d := x]))"
  then have i: "i < Suc m" by simp
  have "(r + m) mod length d = (r + i) mod length d \<longleftrightarrow> i = m"
    using mod_add_inj [of r m "length d" i] assms i by auto
  moreover have "(r + m) mod length d < length d" using assms by (intro mod_less_divisor) linarith
  ultimately show "ring_view r (Suc m) (d[(r + m) mod length d := x]) ! i = (ring_view r m d @ [x]) ! i"
    using i by (cases "i = m") (auto simp: nth_append nth_list_update)
qed simp

text \<open>The store loop in one function.\<close>

fun ring_store :: "nat \<Rightarrow> char list \<Rightarrow> char list \<Rightarrow> char list" where
  "ring_store w [] d = d"
| "ring_store w (x # xs) d = ring_store (Suc w) xs (d[w mod length d := x])"

lemma length_ring_store [simp]: "length (ring_store w xs d) = length d"
  by (induction w xs d rule: ring_store.induct) auto

lemma ring_store_Nil_iff [simp]: "ring_store w xs d = [] \<longleftrightarrow> d = []"
  by (metis length_0_conv length_ring_store)

lemma ring_store_snoc:
  "ring_store w (xs @ [x]) d = (ring_store w xs d)[(w + length xs) mod length d := x]"
  by (induction w xs d rule: ring_store.induct) auto

lemma ring_store_view:
  "m + length xs \<le> length d \<Longrightarrow>
     ring_view r (m + length xs) (ring_store (r + m) xs d) = ring_view r m d @ xs"
proof (induction xs rule: rev_induct)
  case (snoc x xs)
  then show ?case
    using ring_view_update [of "m + length xs" "ring_store (r + m) xs d" r x]
    by (simp add: ring_store_snoc add.assoc)
qed simp

lemma store_loop:
  assumes "len \<le> length data" "d \<noteq> []" "w + len < 2 ^ 64"
  shows "for_each [0..<len] (CircularBuffer_store w data) d = Inr (ring_store w (take len data) d)"
proof -
  have "for_each [0..<len] (CircularBuffer_store w data) (ring_store w (take 0 data) d) =
      Inr (ring_store w (take len data) d)"
    using assms
    by (intro for_each_upt) (auto simp: CircularBuffer_store_def take_Suc_conv_app_nth ring_store_snoc sz_add_id)
  then show ?thesis by simp
qed

section \<open>The index arithmetic under the invariant\<close>

lemma cb_readable:
  assumes "cb_invar cb"
  shows "CircularBuffer_ReadableBytes cb =
     (if cb_read_index cb \<le> cb_write_index cb then cb_write_index cb - cb_read_index cb
      else length (cb_buffer cb) - (cb_read_index cb - cb_write_index cb))"
proof -
  note i = assms [unfolded cb_invar_def]
  then have "cb_read_index cb - cb_write_index cb \<le> length (cb_buffer cb)" by linarith
  with i show ?thesis by (simp add: CircularBuffer_ReadableBytes_def sz_sub_id)
qed

lemma cb_readable_less: "cb_invar cb \<Longrightarrow> CircularBuffer_ReadableBytes cb < length (cb_buffer cb)"
  by (auto simp: cb_readable) (auto simp: cb_invar_def)

lemma cb_write_mod:
  "cb_invar cb \<Longrightarrow> (cb_read_index cb + CircularBuffer_ReadableBytes cb) mod length (cb_buffer cb) = cb_write_index cb"
  by (auto simp: cb_readable) (auto simp: cb_invar_def)

lemma cb_writeable:
  assumes "cb_invar cb"
  shows "CircularBuffer_WriteableBytes cb = length (cb_buffer cb) - CircularBuffer_ReadableBytes cb - 1"
proof -
  let ?a = "length (cb_buffer cb) - CircularBuffer_ReadableBytes cb"
  have "1 \<le> ?a" "?a < 2 ^ 64" "length (cb_buffer cb) < 2 ^ 64"
    using assms cb_readable_less [OF assms] by (auto simp: cb_invar_def)
  then show ?thesis using cb_readable_less [OF assms]
    by (simp only: CircularBuffer_WriteableBytes_def sz_sub_id less_imp_le)
qed

lemma length_cb_contents [simp]: "length (cb_contents cb) = CircularBuffer_ReadableBytes cb"
  by (simp add: cb_contents_def)

text \<open>A state is determined by where the readable bytes start and how many there are.\<close>

lemma cb_stateI:
  assumes "length (cb_buffer cb) < 2 ^ 31" "cb_read_index cb < length (cb_buffer cb)"
    "m < length (cb_buffer cb)" "cb_write_index cb = (cb_read_index cb + m) mod length (cb_buffer cb)"
  shows "cb_invar cb" "CircularBuffer_ReadableBytes cb = m"
    "cb_contents cb = ring_view (cb_read_index cb) m (cb_buffer cb)"
proof -
  have "0 < length (cb_buffer cb)" using assms by linarith
  then have "cb_write_index cb < length (cb_buffer cb)" unfolding assms(4) by (rule mod_less_divisor)
  with assms show inv: "cb_invar cb" by (simp add: cb_invar_def)
  have "cb_write_index cb = (if cb_read_index cb + m < length (cb_buffer cb) then cb_read_index cb + m
      else cb_read_index cb + m - length (cb_buffer cb))"
    using assms by (simp add: mod_if)
  with assms(2,3) show rb: "CircularBuffer_ReadableBytes cb = m"
    by (cases "cb_read_index cb + m < length (cb_buffer cb)") (auto simp: cb_readable [OF inv])
  show "cb_contents cb = ring_view (cb_read_index cb) m (cb_buffer cb)"
    by (simp add: cb_contents_def rb)
qed

section \<open>Append\<close>

lemma move_loop:
  assumes "length d + e < 2 ^ 31" "n \<le> length d" "n \<le> e"
  shows "for_each [0..<n] (CircularBuffer_move (to_int32 (length d))) (d @ replicate e NUL) =
           Inr (d @ take n d @ replicate (e - n) NUL)"
proof -
  let ?st = "\<lambda>i. d @ take i d @ replicate (e - i) NUL"
  have "for_each [0..<n] (CircularBuffer_move (to_int32 (length d))) (?st 0) = Inr (?st n)"
  proof (rule for_each_upt)
    fix i assume i: "i < n"
    have id: "to_int32 (length d) = int (length d)" using assms by (intro to_int32_id) linarith
    have pos: "to_size (int (length d) + int i) = length d + i"
      using assms i by (simp add: to_size_int flip: of_nat_add)
    have "replicate (e - i) NUL = NUL # replicate (e - Suc i) NUL"
      using assms i by (simp add: Suc_diff_Suc flip: replicate_Suc)
    then have "(?st i)[length d + i := d ! i] = ?st (Suc i)"
      using assms i by (simp add: list_update_append take_Suc_conv_app_nth)
    then show "CircularBuffer_move (to_int32 (length d)) i (?st i) = Inr (?st (Suc i))"
      using assms i by (simp add: CircularBuffer_move_def id pos nth_append)
  qed
  then show ?thesis by simp
qed

text \<open>Growing keeps the readable bytes, whatever new size \<open>N\<close> the size computation comes to.\<close>

lemma cb_grow:
  assumes inv: "cb_invar cb" and N: "N = sz_add (sz_mul (length (cb_buffer cb)) 2) len"
    and N_bounds: "2 * length (cb_buffer cb) - 1 \<le> N" "N < 2 ^ 31"
  shows "\<exists>cb'. CircularBuffer_grow len cb = Inr cb' \<and> cb_invar cb' \<and>
           cb_contents cb' = cb_contents cb \<and> length (cb_buffer cb') = N"
proof -
  let ?d = "cb_buffer cb" and ?r = "cb_read_index cb" and ?w = "cb_write_index cb"
  let ?m = "CircularBuffer_ReadableBytes cb"
  note i = inv [unfolded cb_invar_def]
  have e: "length ?d \<le> N" "?m < length ?d" using N_bounds i cb_readable_less [OF inv] by linarith+
  then have res: "vector_resize (sz_add (sz_mul (length ?d) 2) len) ?d = Inr (?d @ replicate (N - length ?d) NUL)"
    using N_bounds by (simp add: vector_resize_def flip: N)
  show ?thesis
  proof (cases "?w < ?r")
    case False
    let ?cb = "cb\<lparr>cb_buffer := ?d @ replicate (N - length ?d) NUL\<rparr>"
    have m: "?m = ?w - ?r" using False inv by (simp add: cb_readable)
    have view: "ring_view ?r ?m (cb_buffer ?cb) = ring_view ?r ?m ?d"
      using i False m by (simp add: ring_view_slice slice_append_left)
    have st: "length (cb_buffer ?cb) < 2 ^ 31" "cb_read_index ?cb < length (cb_buffer ?cb)"
        "?m < length (cb_buffer ?cb)" "cb_write_index ?cb = (cb_read_index ?cb + ?m) mod length (cb_buffer ?cb)"
      using i e N_bounds False m by simp_all
    have "cb_invar ?cb \<and> cb_contents ?cb = cb_contents cb"
      using cb_stateI(1,3) [OF st] view by (simp add: cb_contents_def)
    with False e show ?thesis by (simp add: CircularBuffer_grow_def Let_def res)
  next
    case True
    let ?cb = "cb\<lparr>cb_buffer := ?d @ take ?w ?d @ replicate (N - length ?d - ?w) NUL,
                  cb_write_index := length ?d + ?w\<rparr>"
    have m: "?m = length ?d - (?r - ?w)" using True inv by (simp add: cb_readable)
    have w: "?w \<le> length ?d" "?w \<le> N - length ?d" "?w \<le> int_max" "length ?d + ?w < N"
      using True i N_bounds by auto
    have "ring_view ?r ?m (?d @ take ?w ?d @ replicate (N - length ?d - ?w) NUL) = ring_view ?r ?m ?d"
      unfolding m by (rule ring_view_unwrapped) (use i True in simp_all)
    then have "ring_view ?r ?m (cb_buffer ?cb) = ring_view ?r ?m ?d" by simp
    moreover have st: "length (cb_buffer ?cb) < 2 ^ 31" "cb_read_index ?cb < length (cb_buffer ?cb)"
        "?m < length (cb_buffer ?cb)" "cb_write_index ?cb = (cb_read_index ?cb + ?m) mod length (cb_buffer ?cb)"
      using i True m e w N_bounds by simp_all
    ultimately have "cb_invar ?cb \<and> cb_contents ?cb = cb_contents cb"
      using cb_stateI(1,3) [OF st] by (simp add: cb_contents_def)
    moreover have "sz_add (to_size (to_int32 (length ?d))) ?w = length ?d + ?w"
      using i by (simp add: size_simps)
    moreover have "for_each [0..<?w] (CircularBuffer_move (to_int32 (length ?d))) (?d @ replicate (N - length ?d) NUL)
        = Inr (cb_buffer ?cb)"
      using move_loop [of ?d "N - length ?d" ?w] e w N_bounds by simp
    ultimately show ?thesis using True w e by (simp add: CircularBuffer_grow_def Let_def res)
  qed
qed

text \<open>Storing bytes that fit appends them; only the position modulo the size matters.\<close>

lemma ring_store_mod: "ring_store (w mod length d) xs d = ring_store w xs d"
proof (induction xs arbitrary: w d)
  case (Cons x xs)
  from Cons.IH [of "Suc (w mod length d)" "d[w mod length d := x]"]
    Cons.IH [of "Suc w" "d[w mod length d := x]"]
  show ?case by (simp add: mod_Suc_eq)
qed simp

lemma cb_append_fits:
  assumes inv: "cb_invar cb" and fits: "len \<le> CircularBuffer_WriteableBytes cb" and data: "len \<le> length data"
  shows "\<exists>cb'. CircularBuffer_Append data len cb = Inr cb' \<and> cb_invar cb' \<and>
           cb_contents cb' = cb_contents cb @ take len data \<and> length (cb_buffer cb') = length (cb_buffer cb)"
proof -
  let ?d = "cb_buffer cb" and ?r = "cb_read_index cb" and ?w = "cb_write_index cb"
  let ?m = "CircularBuffer_ReadableBytes cb"
  let ?cb = "cb\<lparr>cb_buffer := ring_store ?w (take len data) ?d, cb_write_index := (?w + len) mod length ?d\<rparr>"
  note i = inv [unfolded cb_invar_def]
  have room: "?m + len < length ?d" using fits cb_writeable [OF inv] cb_readable_less [OF inv] by linarith
  have w: "?w = (?r + ?m) mod length ?d" using cb_write_mod [OF inv] by simp
  have "ring_view ?r (?m + len) (cb_buffer ?cb) = cb_contents cb @ take len data"
    using ring_store_view [of ?m "take len data" ?d ?r] ring_store_mod [of "?r + ?m" ?d] room data
    by (simp add: cb_contents_def min_absorb1 cb_write_mod [OF inv])
  moreover have "(?w + len) mod length ?d = (?r + (?m + len)) mod length ?d"
    by (simp add: w mod_add_left_eq add.assoc)
  ultimately have "cb_invar ?cb \<and> cb_contents ?cb = cb_contents cb @ take len data"
    using cb_stateI [of ?cb "?m + len"] i room by simp
  moreover have "CircularBuffer_Append data len cb = Inr ?cb"
  proof -
    have "?d \<noteq> []" "?w + len < 2 ^ 64" "len \<le> int_max" using i room by auto
    with fits data show ?thesis by (simp add: CircularBuffer_Append_def sz_add_id store_loop)
  qed
  ultimately show ?thesis by simp
qed

lemma cb_append_grows:
  assumes inv: "cb_invar cb" and full: "CircularBuffer_WriteableBytes cb < len"
    and len: "2 * length (cb_buffer cb) + len < 2 ^ 31" and data: "len \<le> length data"
  shows "\<exists>cb'. CircularBuffer_Append data len cb = Inr cb' \<and> cb_invar cb' \<and>
           cb_contents cb' = cb_contents cb @ take len data \<and>
           length (cb_buffer cb') = 2 * length (cb_buffer cb) + len"
proof -
  have N: "2 * length (cb_buffer cb) + len = sz_add (sz_mul (length (cb_buffer cb)) 2) len"
    "2 * length (cb_buffer cb) - 1 \<le> 2 * length (cb_buffer cb) + len"
    using len by (simp add: size_simps, linarith)
  obtain cb1 where cb1: "CircularBuffer_grow len cb = Inr cb1" "cb_invar cb1"
    "cb_contents cb1 = cb_contents cb" "length (cb_buffer cb1) = 2 * length (cb_buffer cb) + len"
    using cb_grow [OF inv N len] by blast
  have "CircularBuffer_ReadableBytes cb1 < length (cb_buffer cb)"
    using cb_readable_less [OF inv] cb1(3) by (metis length_cb_contents)
  then have "len \<le> CircularBuffer_WriteableBytes cb1"
    using cb_writeable [OF cb1(2)] cb1(4) by linarith
  moreover from this have "CircularBuffer_Append data len cb1 = CircularBuffer_Append data len cb"
    using full cb1(1) by (simp add: CircularBuffer_Append_def)
  ultimately show ?thesis using cb_append_fits [OF cb1(2) _ data] cb1(3,4) by metis
qed

section \<open>Removal and line parsing\<close>

lemma cb_advance:
  assumes inv: "cb_invar cb" and n: "n \<le> CircularBuffer_ReadableBytes cb"
  defines "cb' \<equiv> cb\<lparr>cb_read_index := (cb_read_index cb + n) mod length (cb_buffer cb)\<rparr>"
  shows "cb_invar cb'" "cb_contents cb' = drop n (cb_contents cb)"
proof -
  let ?m = "CircularBuffer_ReadableBytes cb"
  note i = inv [unfolded cb_invar_def]
  have "0 < length (cb_buffer cb)" using i by linarith
  then have "cb_read_index cb' < length (cb_buffer cb')" by (simp add: cb'_def)
  moreover have "cb_write_index cb' = (cb_read_index cb' + (?m - n)) mod length (cb_buffer cb')"
  proof -
    have "cb_read_index cb + ?m = cb_read_index cb + n + (?m - n)" using n by simp
    then have "cb_write_index cb = ((cb_read_index cb + n) mod length (cb_buffer cb) + (?m - n)) mod length (cb_buffer cb)"
      using cb_write_mod [OF inv] by (simp only: mod_add_left_eq)
    then show ?thesis by (simp add: cb'_def)
  qed
  moreover have "?m - n < length (cb_buffer cb')" using cb_readable_less [OF inv] by (simp add: cb'_def)
  moreover have "length (cb_buffer cb') < 2 ^ 31" using i by (simp add: cb'_def)
  ultimately show "cb_invar cb'" and "cb_contents cb' = drop n (cb_contents cb)"
    using cb_stateI(1,3) [of cb' "?m - n"] n
    by (simp_all add: cb_contents_def cb'_def ring_view_mod drop_ring_view)
qed

lemma cb_read_bytes:
  assumes "cb_invar cb" "n \<le> CircularBuffer_ReadableBytes cb"
  shows "\<exists>cb'. CircularBuffer_ReadBytesBy n cb = Inr cb' \<and> cb_invar cb' \<and> cb_contents cb' = drop n (cb_contents cb)"
proof -
  note i = assms(1) [unfolded cb_invar_def]
  have "sz_add (cb_read_index cb) n = cb_read_index cb + n" "length (cb_buffer cb) \<noteq> 0"
    using i cb_readable_less [OF assms(1)] assms(2) by (auto intro!: sz_add_id)
  then show ?thesis using cb_advance [OF assms] by (simp add: CircularBuffer_ReadBytesBy_def)
qed

text \<open>The scan, started anywhere before the first line feed.\<close>

lemma parse_line_loop:
  assumes inv: "cb_invar cb"
  defines "xs \<equiv> cb_contents cb"
  defines "l \<equiv> takeWhile (\<lambda>c. c \<noteq> LF) xs"
  assumes "j \<le> length xs" "\<forall>k<j. xs ! k \<noteq> LF" "length xs - j < fuel"
  shows "CircularBuffer_ParseLine_loop fuel cb (int ((cb_read_index cb + j) mod length (cb_buffer cb))) (take j xs) =
    Some (Inr (if length l < length xs \<and> 1 < length l \<and> last l = CR
      then (butlast l, cb\<lparr>cb_read_index := (cb_read_index cb + Suc (length l)) mod length (cb_buffer cb)\<rparr>)
      else ([], cb)))"
  using assms(4-6)
proof (induction fuel arbitrary: j)
  case 0
  then show ?case by simp
next
  case (Suc fuel)
  let ?n = "length (cb_buffer cb)" and ?r = "cb_read_index cb" and ?m = "CircularBuffer_ReadableBytes cb"
  let ?i = "(?r + j) mod ?n"
  note i = inv [unfolded cb_invar_def]
  have m: "?m < ?n" "length xs = ?m" using cb_readable_less [OF inv] by (simp_all add: xs_def)
  have "0 < ?n" using i by linarith
  then have idx: "?i < ?n" by simp
  then have sz: "to_size (int ?i) = ?i" using i by (intro to_size_int) simp
  show ?case
  proof (cases "j = ?m")
    case True
    with Suc.prems m have "l = xs" by (auto simp: l_def in_set_conv_nth)
    then show ?thesis using True sz cb_write_mod [OF inv] by simp
  next
    case False
    with Suc.prems m have j: "j < ?m" by simp
    then have ne: "?i \<noteq> cb_write_index cb"
      using mod_add_inj [of ?r j ?n ?m] m cb_write_mod [OF inv] by auto
    have c: "cb_buffer cb ! ?i = xs ! j" using j by (simp add: xs_def cb_contents_def)
    show ?thesis
    proof (cases "xs ! j = LF")
      case True
      have "l = take j xs" unfolding l_def
        by (rule takeWhile_eq_take_P_nth) (use True Suc.prems in auto)
      moreover have "sz_add (sz_add ?r j) 1 = ?r + Suc j" using i j m by (simp add: sz_add_id)
      ultimately show ?thesis using True ne idx sz c j m by simp
    next
      case False
      have "int ?i \<noteq> int int_max" using i idx by linarith
      moreover have "to_size (int ?i + 1) = Suc ?i"
        using to_size_int [of "Suc ?i"] i idx by (simp add: add.commute)
      moreover have "(if Suc ?i = ?n then 0 else int ?i + 1) = int ((?r + Suc j) mod ?n)"
        by (simp add: mod_Suc)
      moreover have "take j xs @ [xs ! j] = take (Suc j) xs" using j m by (simp add: take_Suc_conv_app_nth)
      ultimately show ?thesis
        using Suc.IH [of "Suc j"] Suc.prems False ne idx sz c j m by (auto simp: less_Suc_eq)
    qed
  qed
qed

lemma parse_line_correct:
  assumes inv: "cb_invar cb" and fuel: "length (cb_buffer cb) \<le> fuel"
  shows "\<exists>line cb'. CircularBuffer_ParseLine fuel cb = Some (Inr (line, cb')) \<and> cb_invar cb' \<and>
           (line, cb_contents cb') = line_spec (cb_contents cb)"
proof -
  let ?xs = "cb_contents cb"
  let ?l = "takeWhile (\<lambda>c. c \<noteq> LF) ?xs"
  have "length ?xs - 0 < fuel" using cb_readable_less [OF inv] fuel by simp
  moreover have "to_int32 (cb_read_index cb) = int ((cb_read_index cb + 0) mod length (cb_buffer cb))"
    using inv by (simp add: cb_invar_def to_int32_id)
  ultimately have run: "CircularBuffer_ParseLine fuel cb =
      Some (Inr (if length ?l < length ?xs \<and> 1 < length ?l \<and> last ?l = CR
        then (butlast ?l, cb\<lparr>cb_read_index := (cb_read_index cb + Suc (length ?l)) mod length (cb_buffer cb)\<rparr>)
        else ([], cb)))"
    using parse_line_loop [OF inv, of 0 fuel] by (simp only: CircularBuffer_ParseLine_def take_0) simp
  show ?thesis
  proof (cases "length ?l < length ?xs \<and> 1 < length ?l \<and> last ?l = CR")
    case True
    then have "Suc (length ?l) \<le> CircularBuffer_ReadableBytes cb" by simp
    from cb_advance [OF inv this] True run show ?thesis by (simp add: line_spec_def Let_def)
  next
    case False
    with run inv show ?thesis by (auto simp: line_spec_def Let_def)
  qed
qed

section \<open>The buffer as a byte queue\<close>

definition cb_produce :: "char list \<Rightarrow> circular_buffer \<Rightarrow> circular_buffer outcome" where
  "cb_produce xs cb = CircularBuffer_Append xs (length xs) cb"

lemma cb_produce_room:
  assumes inv: "cb_invar cb" and room: "length xs \<le> cb_room cb"
  shows "\<exists>cb'. cb_produce xs cb = Inr cb' \<and> cb_invar cb' \<and> cb_contents cb' = cb_contents cb @ xs"
proof (cases "length xs \<le> CircularBuffer_WriteableBytes cb")
  case True
  then show ?thesis using cb_append_fits [OF inv, of "length xs" xs] by (auto simp: cb_produce_def)
next
  case False
  then have "2 * length (cb_buffer cb) + length xs < 2 ^ 31"
    using room by (simp add: cb_room_def max_def split: if_splits)
  with False show ?thesis using cb_append_grows [OF inv, of "length xs" xs] by (auto simp: cb_produce_def)
qed

interpretation ring: byte_fifo cb_contents cb_invar CircularBuffer_ReadBytesBy cb_room cb_produce
  by unfold_locales (auto dest: cb_read_bytes cb_produce_room)

lemma cb_new:
  assumes "0 < n" "n < 2 ^ 31"
  shows "\<exists>cb. CircularBuffer_new n = Inr cb \<and> cb_invar cb \<and> cb_contents cb = []"
proof -
  let ?cb = "\<lparr>cb_buffer = replicate n NUL, cb_read_index = 0, cb_write_index = 0\<rparr>"
  have "cb_invar ?cb" "CircularBuffer_ReadableBytes ?cb = 0" "cb_contents ?cb = []"
    using cb_stateI [of ?cb 0] assms by (simp_all add: ring_view_def)
  moreover from this have "CircularBuffer_WriteableBytes ?cb = sz_sub n 1"
    using assms by (simp add: cb_writeable sz_sub_id)
  ultimately show ?thesis by (simp add: CircularBuffer_new_def Let_def)
qed

text \<open>The two \<open>iovec\<close>s and the printed text are the readable bytes.\<close>

lemma cb_segments:
  assumes "cb_invar cb"
  shows "concat (map (\<lambda>(off, len). take len (drop off (cb_buffer cb))) (CircularBuffer_ReadableSpace cb)) = cb_contents cb"
    and "CircularBuffer_print cb = cb_contents cb"
proof -
  let ?d = "cb_buffer cb" and ?r = "cb_read_index cb" and ?w = "cb_write_index cb"
  note i = assms [unfolded cb_invar_def]
  have "concat (map (\<lambda>(off, len). take len (drop off ?d)) (CircularBuffer_ReadableSpace cb)) = cb_contents cb \<and>
      CircularBuffer_print cb = cb_contents cb"
  proof (cases "?r \<le> ?w")
    case True
    then have "cb_contents cb = slice ?r ?w ?d"
      using i by (simp add: cb_contents_def cb_readable [OF assms] ring_view_slice)
    moreover have "map (\<lambda>k. ?d ! k) [?r..<?w] = slice ?r ?w ?d"
      using True i by (intro nth_equalityI) simp_all
    ultimately show ?thesis using True i
      by (simp add: CircularBuffer_ReadableSpace_def CircularBuffer_print_def sz_sub_id slice_def)
  next
    case False
    then have c: "cb_contents cb = drop ?r ?d @ take ?w ?d"
      using i ring_view_wrapped [of ?w ?r ?d] by (simp add: cb_contents_def cb_readable [OF assms])
    have "map (\<lambda>k. ?d ! (k mod length ?d)) [?r..<?w + length ?d] = cb_contents cb"
      using False i by (intro nth_equalityI)
        (auto simp: cb_contents_def cb_readable [OF assms])
    with c False i show ?thesis
      by (simp add: CircularBuffer_ReadableSpace_def CircularBuffer_print_def size_simps)
  qed
  then show "concat (map (\<lambda>(off, len). take len (drop off ?d)) (CircularBuffer_ReadableSpace cb)) = cb_contents cb"
    and "CircularBuffer_print cb = cb_contents cb" by blast+
qed

section \<open>Properties\<close>

text \<open>C10: \<open>Append\<close> adds exactly the given bytes at the back, wrapped or not, and grows the ring to
  \<open>2 * size + len\<close> exactly when the bytes do not fit.\<close>

theorem CircularBuffer_Append_correct:
  assumes "cb_invar cb" and "len \<le> length data" and "2 * length (cb_buffer cb) + len < 2 ^ 31"
  shows "\<exists>cb'. CircularBuffer_Append data len cb = Inr cb' \<and> cb_invar cb' \<and>
    cb_contents cb' = cb_contents cb @ take len data \<and>
    length (cb_buffer cb') = (if len \<le> CircularBuffer_WriteableBytes cb then length (cb_buffer cb)
                              else 2 * length (cb_buffer cb) + len)"
  using cb_append_fits [OF assms(1) _ assms(2)] cb_append_grows [OF assms(1) _ assms(3,2)]
  by (simp add: not_le)

theorem CircularBuffer_Append_correct_witness:
  "let cb = \<lparr>cb_buffer = ''y..x'', cb_read_index = 3, cb_write_index = 1\<rparr> in
   cb_contents cb = ''xy'' \<and> CircularBuffer_WriteableBytes cb = 1 \<and>
   (\<exists>cb'. CircularBuffer_Append ''abc'' 3 cb = Inr cb' \<and> cb_invar cb' \<and>
     cb_contents cb' = cb_contents cb @ take 3 ''abc'' \<and>
     length (cb_buffer cb') = (if 3 \<le> CircularBuffer_WriteableBytes cb then length (cb_buffer cb)
                               else 2 * length (cb_buffer cb) + 3))"
  unfolding Let_def
  by (intro conjI, code_simp, code_simp, rule CircularBuffer_Append_correct; code_simp)



text \<open>C26: \<open>ParseLine\<close> ends after at most as many steps as the ring has slots and does what its
  description on the readable bytes says: a line of at least one character closed by CR LF is
  returned and removed; in every other case the empty string is returned and nothing is removed.\<close>

theorem CircularBuffer_ParseLine_correct:
  assumes "cb_invar cb"
  shows "\<exists>line cb'. CircularBuffer_ParseLine (length (cb_buffer cb)) cb = Some (Inr (line, cb')) \<and>
    cb_invar cb' \<and> (line, cb_contents cb') = line_spec (cb_contents cb)"
  by (rule parse_line_correct [OF assms]) simp

theorem CircularBuffer_ParseLine_correct_witness:
  "let cb = \<lparr>cb_buffer = [LF, CHR ''b'', NUL, NUL, NUL, NUL, CHR ''a'', CR], cb_read_index = 6, cb_write_index = 2\<rparr> in
   line_spec (cb_contents cb) = (''a'', ''b'') \<and>
   (\<exists>line cb'. CircularBuffer_ParseLine (length (cb_buffer cb)) cb = Some (Inr (line, cb')) \<and>
      cb_invar cb' \<and> (line, cb_contents cb') = line_spec (cb_contents cb))"
  unfolding Let_def
  by (intro conjI, code_simp, rule CircularBuffer_ParseLine_correct; code_simp)

text \<open>A failing \<open>readv\<close> in \<open>ReadFd\<close> is not handled: its \<open>-1\<close> reaches \<open>Append\<close> as the length
  \<open>2 ^ 64 - 1\<close>, the new size wraps to \<open>2 * size - 1\<close>, and the assertion aborts the process.\<close>

theorem CircularBuffer_ReadFd_error_aborts:
  assumes "cb_invar cb" and "length (cb_buffer cb) \<le> 2 ^ 30"
  shows "CircularBuffer_ReadFd None cb = Inl AssertFailed"
proof -
  let ?len = "2 ^ 64 - 1 :: nat" and ?N = "2 * length (cb_buffer cb) - 1"
  have len: "to_size (-1) = ?len" by (simp add: to_size_def)
  have pos: "1 \<le> length (cb_buffer cb)" using assms(1) by (auto simp: cb_invar_def)
  have mul: "sz_mul (length (cb_buffer cb)) 2 = 2 * length (cb_buffer cb)"
    using assms(2) by (simp add: sz_mul_id mult.commute)
  have "2 * length (cb_buffer cb) + ?len = ?N + 2 ^ 64" using pos by simp
  then have "sz_add (2 * length (cb_buffer cb)) ?len = (?N + 2 ^ 64) mod 2 ^ 64" by (simp only: sz_add_def)
  also have "\<dots> = ?N mod 2 ^ 64" by (rule mod_add_self2)
  also have "\<dots> = ?N" using assms(2) by (intro mod_less) simp
  finally have N: "?N = sz_add (sz_mul (length (cb_buffer cb)) 2) ?len" unfolding mul by (rule sym)
  have "?N < 2 ^ 31" using assms(2) pos by simp
  then obtain cb1 where cb1: "CircularBuffer_grow ?len cb = Inr cb1" "cb_invar cb1"
    using cb_grow [OF assms(1) N order_refl] by blast
  have small: "\<not> ?len \<le> CircularBuffer_WriteableBytes c" if "cb_invar c" for c
  proof -
    have "CircularBuffer_WriteableBytes c < 2 ^ 31"
      unfolding cb_writeable [OF that] using that by (simp add: cb_invar_def less_imp_diff_less)
    then show ?thesis by simp
  qed
  show ?thesis
    using cb1 small [OF assms(1)] small [OF cb1(2)]
    by (simp only: CircularBuffer_ReadFd_def CircularBuffer_Append_def len option.case not_le if_True obind.simps check_simps)
      (simp add: check_def)
qed

theorem CircularBuffer_ReadFd_error_aborts_witness:
  "CircularBuffer_ReadFd None \<lparr>cb_buffer = replicate 15 NUL, cb_read_index = 0, cb_write_index = 0\<rparr> = Inl AssertFailed"
  by (rule CircularBuffer_ReadFd_error_aborts; code_simp)

text \<open>The two \<open>iovec\<close>s of \<open>ReadableSpace\<close> describe, in order, exactly the readable bytes, and
  \<open>print\<close> writes exactly these bytes, whether the ring has wrapped or not.\<close>

theorem CircularBuffer_ReadableSpace_print:
  assumes "cb_invar cb"
  shows "concat (map (\<lambda>(off, len). take len (drop off (cb_buffer cb))) (CircularBuffer_ReadableSpace cb)) = cb_contents cb \<and>
    CircularBuffer_print cb = cb_contents cb"
  using cb_segments [OF assms] by blast

theorem CircularBuffer_ReadableSpace_print_witness:
  "let cb = \<lparr>cb_buffer = ''y..x'', cb_read_index = 3, cb_write_index = 1\<rparr> in
   concat (map (\<lambda>(off, len). take len (drop off (cb_buffer cb))) (CircularBuffer_ReadableSpace cb)) = cb_contents cb \<and>
   CircularBuffer_print cb = cb_contents cb"
  unfolding Let_def by (rule CircularBuffer_ReadableSpace_print) code_simp

end
