(* ===== verification/Channel.thy ===== *)
theory Channel
  imports Prelude "HOL-Library.Word"
begin

unbundle bit_operations_syntax

text \<open>
  \<open>Channel\<close> (Channel.h, Channel.cc): one file descriptor with the events it watches, the events
  that happened and four optional callbacks. Channels are objects that callbacks can destroy, so
  \<open>HandleEvent\<close> works on a world that maps addresses to channels; \<open>get\<close> and \<open>put\<close> read and write
  the channel at an address, and \<open>run\<close> invokes a stored \<open>std::function\<close>. The text written to
  \<open>std::cout\<close> is not modelled.
\<close>

section \<open>Data\<close>

type_synonym events = "32 word"

abbreviation EPOLLIN :: events where "EPOLLIN \<equiv> 0x001"
abbreviation EPOLLPRI :: events where "EPOLLPRI \<equiv> 0x002"
abbreviation EPOLLOUT :: events where "EPOLLOUT \<equiv> 0x004"
abbreviation EPOLLERR :: events where "EPOLLERR \<equiv> 0x008"
abbreviation EPOLLHUP :: events where "EPOLLHUP \<equiv> 0x010"
abbreviation EPOLLRDHUP :: events where "EPOLLRDHUP \<equiv> 0x2000"

text \<open>A closure is a value of type \<open>'f\<close>; an empty \<open>std::function\<close> is \<open>None\<close>.\<close>

record 'f channel =
  ch_fd :: int
  ch_watch_events :: events
  ch_trigger_events :: events
  ch_event_handling :: bool
  ch_run_in_loop_flag :: bool
  ch_read_call_back :: "'f option"
  ch_write_call_back :: "'f option"
  ch_close_call_back :: "'f option"
  ch_error_call_back :: "'f option"

definition Channel_new :: "int \<Rightarrow> 'f channel" where
  "Channel_new fd = \<lparr>ch_fd = fd, ch_watch_events = 0, ch_trigger_events = 0,
     ch_event_handling = False, ch_run_in_loop_flag = False,
     ch_read_call_back = None, ch_write_call_back = None,
     ch_close_call_back = None, ch_error_call_back = None\<rparr>"

text \<open>The setters of the callbacks and of the two members that others change.\<close>

definition Channel_set_read_call_back :: "'f option \<Rightarrow> 'f channel \<Rightarrow> 'f channel" where
  "Channel_set_read_call_back cb c = c\<lparr>ch_read_call_back := cb\<rparr>"

definition Channel_set_write_call_back :: "'f option \<Rightarrow> 'f channel \<Rightarrow> 'f channel" where
  "Channel_set_write_call_back cb c = c\<lparr>ch_write_call_back := cb\<rparr>"

definition Channel_set_close_call_back :: "'f option \<Rightarrow> 'f channel \<Rightarrow> 'f channel" where
  "Channel_set_close_call_back cb c = c\<lparr>ch_close_call_back := cb\<rparr>"

definition Channel_set_error_call_back :: "'f option \<Rightarrow> 'f channel \<Rightarrow> 'f channel" where
  "Channel_set_error_call_back cb c = c\<lparr>ch_error_call_back := cb\<rparr>"

definition Channel_set_trigger_events :: "events \<Rightarrow> 'f channel \<Rightarrow> 'f channel" where
  "Channel_set_trigger_events ev c = c\<lparr>ch_trigger_events := ev\<rparr>"

definition Channel_set_run_in_loop_flag :: "bool \<Rightarrow> 'f channel \<Rightarrow> 'f channel" where
  "Channel_set_run_in_loop_flag b c = c\<lparr>ch_run_in_loop_flag := b\<rparr>"

lemmas channel_setters [simp] = Channel_set_read_call_back_def Channel_set_write_call_back_def
  Channel_set_close_call_back_def Channel_set_error_call_back_def Channel_set_trigger_events_def
  Channel_set_run_in_loop_flag_def

text \<open>The destructor returns nothing; it only asserts.\<close>

definition Channel_destroy :: "'f channel \<Rightarrow> unit outcome" where
  "Channel_destroy c =
     check (\<not> ch_event_handling c) AssertFailed
       (check (\<not> ch_run_in_loop_flag c) AssertFailed (Inr ()))"

section \<open>The watched events\<close>

definition Channel_EnableReading :: "'f channel \<Rightarrow> 'f channel" where
  "Channel_EnableReading c =
     c\<lparr>ch_watch_events := ch_watch_events c OR (EPOLLIN OR EPOLLPRI)\<rparr>"

definition Channel_DisableReading :: "'f channel \<Rightarrow> 'f channel" where
  "Channel_DisableReading c =
     c\<lparr>ch_watch_events := ch_watch_events c AND NOT (EPOLLIN OR EPOLLPRI)\<rparr>"

definition Channel_EnableWriting :: "'f channel \<Rightarrow> 'f channel" where
  "Channel_EnableWriting c = c\<lparr>ch_watch_events := ch_watch_events c OR EPOLLOUT\<rparr>"

definition Channel_DisableWritint :: "'f channel \<Rightarrow> 'f channel" where
  "Channel_DisableWritint c = c\<lparr>ch_watch_events := ch_watch_events c AND NOT EPOLLOUT\<rparr>"

definition Channel_isWriting :: "'f channel \<Rightarrow> bool" where
  "Channel_isWriting c \<longleftrightarrow> ch_watch_events c AND EPOLLOUT \<noteq> 0"

definition Channel_isReading :: "'f channel \<Rightarrow> bool" where
  "Channel_isReading c \<longleftrightarrow> ch_watch_events c AND (EPOLLIN OR EPOLLPRI) \<noteq> 0"

text \<open>The same tests bit by bit, for the proofs.\<close>

lemma bit_mask_1: "bit (1 :: events) n \<longleftrightarrow> n = 0"
  by (rule bit_1_iff)

lemma bit_mask_2: "bit (2 :: events) n \<longleftrightarrow> n = 1"
  using bit_exp_iff [of 1 n, where 'a = events] by (auto simp: possible_bit_def)

lemma bit_mask_4: "bit (4 :: events) n \<longleftrightarrow> n = 2"
proof -
  have "(4 :: events) = 2 ^ 2" by simp
  then show ?thesis
    using bit_exp_iff [of 2 n, where 'a = events] by (auto simp: possible_bit_def)
qed

lemma bit_mask_reading: "bit (EPOLLIN OR EPOLLPRI) n \<longleftrightarrow> n = 0 \<or> n = 1"
  by (simp only: bit_or_iff bit_mask_1 bit_mask_2)

lemma and_mask_iff: "x AND w \<noteq> (0 :: events) \<longleftrightarrow> (\<exists>n. bit x n \<and> bit w n)"
proof
  assume "x AND w \<noteq> 0"
  then have "\<exists>n. bit (x AND w) n" by (metis bit_0_eq bot_apply bot_bool_def bit_eqI)
  then show "\<exists>n. bit x n \<and> bit w n" by (simp only: bit_and_iff)
next
  assume "\<exists>n. bit x n \<and> bit w n"
  then have "\<exists>n. bit (x AND w) n" by (simp only: bit_and_iff)
  then show "x AND w \<noteq> 0" by auto
qed

lemma isWriting_bit: "Channel_isWriting c \<longleftrightarrow> bit (ch_watch_events c) 2"
  by (simp only: Channel_isWriting_def and_mask_iff bit_mask_4) blast

lemma isReading_bit:
  "Channel_isReading c \<longleftrightarrow> bit (ch_watch_events c) 0 \<or> bit (ch_watch_events c) 1"
  by (simp only: Channel_isReading_def and_mask_iff bit_mask_reading) blast

lemmas mask_defs = Channel_EnableReading_def Channel_DisableReading_def
  Channel_EnableWriting_def Channel_DisableWritint_def

lemmas mask_bits = bit_or_iff bit_and_iff bit_not_iff bit_mask_1 bit_mask_2 bit_mask_4

lemma watch_update: "ch_watch_events (c\<lparr>ch_watch_events := e\<rparr>) = e"
  by simp

lemma watch_bits:
  "bit (ch_watch_events (Channel_EnableReading c)) n \<longleftrightarrow> bit (ch_watch_events c) n \<or> n = 0 \<or> n = 1"
  "bit (ch_watch_events (Channel_DisableReading c)) n \<longleftrightarrow> bit (ch_watch_events c) n \<and> n \<noteq> 0 \<and> n \<noteq> 1"
  "bit (ch_watch_events (Channel_EnableWriting c)) n \<longleftrightarrow> bit (ch_watch_events c) n \<or> n = 2"
  "bit (ch_watch_events (Channel_DisableWritint c)) n \<longleftrightarrow> bit (ch_watch_events c) n \<and> n \<noteq> 2"
  using bit_imp_le_length [of "ch_watch_events c" n]
  by (auto simp only: mask_defs watch_update mask_bits possible_bit_word)

lemma watch_cancel:
  "ch_watch_events (Channel_DisableReading (Channel_EnableReading c)) = ch_watch_events (Channel_DisableReading c)"
  "ch_watch_events (Channel_DisableWritint (Channel_EnableWriting c)) = ch_watch_events (Channel_DisableWritint c)"
  by (rule bit_eqI, auto simp: watch_bits)+

text \<open>The reading and the writing interest of a channel are independent switches: enabling or
  disabling one sets exactly its own query, never the other, and no operation touches an event bit
  outside the three it names (input, priority input, output). A new channel watches nothing.\<close>

theorem Channel_interest_switches:
  "Channel_isReading (Channel_EnableReading c)" "\<not> Channel_isReading (Channel_DisableReading c)"
  "Channel_isWriting (Channel_EnableWriting c)" "\<not> Channel_isWriting (Channel_DisableWritint c)"
  "Channel_isWriting (Channel_EnableReading c) = Channel_isWriting c"
  "Channel_isWriting (Channel_DisableReading c) = Channel_isWriting c"
  "Channel_isReading (Channel_EnableWriting c) = Channel_isReading c"
  "Channel_isReading (Channel_DisableWritint c) = Channel_isReading c"
  "ch_watch_events (Channel_DisableReading (Channel_EnableReading c)) = ch_watch_events (Channel_DisableReading c)"
  "ch_watch_events (Channel_DisableWritint (Channel_EnableWriting c)) = ch_watch_events (Channel_DisableWritint c)"
  "ch_watch_events (Channel_new fd) = 0"
  by (simp_all add: isReading_bit isWriting_bit watch_bits watch_cancel Channel_new_def)

section \<open>Dispatch\<close>

text \<open>
  Every access to the channel reads it from the world first: a callback may have destroyed it.
\<close>

definition with_channel :: "(nat \<Rightarrow> 'w \<Rightarrow> 'f channel option) \<Rightarrow> nat \<Rightarrow> 'w \<Rightarrow>
    ('f channel \<Rightarrow> 'b outcome) \<Rightarrow> 'b outcome" where
  "with_channel get a w k = (case get a w of None \<Rightarrow> Inl UseAfterFree | Some c \<Rightarrow> k c)"

definition call_back :: "('f \<Rightarrow> 'w \<Rightarrow> 'w outcome) \<Rightarrow> 'f option \<Rightarrow> 'w \<Rightarrow> 'w outcome" where
  "call_back run cb w = (case cb of None \<Rightarrow> Inr w | Some f \<Rightarrow> run f w)"

definition Channel_set_event_handling :: "(nat \<Rightarrow> 'w \<Rightarrow> 'f channel option) \<Rightarrow>
    (nat \<Rightarrow> 'f channel \<Rightarrow> 'w \<Rightarrow> 'w) \<Rightarrow> nat \<Rightarrow> bool \<Rightarrow> 'w \<Rightarrow> 'w outcome" where
  "Channel_set_event_handling get put a b w =
     with_channel get a w (\<lambda>c. Inr (put a (c\<lparr>ch_event_handling := b\<rparr>) w))"

definition Channel_HandleEvent :: "(nat \<Rightarrow> 'w \<Rightarrow> 'f channel option) \<Rightarrow>
    (nat \<Rightarrow> 'f channel \<Rightarrow> 'w \<Rightarrow> 'w) \<Rightarrow> ('f \<Rightarrow> 'w \<Rightarrow> 'w outcome) \<Rightarrow> nat \<Rightarrow> 'w \<Rightarrow> 'w outcome" where
  "Channel_HandleEvent get put run a w =
     obind (Channel_set_event_handling get put a True w) (\<lambda>w.
     obind (with_channel get a w (\<lambda>c.
        if ch_trigger_events c AND EPOLLHUP \<noteq> 0 \<and> \<not> (ch_trigger_events c AND EPOLLIN \<noteq> 0)
        then call_back run (ch_close_call_back c) w else Inr w)) (\<lambda>w.
     with_channel get a w (\<lambda>c.
        if ch_trigger_events c AND EPOLLERR \<noteq> 0
        then obind (call_back run (ch_error_call_back c) w)
               (Channel_set_event_handling get put a False)
        else
          obind (if ch_trigger_events c AND (EPOLLIN OR EPOLLPRI OR EPOLLRDHUP) \<noteq> 0
                 then call_back run (ch_read_call_back c) w else Inr w) (\<lambda>w.
          obind (with_channel get a w (\<lambda>c.
             if ch_trigger_events c AND EPOLLOUT \<noteq> 0
             then call_back run (ch_write_call_back c) w else Inr w))
            (Channel_set_event_handling get put a False)))))"

text \<open>
  The reference: the callbacks an event set selects, in the order they run. A hang-up without input
  selects the close callback; an error selects only the error callback after that.
\<close>

definition guarded :: "bool \<Rightarrow> 'a option \<Rightarrow> 'a list" where
  "guarded b x = (if b then case x of None \<Rightarrow> [] | Some y \<Rightarrow> [y] else [])"

definition dispatched :: "'f channel \<Rightarrow> 'f list" where
  "dispatched c = (let t = ch_trigger_events c in
     guarded (t AND EPOLLHUP \<noteq> 0 \<and> t AND EPOLLIN = 0) (ch_close_call_back c) @
     (if t AND EPOLLERR \<noteq> 0 then guarded True (ch_error_call_back c)
      else guarded (t AND (EPOLLIN OR EPOLLPRI OR EPOLLRDHUP) \<noteq> 0) (ch_read_call_back c) @
           guarded (t AND EPOLLOUT \<noteq> 0) (ch_write_call_back c)))"

fun run_seq :: "('f \<Rightarrow> 'w \<Rightarrow> 'w outcome) \<Rightarrow> 'f list \<Rightarrow> 'w \<Rightarrow> 'w outcome" where
  "run_seq run [] w = Inr w"
| "run_seq run (f # fs) w = obind (run f w) (run_seq run fs)"

definition same_dispatch :: "'f channel \<Rightarrow> 'f channel \<Rightarrow> bool" where
  "same_dispatch c d \<longleftrightarrow> ch_trigger_events c = ch_trigger_events d \<and>
     ch_read_call_back c = ch_read_call_back d \<and> ch_write_call_back c = ch_write_call_back d \<and>
     ch_close_call_back c = ch_close_call_back d \<and> ch_error_call_back c = ch_error_call_back d"

lemma run_seq_append: "run_seq run (fs @ gs) w = obind (run_seq run fs w) (run_seq run gs)"
proof (induction fs arbitrary: w)
  case (Cons f fs)
  then show ?case by (cases "run f w") auto
qed auto

lemma run_seq_guarded: "run_seq run (guarded b x) w = (if b then call_back run x w else Inr w)"
  by (cases "run (the x) w") (auto simp: guarded_def call_back_def split: option.splits)

lemma call_back_None [simp]: "call_back run None w = Inr w"
  by (simp add: call_back_def)

lemma call_back_Some [simp]: "call_back run (Some f) w = run f w"
  by (simp add: call_back_def)

locale channel_heap =
  fixes get :: "nat \<Rightarrow> 'w \<Rightarrow> 'f channel option"
    and put :: "nat \<Rightarrow> 'f channel \<Rightarrow> 'w \<Rightarrow> 'w"
  assumes get_put_same: "get a w = Some c \<Longrightarrow> get a (put a c' w) = Some c'"
    and get_put_other: "a \<noteq> b \<Longrightarrow> get b (put a c w) = get b w"
begin

text \<open>The rest of \<open>HandleEvent\<close> once the close callback has run.\<close>

lemma HandleEvent_dispatch:
  assumes c: "get a w = Some c"
    and keep: "\<And>f v v' d. f \<in> set (dispatched c) \<Longrightarrow> get a v = Some d \<Longrightarrow> same_dispatch c d \<Longrightarrow>
                run f v = Inr v' \<Longrightarrow> \<exists>d'. get a v' = Some d' \<and> same_dispatch c d'"
  shows "Channel_HandleEvent get put run a w =
    obind (run_seq run (dispatched c) (put a (c\<lparr>ch_event_handling := True\<rparr>) w))
      (Channel_set_event_handling get put a False)"
proof -
  let ?w = "put a (c\<lparr>ch_event_handling := True\<rparr>) w"
  let ?t = "ch_trigger_events c"
  let ?close = "guarded (?t AND EPOLLHUP \<noteq> 0 \<and> ?t AND EPOLLIN = 0) (ch_close_call_back c)"
  let ?read = "guarded (?t AND (EPOLLIN OR EPOLLPRI OR EPOLLRDHUP) \<noteq> 0) (ch_read_call_back c)"
  let ?out = "guarded (?t AND EPOLLOUT \<noteq> 0) (ch_write_call_back c)"
  have w: "get a ?w = Some (c\<lparr>ch_event_handling := True\<rparr>)" using c by (rule get_put_same)
  have kept: "\<exists>d'. get a v' = Some d' \<and> same_dispatch c d'"
    if "get a v = Some d" "same_dispatch c d" "run_seq run fs v = Inr v'" "set fs \<subseteq> set (dispatched c)"
    for v v' d fs
    using that
  proof (induction fs arbitrary: v d)
    case (Cons f fs)
    then obtain u where u: "run f v = Inr u" "run_seq run fs u = Inr v'"
      by (auto simp: obind_Inr_iff)
    with Cons.prems keep [of f v d u] obtain d' where "get a u = Some d'" "same_dispatch c d'"
      by auto
    with Cons.IH u(2) Cons.prems(4) show ?case by auto
  qed auto
  have stage1: "with_channel get a ?w (\<lambda>c. if ch_trigger_events c AND EPOLLHUP \<noteq> 0 \<and>
        \<not> (ch_trigger_events c AND EPOLLIN \<noteq> 0) then call_back run (ch_close_call_back c) ?w else Inr ?w) =
      run_seq run ?close ?w"
    by (simp add: with_channel_def w run_seq_guarded)
  show ?thesis
  proof (cases "run_seq run ?close ?w")
    case (Inl e)
    then show ?thesis
      using c stage1 unfolding Channel_HandleEvent_def Channel_set_event_handling_def with_channel_def
      by (simp add: dispatched_def Let_def run_seq_append)
  next
    case (Inr v)
    have sub: "set ?close \<subseteq> set (dispatched c)" by (simp add: dispatched_def Let_def)
    have "same_dispatch c (c\<lparr>ch_event_handling := True\<rparr>)" by (simp add: same_dispatch_def)
    from kept [OF w this Inr sub] obtain d where d: "get a v = Some d" "same_dispatch c d" by blast
    have sub2: "set ?read \<subseteq> set (dispatched c)" if "?t AND EPOLLERR = 0"
      using that by (auto simp: dispatched_def Let_def)
    have stage3: "obind (with_channel get a u (\<lambda>c. if ch_trigger_events c AND EPOLLOUT \<noteq> 0
          then call_back run (ch_write_call_back c) u else Inr u)) (Channel_set_event_handling get put a False) =
        obind (run_seq run ?out u) (Channel_set_event_handling get put a False)"
      if u: "run_seq run ?read v = Inr u" "?t AND EPOLLERR = 0" for u
    proof -
      obtain d' where "get a u = Some d'" "same_dispatch c d'"
        using kept [OF d u(1) sub2] u(2) by blast
      then show ?thesis by (simp add: with_channel_def run_seq_guarded same_dispatch_def)
    qed
    have head: "Channel_HandleEvent get put run a w = (
        if ?t AND EPOLLERR \<noteq> 0
        then obind (call_back run (ch_error_call_back c) v) (Channel_set_event_handling get put a False)
        else obind (run_seq run ?read v) (\<lambda>u. obind (with_channel get a u (\<lambda>c.
          if ch_trigger_events c AND EPOLLOUT \<noteq> 0 then call_back run (ch_write_call_back c) u else Inr u))
          (Channel_set_event_handling get put a False)))"
      using c d stage1 Inr
      by (simp add: Channel_HandleEvent_def Channel_set_event_handling_def [of get put a True]
          with_channel_def same_dispatch_def run_seq_guarded del: obind.simps(1))
    show ?thesis
    proof (cases "?t AND EPOLLERR = 0")
      case True
      then show ?thesis
        using head Inr stage3 by (cases "run_seq run ?read v")
          (simp_all add: dispatched_def Let_def run_seq_append del: obind.simps(1) add: obind.simps(1))
    next
      case False
      then show ?thesis
        using head Inr by (simp add: dispatched_def Let_def run_seq_append run_seq_guarded)
    qed
  qed
qed

text \<open>A callback that destroys its own channel makes the rest of \<open>HandleEvent\<close> undefined.\<close>

lemma HandleEvent_destroyed:
  assumes c: "get a w = Some c"
    and f: "dispatched c = f # fs" "run f (put a (c\<lparr>ch_event_handling := True\<rparr>) w) = Inr v"
    and gone: "get a v = None"
  shows "Channel_HandleEvent get put run a w = Inl UseAfterFree"
proof -
  let ?w = "put a (c\<lparr>ch_event_handling := True\<rparr>) w"
  have w: "get a ?w = Some (c\<lparr>ch_event_handling := True\<rparr>)" using c by (rule get_put_same)
  show ?thesis
    using c w f gone
    by (auto simp: Channel_HandleEvent_def Channel_set_event_handling_def with_channel_def
        dispatched_def Let_def guarded_def call_back_def split: if_splits option.splits)
qed

end

end
