(* ===== verification/Std_Map.thy ===== *)
theory Std_Map
  imports Prelude
begin

text \<open>
  \<open>std::map\<close> as the association list an in-order traversal yields: keys strictly increasing.
  Its contract is the interface \<open>keyed_store\<close>; the connection table, the poller's channel table
  and the header tables are used through it.
\<close>

section \<open>Interface\<close>

locale keyed_store =
  fixes empty :: "'m"
    and lookup :: "'m \<Rightarrow> 'k \<Rightarrow> 'v option"
    and insert :: "'k \<Rightarrow> 'v \<Rightarrow> 'm \<Rightarrow> 'm"
    and erase :: "'k \<Rightarrow> 'm \<Rightarrow> 'm"
    and invar :: "'m \<Rightarrow> bool"
  assumes empty_law: "invar empty" "lookup empty k = None"
    and insert_law: "invar m \<Longrightarrow> invar (insert k v m)"
      "invar m \<Longrightarrow> lookup (insert k v m) = (lookup m)(k \<mapsto> v)"
    and erase_law: "invar m \<Longrightarrow> invar (erase k m)"
      "invar m \<Longrightarrow> lookup (erase k m) = (lookup m)(k := None)"

datatype ('k, 'v) store_op = Ins 'k 'v | Del 'k

fun store_run :: "('k \<Rightarrow> 'v \<Rightarrow> 'm \<Rightarrow> 'm) \<Rightarrow> ('k \<Rightarrow> 'm \<Rightarrow> 'm) \<Rightarrow> ('k, 'v) store_op list \<Rightarrow> 'm \<Rightarrow> 'm" where
  "store_run ins del [] m = m"
| "store_run ins del (Ins k v # ops) m = store_run ins del ops (ins k v m)"
| "store_run ins del (Del k # ops) m = store_run ins del ops (del k m)"

abbreviation spec_run :: "('k, 'v) store_op list \<Rightarrow> ('k \<rightharpoonup> 'v) \<Rightarrow> ('k \<rightharpoonup> 'v)" where
  "spec_run \<equiv> store_run (\<lambda>k v m. m(k \<mapsto> v)) (\<lambda>k m. m(k := None))"

context keyed_store
begin

lemma run_invar: "invar m \<Longrightarrow> invar (store_run insert erase ops m)"
proof (induction ops arbitrary: m)
  case (Cons x ops)
  then show ?case by (cases x) (auto simp: insert_law erase_law)
qed auto

lemma run_lookup: "invar m \<Longrightarrow> lookup (store_run insert erase ops m) = spec_run ops (lookup m)"
proof (induction ops arbitrary: m)
  case (Cons x ops)
  then show ?case by (cases x) (auto simp: insert_law erase_law)
qed auto

lemma erase_absent: "invar m \<Longrightarrow> lookup m k = None \<Longrightarrow> lookup (erase k m) = lookup m"
  by (auto simp: erase_law)

lemma insert_erase: "invar m \<Longrightarrow> lookup m k = None \<Longrightarrow> lookup (erase k (insert k v m)) = lookup m"
  by (auto simp: insert_law erase_law)

end

section \<open>The sorted association list\<close>

type_synonym ('k, 'v) std_map = "('k \<times> 'v) list"

fun map_insert :: "'k::linorder \<Rightarrow> 'v \<Rightarrow> ('k, 'v) std_map \<Rightarrow> ('k, 'v) std_map" where
  "map_insert k v [] = [(k, v)]"
| "map_insert k v ((k1, v1) # m) =
     (if k < k1 then (k, v) # (k1, v1) # m
      else if k = k1 then (k, v) # m
      else (k1, v1) # map_insert k v m)"

definition map_erase :: "'k \<Rightarrow> ('k, 'v) std_map \<Rightarrow> ('k, 'v) std_map" where
  "map_erase k m = filter (\<lambda>p. fst p \<noteq> k) m"

abbreviation map_find :: "('k, 'v) std_map \<Rightarrow> 'k \<Rightarrow> 'v option" where "map_find \<equiv> map_of"

definition map_sorted :: "('k::linorder, 'v) std_map \<Rightarrow> bool" where
  "map_sorted m \<longleftrightarrow> sorted_wrt (<) (map fst m)"

lemma keys_map_insert: "fst ` set (map_insert k v m) = Set.insert k (fst ` set m)"
  by (induction k v m rule: map_insert.induct) auto

lemma map_sorted_simps [simp]:
  "map_sorted []"
  "map_sorted ((k, v) # m) \<longleftrightarrow> (\<forall>x \<in> fst ` set m. k < x) \<and> map_sorted m"
  by (auto simp: map_sorted_def)

lemma map_sorted_insert: "map_sorted m \<Longrightarrow> map_sorted (map_insert k v m)"
  by (induction k v m rule: map_insert.induct) (auto simp: keys_map_insert)

lemma map_of_map_insert: "map_of (map_insert k v m) = (map_of m)(k \<mapsto> v)"
  by (induction k v m rule: map_insert.induct) auto

lemma map_sorted_erase: "map_sorted m \<Longrightarrow> map_sorted (map_erase k m)"
  by (induction m) (auto simp: map_erase_def)

lemma map_of_map_erase: "map_of (map_erase k m) = (map_of m)(k := None)"
  by (induction m) (auto simp: map_erase_def)

interpretation smap: keyed_store "[]" map_find map_insert map_erase map_sorted
  by unfold_locales (simp_all add: map_sorted_insert map_of_map_insert map_sorted_erase map_of_map_erase)

text \<open>Inserting a sorted list of pairs into the empty map gives the list itself.\<close>

lemma map_insert_last: "(\<forall>x \<in> fst ` set m. x < k) \<Longrightarrow> map_insert k v m = m @ [(k, v)]"
  by (induction k v m rule: map_insert.induct) auto

end
