(* ===== verification/Epoll_Poller.thy ===== *)
theory Epoll_Poller
  imports Channel Std_Map
begin

text \<open>
  \<open>Poller\<close> and \<open>EpollPoller\<close> (Poller.h, Poller.cc, EpollPoller.h, EpollPoller.cc): the table of
  registered channels and the calls of \<open>epoll_ctl\<close> that mirror it. A \<open>shared_ptr<Channel>\<close> is the
  address of the channel. The contents of \<open>events_\<close> are overwritten by every \<open>epoll_wait\<close>, so its
  size is all the state it carries. The calls made are recorded in order; their results only
  choose a diagnostic.
\<close>

section \<open>State\<close>

datatype ctl_op = EPOLL_CTL_ADD | EPOLL_CTL_MOD | EPOLL_CTL_DEL

record ctl_call =
  ctl_op :: ctl_op
  ctl_fd :: int
  ctl_events :: events
  ctl_ptr :: nat

record poller =
  pl_epollfd :: int
  pl_events_size :: nat
  pl_channels_map :: "(int, nat) std_map"
  pl_ctl_calls :: "ctl_call list"

definition kEventInitSize :: nat where "kEventInitSize = 16"

definition EpollPoller_new :: "int \<Rightarrow> poller" where
  "EpollPoller_new epollfd = \<lparr>pl_epollfd = epollfd, pl_events_size = kEventInitSize,
     pl_channels_map = [], pl_ctl_calls = []\<rparr>"

section \<open>Registration\<close>

definition EpollPoller_Update :: "ctl_op \<Rightarrow> nat \<Rightarrow> 'f channel \<Rightarrow> poller \<Rightarrow> poller" where
  "EpollPoller_Update op a c p = p\<lparr>pl_ctl_calls := pl_ctl_calls p @
     [\<lparr>ctl_op = op, ctl_fd = ch_fd c, ctl_events = ch_watch_events c, ctl_ptr = a\<rparr>]\<rparr>"

text \<open>An occupied descriptor is reported, but the entry is replaced and added all the same.\<close>

definition EpollPoller_AddChannel :: "nat \<Rightarrow> 'f channel \<Rightarrow> poller \<Rightarrow> poller" where
  "EpollPoller_AddChannel a c p =
     EpollPoller_Update EPOLL_CTL_ADD a c
       (p\<lparr>pl_channels_map := map_insert (ch_fd c) a (pl_channels_map p)\<rparr>)"

definition EpollPoller_UpdateChannel :: "nat \<Rightarrow> 'f channel \<Rightarrow> poller \<Rightarrow> poller" where
  "EpollPoller_UpdateChannel a c p = EpollPoller_Update EPOLL_CTL_MOD a c p"

definition EpollPoller_RemoveChannel :: "nat \<Rightarrow> 'f channel \<Rightarrow> poller \<Rightarrow> poller" where
  "EpollPoller_RemoveChannel a c p =
     (let p = EpollPoller_Update EPOLL_CTL_DEL a c p
      in p\<lparr>pl_channels_map := map_erase (ch_fd c) (pl_channels_map p)\<rparr>)"

definition Poller_HasChannel :: "nat \<Rightarrow> 'f channel \<Rightarrow> poller \<Rightarrow> bool" where
  "Poller_HasChannel a c p \<longleftrightarrow> map_find (pl_channels_map p) (ch_fd c) = Some a"

section \<open>Polling\<close>

text \<open>
  \<open>epoll_wait\<close> either fails with an errno or returns the ready list: for each event the pointer
  stored at registration and the event bits. It is documented to return at most \<open>maxevents\<close> of them.
\<close>

type_synonym poll_result = "int + (nat \<times> events) list"

fun EpollPoller_Poll_loop :: "(nat \<Rightarrow> 'w \<Rightarrow> 'f channel option) \<Rightarrow>
    (nat \<Rightarrow> 'f channel \<Rightarrow> 'w \<Rightarrow> 'w) \<Rightarrow> (nat \<times> events) list \<Rightarrow> nat list \<Rightarrow> 'w \<Rightarrow> (nat list \<times> 'w) outcome" where
  "EpollPoller_Poll_loop get put [] active w = Inr (active, w)"
| "EpollPoller_Poll_loop get put ((a, ev) # evs) active w =
     with_channel get a w (\<lambda>c. EpollPoller_Poll_loop get put evs (active @ [a])
       (put a (Channel_set_trigger_events ev c) w))"

definition EpollPoller_Poll :: "(nat \<Rightarrow> 'w \<Rightarrow> 'f channel option) \<Rightarrow>
    (nat \<Rightarrow> 'f channel \<Rightarrow> 'w \<Rightarrow> 'w) \<Rightarrow> poll_result \<Rightarrow> nat list \<Rightarrow> poller \<Rightarrow> 'w \<Rightarrow>
    (nat list \<times> poller \<times> 'w) outcome" where
  "EpollPoller_Poll get put result active p w =
     (case result of
        Inl errno \<Rightarrow> Inr (active, p, w)
      | Inr evs \<Rightarrow>
          if length evs = 0 then Inr (active, p, w)
          else obind (EpollPoller_Poll_loop get put evs active w) (\<lambda>(active, w).
            Inr (active,
                 if length evs = pl_events_size p
                 then p\<lparr>pl_events_size := pl_events_size p * 2\<rparr> else p, w)))"

text \<open>The \<open>maxevents\<close> argument: the size of \<open>events_\<close> as an \<open>int\<close>.\<close>

definition EpollPoller_maxevents :: "poller \<Rightarrow> int" where
  "EpollPoller_maxevents p = to_int32 (pl_events_size p)"

section \<open>The registered set\<close>

text \<open>
  The reference for registration is the interest list \<open>epoll_ctl(2)\<close> documents: adding a descriptor
  that is present fails, changing or removing an absent one fails, and a failing call changes
  nothing.
\<close>

definition ctl_ok :: "(int \<rightharpoonup> nat \<times> events) \<Rightarrow> ctl_call \<Rightarrow> bool" where
  "ctl_ok m c \<longleftrightarrow> (ctl_op c = EPOLL_CTL_ADD) = (ctl_fd c \<notin> dom m)"

definition ctl_apply :: "(int \<rightharpoonup> nat \<times> events) \<Rightarrow> ctl_call \<Rightarrow> (int \<rightharpoonup> nat \<times> events)" where
  "ctl_apply m c = (if \<not> ctl_ok m c then m else
     case ctl_op c of
       EPOLL_CTL_DEL \<Rightarrow> m(ctl_fd c := None)
     | _ \<Rightarrow> m(ctl_fd c \<mapsto> (ctl_ptr c, ctl_events c)))"

definition interest :: "ctl_call list \<Rightarrow> (int \<rightharpoonup> nat \<times> events)" where
  "interest cs = foldl ctl_apply Map.empty cs"

definition all_ctl_ok :: "ctl_call list \<Rightarrow> bool" where
  "all_ctl_ok cs \<longleftrightarrow> (\<forall>i < length cs. ctl_ok (interest (take i cs)) (cs ! i))"

lemma interest_simps [simp]: "interest [] = Map.empty" "interest (cs @ [c]) = ctl_apply (interest cs) c"
  by (simp_all add: interest_def)

lemma all_ctl_ok_simps [simp]: "all_ctl_ok []"
  "all_ctl_ok (cs @ [c]) \<longleftrightarrow> all_ctl_ok cs \<and> ctl_ok (interest cs) c"
  by (auto simp: all_ctl_ok_def nth_append less_Suc_eq)

text \<open>The operations of the poller, and the runs in which its client keeps the contract.\<close>

datatype 'f poller_op = Add nat "'f channel" | Update nat "'f channel" | Remove nat "'f channel"

fun poller_step :: "'f poller_op \<Rightarrow> poller \<Rightarrow> poller" where
  "poller_step (Add a c) p = EpollPoller_AddChannel a c p"
| "poller_step (Update a c) p = EpollPoller_UpdateChannel a c p"
| "poller_step (Remove a c) p = EpollPoller_RemoveChannel a c p"

fun op_ok :: "'f poller_op \<Rightarrow> poller \<Rightarrow> bool" where
  "op_ok (Add a c) p \<longleftrightarrow> map_find (pl_channels_map p) (ch_fd c) = None"
| "op_ok (Update a c) p \<longleftrightarrow> Poller_HasChannel a c p"
| "op_ok (Remove a c) p \<longleftrightarrow> Poller_HasChannel a c p"

fun ops_ok :: "'f poller_op list \<Rightarrow> poller \<Rightarrow> bool" where
  "ops_ok [] p \<longleftrightarrow> True"
| "ops_ok (x # xs) p \<longleftrightarrow> op_ok x p \<and> ops_ok xs (poller_step x p)"

definition poller_run :: "'f poller_op list \<Rightarrow> poller \<Rightarrow> poller" where
  "poller_run = fold poller_step"

definition pl_invar :: "poller \<Rightarrow> bool" where
  "pl_invar p \<longleftrightarrow> map_sorted (pl_channels_map p) \<and> all_ctl_ok (pl_ctl_calls p) \<and>
     map_find (pl_channels_map p) = map_option fst \<circ> interest (pl_ctl_calls p)"

lemmas poller_defs = EpollPoller_AddChannel_def EpollPoller_UpdateChannel_def
  EpollPoller_RemoveChannel_def EpollPoller_Update_def Poller_HasChannel_def Let_def

lemma poller_step_invar:
  assumes "pl_invar p" "op_ok x p"
  shows "pl_invar (poller_step x p)"
proof (cases x)
  case (Add a c)
  then have "ch_fd c \<notin> dom (interest (pl_ctl_calls p))"
    using assms by (auto simp: pl_invar_def)
  with Add assms show ?thesis
    by (auto simp: pl_invar_def poller_defs ctl_ok_def ctl_apply_def smap.insert_law)
next
  case (Update a c)
  then obtain e where "interest (pl_ctl_calls p) (ch_fd c) = Some (a, e)"
    using assms by (auto simp: pl_invar_def poller_defs)
  with Update assms show ?thesis
    by (auto simp: pl_invar_def poller_defs ctl_ok_def ctl_apply_def fun_eq_iff)
next
  case (Remove a c)
  then obtain e where "interest (pl_ctl_calls p) (ch_fd c) = Some (a, e)"
    using assms by (auto simp: pl_invar_def poller_defs)
  with Remove assms show ?thesis
    by (auto simp: pl_invar_def poller_defs ctl_ok_def ctl_apply_def smap.erase_law)
qed

lemma poller_run_invar: "ops_ok xs p \<Longrightarrow> pl_invar p \<Longrightarrow> pl_invar (poller_run xs p)"
  by (induction xs arbitrary: p) (auto simp: poller_run_def poller_step_invar)

lemma poller_new_invar: "pl_invar (EpollPoller_new fd)"
  by (auto simp: pl_invar_def EpollPoller_new_def)

text \<open>C12: as long as the client adds a channel only under a free descriptor and updates or removes
  only a registered one, the channel table and the kernel's interest list agree on every
  descriptor, every recorded \<open>epoll_ctl\<close> call meets its documented precondition, and the table
  stays ordered.\<close>

theorem EpollPoller_mirrors_interest:
  assumes "ops_ok xs (EpollPoller_new fd)"
  defines "p \<equiv> poller_run xs (EpollPoller_new fd)"
  shows "(\<forall>k. map_find (pl_channels_map p) k = map_option fst (interest (pl_ctl_calls p) k)) \<and>
     all_ctl_ok (pl_ctl_calls p) \<and> map_sorted (pl_channels_map p)"
proof -
  have "pl_invar p" unfolding p_def by (rule poller_run_invar [OF assms(1) poller_new_invar])
  then show ?thesis by (simp add: pl_invar_def)
qed

theorem EpollPoller_mirrors_interest_witness:
  "map_find (pl_channels_map (poller_run
     [Add 100 (Channel_new 5 :: nat channel), Add 101 (Channel_new 7),
      Update 101 (Channel_EnableWriting (Channel_new 7)), Remove 100 (Channel_new 5)]
     (EpollPoller_new 3))) 7 =
   map_option fst (interest (pl_ctl_calls (poller_run
     [Add 100 (Channel_new 5 :: nat channel), Add 101 (Channel_new 7),
      Update 101 (Channel_EnableWriting (Channel_new 7)), Remove 100 (Channel_new 5)]
     (EpollPoller_new 3))) 7)"
  by (rule EpollPoller_mirrors_interest [THEN conjunct1, THEN spec])
    (simp add: poller_defs EpollPoller_new_def Channel_new_def mask_defs map_erase_def)

text \<open>Adding a channel under a descriptor that is still registered makes the two disagree: the
  table then holds the new channel, while the kernel keeps handing out the pointer to the old one.
  The code reports the clash and goes on.\<close>

theorem EpollPoller_AddChannel_clash:
  fixes a :: nat and c :: "'f channel"
  assumes "pl_invar p" "map_find (pl_channels_map p) (ch_fd c) = Some b"
  defines "p' \<equiv> EpollPoller_AddChannel a c p"
  shows "Poller_HasChannel a c p'"
    and "\<exists>e. interest (pl_ctl_calls p') (ch_fd c) = Some (b, e)"
    and "\<not> all_ctl_ok (pl_ctl_calls p')"
  using assms
  by (auto simp: pl_invar_def poller_defs ctl_ok_def ctl_apply_def smap.insert_law)

theorem EpollPoller_AddChannel_clash_witness:
  "Poller_HasChannel 101 (Channel_new 5 :: nat channel)
     (EpollPoller_AddChannel 101 (Channel_new 5 :: nat channel)
       (poller_run [Add 100 (Channel_new 5 :: nat channel)] (EpollPoller_new 3)))"
proof (rule EpollPoller_AddChannel_clash(1) [where b = 100])
  show "pl_invar (poller_run [Add 100 (Channel_new 5 :: nat channel)] (EpollPoller_new 3))"
    by (rule poller_run_invar [OF _ poller_new_invar])
      (simp add: EpollPoller_new_def Channel_new_def)
  show "map_find (pl_channels_map (poller_run [Add 100 (Channel_new 5 :: nat channel)] (EpollPoller_new 3)))
      (ch_fd (Channel_new 5 :: nat channel)) = Some 100"
    by (simp add: poller_run_def poller_defs EpollPoller_new_def Channel_new_def)
qed

section \<open>The event vector\<close>

text \<open>A sequence of polls: each result is at most what \<open>maxevents\<close> allows, as documented.\<close>

fun poll_run :: "(nat \<Rightarrow> 'w \<Rightarrow> 'f channel option) \<Rightarrow> (nat \<Rightarrow> 'f channel \<Rightarrow> 'w \<Rightarrow> 'w) \<Rightarrow>
    poll_result list \<Rightarrow> poller \<Rightarrow> 'w \<Rightarrow> (poller \<times> 'w) outcome" where
  "poll_run get put [] p w = Inr (p, w)"
| "poll_run get put (r # rs) p w =
     obind (EpollPoller_Poll get put r [] p w) (\<lambda>(_, p, w). poll_run get put rs p w)"

context channel_heap
begin

text \<open>Polling marks exactly the reported channels and lists them in the order reported.\<close>

lemma Poll_loop_active:
  "(\<And>a. a \<in> fst ` set evs \<Longrightarrow> get a w \<noteq> None) \<Longrightarrow>
   \<exists>w'. EpollPoller_Poll_loop get put evs active w = Inr (active @ map fst evs, w') \<and>
     (\<forall>b. b \<notin> fst ` set evs \<longrightarrow> get b w' = get b w) \<and> (\<forall>b. (get b w' = None) = (get b w = None))"
proof (induction evs arbitrary: active w)
  case (Cons x evs)
  obtain a ev where x: "x = (a, ev)" by (cases x)
  then obtain c where c: "get a w = Some c" using Cons.prems by fastforce
  let ?w = "put a (c\<lparr>ch_trigger_events := ev\<rparr>) w"
  have same: "(get b ?w = None) = (get b w = None)" for b
    using c get_put_same [OF c] get_put_other [of a b] by (cases "a = b") auto
  have "\<And>b. b \<in> fst ` set evs \<Longrightarrow> get b ?w \<noteq> None" using Cons.prems by (auto simp: same)
  from Cons.IH [OF this, where active = "active @ [a]"] obtain w' where
    "EpollPoller_Poll_loop get put evs (active @ [a]) ?w = Inr ((active @ [a]) @ map fst evs, w')"
    "\<forall>b. b \<notin> fst ` set evs \<longrightarrow> get b w' = get b ?w" "\<forall>b. (get b w' = None) = (get b ?w = None)"
    by blast
  with c show ?case
    by (intro exI [of _ w']) (auto simp: x with_channel_def same get_put_other)
qed auto

lemma Poll_stale:
  "get a w = None \<Longrightarrow> EpollPoller_Poll_loop get put ((a, ev) # evs) active w = Inl UseAfterFree"
  by (simp add: with_channel_def)

end

lemma Poll_events_size:
  "EpollPoller_Poll get put r active p w = Inr (active', p', w') \<Longrightarrow>
   pl_events_size p' = (case r of Inr evs \<Rightarrow>
     if evs \<noteq> [] \<and> length evs = pl_events_size p then 2 * pl_events_size p else pl_events_size p
   | Inl _ \<Rightarrow> pl_events_size p)"
  by (auto simp: EpollPoller_Poll_def obind_Inr_iff split: sum.splits if_splits)

lemma poll_run_doubles:
  "poll_run get put rs q v = Inr (p', v') \<Longrightarrow> \<exists>k \<le> length rs. pl_events_size p' = pl_events_size q * 2 ^ k"
proof (induction rs arbitrary: q v)
  case (Cons r rs)
  then obtain a q1 v1 where step: "EpollPoller_Poll get put r [] q v = Inr (a, q1, v1)"
    and rest: "poll_run get put rs q1 v1 = Inr (p', v')"
    by (auto simp: obind_Inr_iff)
  from Cons.IH [OF rest] obtain k where k: "k \<le> length rs" "pl_events_size p' = pl_events_size q1 * 2 ^ k"
    by blast
  have "pl_events_size q1 = pl_events_size q \<or> pl_events_size q1 = 2 * pl_events_size q"
    using Poll_events_size [OF step] by (auto split: sum.splits if_splits)
  then show ?case
  proof
    assume "pl_events_size q1 = pl_events_size q"
    with k show ?case by (intro exI [of _ k]) auto
  next
    assume "pl_events_size q1 = 2 * pl_events_size q"
    with k show ?case by (intro exI [of _ "Suc k"]) auto
  qed
qed auto

text \<open>Over any sequence of polls the event vector stays 16 times a power of two, so it is never
  empty; it doubles exactly after a poll that filled it; and while it stays below \<open>2 ^ 31\<close> the
  \<open>maxevents\<close> argument is its size and so positive, as \<open>epoll_wait\<close> requires.\<close>

theorem EpollPoller_Poll_capacity:
  assumes "poll_run get put rs (EpollPoller_new fd) w = Inr (p, w')"
  shows "(\<exists>k \<le> length rs. pl_events_size p = 16 * 2 ^ k) \<and>
     (pl_events_size p < 2 ^ 31 \<longrightarrow>
        EpollPoller_maxevents p = int (pl_events_size p) \<and> 0 < EpollPoller_maxevents p)"
proof -
  have pow: "\<exists>k \<le> length rs. pl_events_size p = 16 * 2 ^ k"
    using poll_run_doubles [OF assms] by (simp add: EpollPoller_new_def kEventInitSize_def)
  then have "0 < pl_events_size p" by auto
  with pow show ?thesis by (auto simp: EpollPoller_maxevents_def to_int32_id)
qed

text \<open>A heap for the witnesses: addresses to channels.\<close>

definition heap_get :: "nat \<Rightarrow> (nat \<times> 'f channel) list \<Rightarrow> 'f channel option" where
  "heap_get a h = map_of h a"

definition heap_put :: "nat \<Rightarrow> 'f channel \<Rightarrow> (nat \<times> 'f channel) list \<Rightarrow> (nat \<times> 'f channel) list" where
  "heap_put a c h = map_insert a c h"

theorem EpollPoller_Poll_capacity_witness:
  "\<exists>p w'. poll_run heap_get heap_put [Inr [(100, EPOLLIN)], Inl 4, Inr (replicate 16 (100, EPOLLOUT))]
      (EpollPoller_new 3) [(100, Channel_new 5 :: nat channel)] = Inr (p, w') \<and>
     pl_events_size p = 32 \<and> (\<exists>k \<le> 3. pl_events_size p = 16 * 2 ^ k)"
proof -
  let ?rs = "[Inr [(100, EPOLLIN)], Inl 4, Inr (replicate 16 (100, EPOLLOUT))]"
  let ?h = "[(100, Channel_new 5 :: nat channel)]"
  obtain p w' where r: "poll_run heap_get heap_put ?rs (EpollPoller_new 3) ?h = Inr (p, w')"
      and sz: "pl_events_size p = 32"
    by (simp add: EpollPoller_Poll_def EpollPoller_new_def kEventInitSize_def with_channel_def
        heap_get_def heap_put_def numeral_eq_Suc Channel_new_def)
  have "length ?rs = 3" by simp
  with EpollPoller_Poll_capacity [OF r] sz r show ?thesis by metis
qed

end
