(* ===== verification/Text_Format.thy ===== *)
theory Text_Format
  imports Prelude
begin

text \<open>
  The pieces of the C++ library the program formats text with: \<open>std::to_string\<close> of integers,
  \<open>std::setw\<close> with \<open>std::setfill('0')\<close>, and C strings. The lemmas say that decimal text has no
  redundancy: it is injective and consists of digits.
\<close>

section \<open>Decimal numbers\<close>

definition digit :: "nat \<Rightarrow> char" where
  "digit n = char_of (48 + n mod 10)"

fun to_string_nat :: "nat \<Rightarrow> string" where
  "to_string_nat n = (if n < 10 then [digit n] else to_string_nat (n div 10) @ [digit n])"

declare to_string_nat.simps [simp del]

definition to_string_int :: "int \<Rightarrow> string" where
  "to_string_int i = (if i < 0 then CHR ''-'' # to_string_nat (nat (- i)) else to_string_nat (nat i))"

definition digits :: "char set" where
  "digits = set ''0123456789''"

definition digit_value :: "char \<Rightarrow> nat" where
  "digit_value c = of_char c - 48"

text \<open>Reading decimal digits back, as \<open>atoi\<close> does on a string of digits.\<close>

definition read_nat :: "string \<Rightarrow> nat" where
  "read_nat s = foldl (\<lambda>a c. 10 * a + digit_value c) 0 s"

lemma digit_cases: "digit n \<in> digits"
proof -
  have all: "\<forall>k \<in> set [0..<10]. char_of (48 + k :: nat) \<in> set ''0123456789''" by code_simp
  have "n mod 10 \<in> set [0..<10]" by simp
  with all show ?thesis unfolding digit_def digits_def by blast
qed

lemma digit_value_digit: "digit_value (digit n) = n mod 10"
proof -
  have "(of_char (char_of (48 + n mod 10) :: char) :: nat) = (48 + n mod 10) mod 256"
    by (rule of_char_of)
  then show ?thesis by (simp add: digit_value_def digit_def)
qed

lemma read_nat_snoc: "read_nat (s @ [c]) = 10 * read_nat s + digit_value c"
  by (simp add: read_nat_def)

lemma read_to_string [simp]: "read_nat (to_string_nat n) = n"
proof (induction n rule: to_string_nat.induct)
  case (1 n)
  show ?case
  proof (cases "n < 10")
    case True
    then show ?thesis
      by (subst to_string_nat.simps) (simp add: read_nat_def digit_value_digit)
  next
    case False
    with 1 show ?thesis
      by (subst to_string_nat.simps) (simp add: read_nat_snoc digit_value_digit)
  qed
qed

lemma to_string_nat_inject: "to_string_nat m = to_string_nat n \<longleftrightarrow> m = n"
  by (metis read_to_string)

lemma to_string_nat_digits: "set (to_string_nat n) \<subseteq> digits"
proof (induction n rule: to_string_nat.induct)
  case (1 n)
  then show ?case by (subst to_string_nat.simps) (auto simp: digit_cases)
qed

lemma to_string_nat_nonempty [simp]: "to_string_nat n \<noteq> []"
  by (subst to_string_nat.simps) simp

lemma length_to_string_nat: "n < 10 ^ k \<Longrightarrow> 0 < k \<Longrightarrow> length (to_string_nat n) \<le> k"
proof (induction n arbitrary: k rule: to_string_nat.induct)
  case (1 n)
  show ?case
  proof (cases "n < 10")
    case True
    with 1 show ?thesis by (subst to_string_nat.simps) simp
  next
    case False
    then obtain j where k: "k = Suc j" "0 < j" using 1(2,3) by (cases k; cases "k - 1") auto
    then have "n div 10 < 10 ^ j" using 1(2) by (simp add: less_mult_imp_div_less mult.commute)
    with 1(1) [OF False] k have "length (to_string_nat (n div 10)) \<le> j" by blast
    with False k show ?thesis by (subst to_string_nat.simps) simp
  qed
qed

lemma minus_not_digit: "CHR ''-'' \<notin> digits"
  by (simp add: digits_def)

lemma to_string_int_inject: "to_string_int i = to_string_int j \<longleftrightarrow> i = j"
proof
  assume eq: "to_string_int i = to_string_int j"
  have neq: "CHR ''-'' # s \<noteq> to_string_nat n" for s n
  proof
    assume "CHR ''-'' # s = to_string_nat n"
    then have "CHR ''-'' \<in> set (to_string_nat n)" by (metis list.set_intros(1))
    with to_string_nat_digits [of n] minus_not_digit show False by blast
  qed
  show "i = j"
    using eq neq neq [symmetric]
    by (auto simp: to_string_int_def to_string_nat_inject split: if_splits)
qed auto

text \<open>White space as \<open>isspace\<close> has it in the C locale.\<close>

definition is_space :: "char \<Rightarrow> bool" where
  "is_space c \<longleftrightarrow> c = CHR '' '' \<or> c = CHR 0x09 \<or> c = LF \<or> c = CHR 0x0B \<or> c = CHR 0x0C \<or> c = CR"

section \<open>Padding and C strings\<close>

text \<open>\<open>std::setw(w)\<close> with fill character zero pads on the left and never truncates.\<close>

definition setw0 :: "nat \<Rightarrow> string \<Rightarrow> string" where
  "setw0 w s = replicate (w - length s) (CHR ''0'') @ s"

lemma length_setw0: "length s \<le> w \<Longrightarrow> length (setw0 w s) = w"
  by (simp add: setw0_def)

text \<open>A \<open>const char *\<close> points into memory: the string is what precedes the first zero byte.\<close>

definition c_string :: "string \<Rightarrow> string" where
  "c_string m = takeWhile (\<lambda>c. c \<noteq> NUL) m"

definition strlen :: "string \<Rightarrow> nat outcome" where
  "strlen m = (if NUL \<in> set m then Inr (length (c_string m)) else Inl BadAccess)"

lemma c_string_append_NUL: "NUL \<notin> set s \<Longrightarrow> c_string (s @ NUL # r) = s"
  by (induction s) (auto simp: c_string_def)

lemma strlen_c: "NUL \<notin> set s \<Longrightarrow> strlen (s @ NUL # r) = Inr (length s)"
  by (simp add: strlen_def c_string_append_NUL)

end
