(* ===== verification/Timer_Queue.thy ===== *)
theory Timer_Queue
  imports Text_Format "HOL-Library.Multiset" "HOL-Library.Signed_Division"
begin

text \<open>
  \<open>Timestamp\<close>, \<open>Timer\<close> and \<open>TimerSchedule\<close> (Timestamp.h/.cc, Timer.h/.cc, TimerSchedule.h/.cc).
  A time point is a number of nanoseconds since the epoch. The priority queue is specified by the
  interface \<open>min_queue\<close>, which leaves the order of equal expirations open, and modelled by a list
  ordered by expiration. A closure is a value of type \<open>'f\<close>; \<open>run\<close> invokes it and may change the
  queue.
\<close>

section \<open>Timestamps\<close>

datatype timestamp = Timestamp (time_point: int)

text \<open>The comparison operators.\<close>

definition Timestamp_less :: "timestamp \<Rightarrow> timestamp \<Rightarrow> bool" where
  "Timestamp_less a b \<longleftrightarrow> time_point a < time_point b"

definition Timestamp_less_eq :: "timestamp \<Rightarrow> timestamp \<Rightarrow> bool" where
  "Timestamp_less_eq a b \<longleftrightarrow> time_point a \<le> time_point b"

definition Timestamp_greater :: "timestamp \<Rightarrow> timestamp \<Rightarrow> bool" where
  "Timestamp_greater a b \<longleftrightarrow> time_point a > time_point b"

definition Timestamp_greater_eq :: "timestamp \<Rightarrow> timestamp \<Rightarrow> bool" where
  "Timestamp_greater_eq a b \<longleftrightarrow> time_point a \<ge> time_point b"

definition Timestamp_eq :: "timestamp \<Rightarrow> timestamp \<Rightarrow> bool" where
  "Timestamp_eq a b \<longleftrightarrow> time_point a = time_point b"

definition Timestamp_not_eq :: "timestamp \<Rightarrow> timestamp \<Rightarrow> bool" where
  "Timestamp_not_eq a b \<longleftrightarrow> time_point a \<noteq> time_point b"

text \<open>They make the time stamps a linear order.\<close>

instantiation timestamp :: linorder
begin

definition less_eq_timestamp :: "timestamp \<Rightarrow> timestamp \<Rightarrow> bool" where
  "less_eq_timestamp = Timestamp_less_eq"

definition less_timestamp :: "timestamp \<Rightarrow> timestamp \<Rightarrow> bool" where
  "less_timestamp = Timestamp_less"

instance
  by standard (auto simp: less_eq_timestamp_def less_timestamp_def Timestamp_less_eq_def Timestamp_less_def
      timestamp.expand)

end

lemmas timestamp_order = less_eq_timestamp_def less_timestamp_def Timestamp_less_eq_def Timestamp_less_def

lemma Timestamp_operators:
  "Timestamp_greater a b \<longleftrightarrow> b < a" "Timestamp_greater_eq a b \<longleftrightarrow> b \<le> a"
  "Timestamp_eq a b \<longleftrightarrow> a = b" "Timestamp_not_eq a b \<longleftrightarrow> a \<noteq> b"
  by (auto simp: Timestamp_greater_def Timestamp_greater_eq_def Timestamp_eq_def Timestamp_not_eq_def
      timestamp_order timestamp.expand)

text \<open>\<open>now\<close> is what the clock reads. The second constructor adds a number of microseconds.\<close>

definition int64_ok :: "int \<Rightarrow> bool" where
  "int64_ok i \<longleftrightarrow> - (2 ^ 63) \<le> i \<and> i < 2 ^ 63"

definition Timestamp_now :: "int \<Rightarrow> timestamp" where
  "Timestamp_now now = Timestamp now"

definition Timestamp_in :: "int \<Rightarrow> int \<Rightarrow> timestamp outcome" where
  "Timestamp_in now duration =
     check (int64_ok (duration * 1000)) SignedOverflow
       (check (int64_ok (now + duration * 1000)) SignedOverflow
         (Inr (Timestamp (now + duration * 1000))))"

text \<open>\<open>duration_cast\<close> truncates towards zero.\<close>

definition Timestamp_seconds :: "timestamp \<Rightarrow> int" where
  "Timestamp_seconds t = time_point t sdiv 1000000000"

definition Timestamp_milliseconds :: "timestamp \<Rightarrow> int" where
  "Timestamp_milliseconds t = time_point t sdiv 1000000"

definition Timestamp_microseconds :: "timestamp \<Rightarrow> int" where
  "Timestamp_microseconds t = time_point t sdiv 1000"

text \<open>
  \<open>put_time\<close> renders the calendar part of the local time; it is a parameter, a function of the
  seconds since the epoch. \<open>setfill\<close> pads on the left, also in front of a minus sign.
\<close>

definition Timestamp_to_string :: "(int \<Rightarrow> string) \<Rightarrow> timestamp \<Rightarrow> string" where
  "Timestamp_to_string put_time t =
     put_time (Timestamp_seconds t) @ ''.'' @
     setw0 6 (to_string_int (Timestamp_microseconds t smod 1000000))"

section \<open>Timers\<close>

record 'f timer =
  tm_expiration :: timestamp
  tm_duration :: int
  tm_repeat_num :: int
  tm_callback :: "'f option"

definition Timer_new4 :: "'f option \<Rightarrow> timestamp \<Rightarrow> int \<Rightarrow> int \<Rightarrow> 'f timer" where
  "Timer_new4 callback expiration duration repeat_num =
     \<lparr>tm_expiration = expiration, tm_duration = duration, tm_repeat_num = repeat_num,
      tm_callback = callback\<rparr>"

definition Timer_new :: "'f option \<Rightarrow> timestamp \<Rightarrow> 'f timer" where
  "Timer_new callback expiration = Timer_new4 callback expiration 0 0"

definition Timer_HandleEvent :: "('f \<Rightarrow> 'w \<Rightarrow> 'w outcome) \<Rightarrow> 'f timer \<Rightarrow> 'w \<Rightarrow> 'w outcome" where
  "Timer_HandleEvent run t w = (case tm_callback t of None \<Rightarrow> Inr w | Some f \<Rightarrow> run f w)"

section \<open>The priority queue\<close>

locale min_queue =
  fixes key :: "'a \<Rightarrow> 'k::linorder"
    and is_empty :: "'q \<Rightarrow> bool" and push :: "'a \<Rightarrow> 'q \<Rightarrow> 'q"
    and top_of :: "'q \<Rightarrow> 'a" and pop :: "'q \<Rightarrow> 'q"
    and elems :: "'q \<Rightarrow> 'a multiset" and invar :: "'q \<Rightarrow> bool"
  assumes empty_law: "is_empty q \<longleftrightarrow> elems q = {#}"
    and push_law: "invar q \<Longrightarrow> invar (push x q)" "elems (push x q) = add_mset x (elems q)"
    and top_law: "invar q \<Longrightarrow> elems q \<noteq> {#} \<Longrightarrow> top_of q \<in># elems q"
      "invar q \<Longrightarrow> x \<in># elems q \<Longrightarrow> key (top_of q) \<le> key x"
    and pop_law: "invar q \<Longrightarrow> elems q \<noteq> {#} \<Longrightarrow> invar (pop q)"
      "invar q \<Longrightarrow> elems q \<noteq> {#} \<Longrightarrow> elems (pop q) = elems q - {#top_of q#}"

text \<open>Popping everything below a limit; the bound on the steps is the size of the queue.\<close>

fun drain :: "('a \<Rightarrow> 'k::linorder) \<Rightarrow> ('q \<Rightarrow> bool) \<Rightarrow> ('q \<Rightarrow> 'a) \<Rightarrow> ('q \<Rightarrow> 'q) \<Rightarrow> 'k \<Rightarrow> nat \<Rightarrow> 'q \<Rightarrow> 'a list \<times> 'q" where
  "drain key is_empty top_of pop now 0 q = ([], q)"
| "drain key is_empty top_of pop now (Suc n) q =
     (if \<not> is_empty q \<and> key (top_of q) < now
      then let (xs, q') = drain key is_empty top_of pop now n (pop q) in (top_of q # xs, q')
      else ([], q))"

context min_queue
begin

text \<open>Draining yields exactly the elements below the limit, in order, and keeps the others.\<close>

lemma drain_correct:
  assumes "invar q" "size (elems q) \<le> n" "drain key is_empty top_of pop now n q = (xs, q')"
  shows "mset xs = filter_mset (\<lambda>x. key x < now) (elems q)"
    and "sorted (map key xs)"
    and "elems q' = filter_mset (\<lambda>x. \<not> key x < now) (elems q)"
    and "invar q'"
proof -
  have "mset xs = filter_mset (\<lambda>x. key x < now) (elems q) \<and> sorted (map key xs) \<and>
     elems q' = filter_mset (\<lambda>x. \<not> key x < now) (elems q) \<and> invar q'"
    using assms
  proof (induction n arbitrary: q xs)
    case (Suc n)
    show ?case
    proof (cases "\<not> is_empty q \<and> key (top_of q) < now")
      case True
      then have ne: "elems q \<noteq> {#}" by (simp add: empty_law)
      let ?r = "drain key is_empty top_of pop now n (pop q)"
      obtain ys where r: "?r = (ys, q')" "xs = top_of q # ys"
        using Suc.prems(3) True by (auto split: prod.splits)
      have in_q: "top_of q \<in># elems q" using top_law(1) Suc.prems(1) ne by blast
      then have e: "elems q = add_mset (top_of q) (elems (pop q))"
        using pop_law(2) [OF Suc.prems(1) ne] by simp
      then have "size (elems (pop q)) \<le> n" using Suc.prems(2) by simp
      from Suc.IH [OF pop_law(1) [OF Suc.prems(1) ne] this r(1)]
      have ih: "mset ys = filter_mset (\<lambda>x. key x < now) (elems (pop q))" "sorted (map key ys)"
        "elems q' = filter_mset (\<lambda>x. \<not> key x < now) (elems (pop q))" "invar q'" by auto
      have "key (top_of q) \<le> key y" if "y \<in> set ys" for y
      proof -
        from that have "y \<in># mset ys" by simp
        then have "y \<in># elems q" using ih(1) e by auto
        then show ?thesis using top_law(2) Suc.prems(1) by blast
      qed
      with ih True r e show ?thesis by auto
    next
      case False
      have "\<not> key x < now" if "x \<in># elems q" for x
      proof -
        from that False have "\<not> key (top_of q) < now" by (auto simp: empty_law)
        with top_law(2) [OF Suc.prems(1) that] show ?thesis by simp
      qed
      then have "filter_mset (\<lambda>x. key x < now) (elems q) = {#}"
        "filter_mset (\<lambda>x. \<not> key x < now) (elems q) = elems q"
        using filter_mset_cong [of "elems q" _ "\<lambda>x. key x < now" "\<lambda>_. False"]
          filter_mset_cong [of "elems q" _ "\<lambda>x. \<not> key x < now" "\<lambda>_. True"] by auto
      with False Suc.prems show ?thesis by auto
    qed
  qed auto
  then show "mset xs = filter_mset (\<lambda>x. key x < now) (elems q)" "sorted (map key xs)"
    "elems q' = filter_mset (\<lambda>x. \<not> key x < now) (elems q)" "invar q'" by auto
qed

end

section \<open>The schedule\<close>

type_synonym 'f timer_queue = "'f timer list"

fun TimerSchedule_AddTimer :: "'f timer \<Rightarrow> 'f timer_queue \<Rightarrow> 'f timer_queue" where
  "TimerSchedule_AddTimer t [] = [t]"
| "TimerSchedule_AddTimer t (u # q) =
     (if tm_expiration t < tm_expiration u then t # u # q else u # TimerSchedule_AddTimer t q)"

definition TimerSchedule_new :: "'f timer_queue" where
  "TimerSchedule_new = []"

text \<open>The bodies of these two functions are empty.\<close>

definition TimerSchedule_DelTimer :: "'f timer \<Rightarrow> 'f timer_queue \<Rightarrow> 'f timer_queue" where
  "TimerSchedule_DelTimer t q = q"

definition TimerSchedule_Acquire :: "'f timer_queue \<Rightarrow> 'f timer_queue" where
  "TimerSchedule_Acquire q = q"

text \<open>
  The loop may run for ever, so it is a partial function. The callback works on the queue that
  still holds the timer; popping an empty queue is undefined.
\<close>

partial_function (option) HandleTimerQueue_loop ::
  "('f \<Rightarrow> 'f timer_queue \<times> 's \<Rightarrow> ('f timer_queue \<times> 's) outcome) \<Rightarrow> timestamp \<Rightarrow>
   'f timer_queue \<Rightarrow> 's \<Rightarrow> ('f timer_queue \<times> 's) outcome option" where
  [code]: "HandleTimerQueue_loop run now q s =
     (if q \<noteq> [] \<and> tm_expiration (hd q) < now
      then case Timer_HandleEvent run (hd q) (q, s) of
             Inl e \<Rightarrow> Some (Inl e)
           | Inr r \<Rightarrow> (if fst r = [] then Some (Inl BadAccess)
                       else HandleTimerQueue_loop run now (tl (fst r)) (snd r))
      else Some (Inr (q, s)))"

definition TimerSchedule_HandleTimerQueue ::
  "('f \<Rightarrow> 'f timer_queue \<times> 's \<Rightarrow> ('f timer_queue \<times> 's) outcome) \<Rightarrow> int \<Rightarrow>
   'f timer_queue \<Rightarrow> 's \<Rightarrow> ('f timer_queue \<times> 's) outcome option" where
  "TimerSchedule_HandleTimerQueue run clock q s = HandleTimerQueue_loop run (Timestamp_now clock) q s"

abbreviation tq_sorted :: "'f timer_queue \<Rightarrow> bool" where
  "tq_sorted q \<equiv> sorted (map tm_expiration q)"

lemma AddTimer_mset [simp]: "mset (TimerSchedule_AddTimer t q) = add_mset t (mset q)"
  by (induction t q rule: TimerSchedule_AddTimer.induct) auto

lemma AddTimer_sorted: "tq_sorted q \<Longrightarrow> tq_sorted (TimerSchedule_AddTimer t q)"
proof (induction t q rule: TimerSchedule_AddTimer.induct)
  case (2 t u q)
  have "set (TimerSchedule_AddTimer t q) = insert t (set q)" by (metis AddTimer_mset set_mset_add_mset_insert set_mset_mset)
  with 2 show ?case by auto
qed auto

interpretation tq: min_queue tm_expiration "\<lambda>q. q = []" TimerSchedule_AddTimer hd tl mset tq_sorted
proof unfold_locales
  fix q :: "'f timer_queue" and x
  show "tm_expiration (hd q) \<le> tm_expiration x" if "tq_sorted q" "x \<in># mset q"
    using that by (cases q) auto
  show "mset (tl q) = mset q - {#hd q#}" if "tq_sorted q" "mset q \<noteq> {#}"
    using that by (cases q) auto
  show "tq_sorted (tl q)" if "tq_sorted q" using that by (cases q) auto
qed (auto simp: AddTimer_sorted)

lemma drain_takeWhile:
  "length q \<le> n \<Longrightarrow> drain tm_expiration (\<lambda>q. q = []) hd tl now n q =
     (takeWhile (\<lambda>t. tm_expiration t < now) q, dropWhile (\<lambda>t. tm_expiration t < now) q)"
proof (induction n arbitrary: q)
  case (Suc n)
  then show ?case by (cases q) auto
qed auto

lemma takeWhile_AddTimer:
  "now \<le> tm_expiration t \<Longrightarrow> takeWhile (\<lambda>t. tm_expiration t < now) (TimerSchedule_AddTimer t q) =
     takeWhile (\<lambda>t. tm_expiration t < now) q"
  by (induction t q rule: TimerSchedule_AddTimer.induct) auto

lemma AddTimers:
  assumes "\<forall>t \<in> set ts. now \<le> tm_expiration t"
  shows "takeWhile (\<lambda>t. tm_expiration t < now) (fold TimerSchedule_AddTimer ts q) =
      takeWhile (\<lambda>t. tm_expiration t < now) q"
    and "mset (fold TimerSchedule_AddTimer ts q) = mset q + mset ts"
    and "tm_expiration u < now \<Longrightarrow> fold TimerSchedule_AddTimer ts (u # q) = u # fold TimerSchedule_AddTimer ts q"
  using assms by (induction ts arbitrary: q) (auto simp: takeWhile_AddTimer)

text \<open>What callbacks that only add timers add in the course of a run.\<close>

fun added_in_run :: "('f \<Rightarrow> 's \<Rightarrow> 'f timer list) \<Rightarrow> ('f \<Rightarrow> 's \<Rightarrow> 's) \<Rightarrow> 'f list \<Rightarrow> 's \<Rightarrow> 'f timer list" where
  "added_in_run adds step [] s = []"
| "added_in_run adds step (f # fs) s = adds f s @ added_in_run adds step fs (step f s)"

abbreviation callbacks :: "'f timer list \<Rightarrow> 'f list" where
  "callbacks ts \<equiv> List.map_filter tm_callback ts"

lemma HandleTimerQueue_loop_run:
  assumes run: "\<And>f q s. run f (q, s) = Inr (fold TimerSchedule_AddTimer (adds f s) q, step f s)"
    and later: "\<And>f s t. t \<in> set (adds f s) \<Longrightarrow> now \<le> tm_expiration t"
  shows "\<exists>q'. HandleTimerQueue_loop run now q s = Some (Inr (q', fold step (callbacks (takeWhile (\<lambda>t. tm_expiration t < now) q)) s)) \<and>
     mset q' = mset (dropWhile (\<lambda>t. tm_expiration t < now) q) +
       mset (added_in_run adds step (callbacks (takeWhile (\<lambda>t. tm_expiration t < now) q)) s)"
proof (induction "length (takeWhile (\<lambda>t. tm_expiration t < now) q)" arbitrary: q s)
  case 0
  then have "\<not> (q \<noteq> [] \<and> tm_expiration (hd q) < now)" by (cases q) auto
  moreover then have "dropWhile (\<lambda>t. tm_expiration t < now) q = q" by (cases q) auto
  ultimately show ?case
    using 0 by (subst HandleTimerQueue_loop.simps) (auto simp:)
next
  case (Suc n)
  then obtain t r where q: "q = t # r" "tm_expiration t < now" by (cases q) (auto split: if_splits)
  show ?case
  proof (cases "tm_callback t")
    case None
    from Suc.hyps(1) [of r s] Suc.hyps(2) q None show ?thesis
      by (subst HandleTimerQueue_loop.simps) (auto simp: Timer_HandleEvent_def)
  next
    case (Some f)
    let ?ts = "adds f s"
    have ts: "\<forall>t \<in> set ?ts. now \<le> tm_expiration t" using later by blast
    let ?r = "fold TimerSchedule_AddTimer ?ts r"
    have tw: "takeWhile (\<lambda>t. tm_expiration t < now) ?r = takeWhile (\<lambda>t. tm_expiration t < now) r"
      by (rule AddTimers(1) [OF ts])
    have "mset (takeWhile (\<lambda>t. tm_expiration t < now) ?r) + mset (dropWhile (\<lambda>t. tm_expiration t < now) ?r) =
        mset (takeWhile (\<lambda>t. tm_expiration t < now) r) + mset (dropWhile (\<lambda>t. tm_expiration t < now) r) + mset ?ts"
      by (simp only: mset_append [symmetric] takeWhile_dropWhile_id)
        (simp add: AddTimers(2) [OF ts])
    then have dw: "mset (dropWhile (\<lambda>t. tm_expiration t < now) ?r) =
        mset (dropWhile (\<lambda>t. tm_expiration t < now) r) + mset ?ts"
      by (simp add: tw)
    have "n = length (takeWhile (\<lambda>t. tm_expiration t < now) ?r)" using Suc.hyps(2) q tw by simp
    from Suc.hyps(1) [OF this, of "step f s"] obtain q' where q':
      "HandleTimerQueue_loop run now ?r (step f s) = Some (Inr (q', fold step
         (callbacks (takeWhile (\<lambda>t. tm_expiration t < now) r)) (step f s)))"
      "mset q' = mset (dropWhile (\<lambda>t. tm_expiration t < now) r) + mset ?ts +
         mset (added_in_run adds step (callbacks (takeWhile (\<lambda>t. tm_expiration t < now) r)) (step f s))"
      by (auto simp: tw dw)
    have "fold TimerSchedule_AddTimer ?ts q = t # ?r" using AddTimers(3) [OF ts q(2)] q(1) by simp
    with q' q Some show ?thesis
      by (subst HandleTimerQueue_loop.simps) (auto simp: Timer_HandleEvent_def run)
  qed
qed

text \<open>C15: while callbacks only add timers that are not due before the clock value read at the start,
  \<open>HandleTimerQueue\<close> returns; it fires exactly the timers that expired before that value, each once,
  in the order of their expiration, and what stays queued is the unexpired timers and those added.\<close>

theorem HandleTimerQueue_fires_expired:
  assumes run: "\<And>f q s. run f (q, s) = Inr (fold TimerSchedule_AddTimer (adds f s) q, step f s)"
    and later: "\<And>f s t. t \<in> set (adds f s) \<Longrightarrow> Timestamp_now clock \<le> tm_expiration t"
    and sorted: "tq_sorted q"
  shows "\<exists>q' fired. TimerSchedule_HandleTimerQueue run clock q s = Some (Inr (q', fold step (callbacks fired) s)) \<and>
     mset fired = filter_mset (\<lambda>t. tm_expiration t < Timestamp_now clock) (mset q) \<and> tq_sorted fired \<and>
     mset q' = filter_mset (\<lambda>t. \<not> tm_expiration t < Timestamp_now clock) (mset q) +
       mset (added_in_run adds step (callbacks fired) s)"
proof -
  let ?P = "\<lambda>t. tm_expiration t < Timestamp_now clock"
  note d = tq.drain_correct [of q "length q" "Timestamp_now clock" "takeWhile ?P q" "dropWhile ?P q",
      OF sorted _ drain_takeWhile, simplified]
  have "\<exists>q'. HandleTimerQueue_loop run (Timestamp_now clock) q s =
      Some (Inr (q', fold step (callbacks (takeWhile ?P q)) s)) \<and>
    mset q' = mset (dropWhile ?P q) + mset (added_in_run adds step (callbacks (takeWhile ?P q)) s)"
    by (rule HandleTimerQueue_loop_run, rule run, rule later)
  then obtain q' where "TimerSchedule_HandleTimerQueue run clock q s =
      Some (Inr (q', fold step (callbacks (takeWhile ?P q)) s))"
    "mset q' = mset (dropWhile ?P q) + mset (added_in_run adds step (callbacks (takeWhile ?P q)) s)"
    unfolding TimerSchedule_HandleTimerQueue_def by blast
  with d(1-3) show ?thesis by (intro exI [of _ q'] exI [of _ "takeWhile ?P q"]) simp
qed

theorem HandleTimerQueue_fires_expired_witness:
  "\<exists>q' fired. TimerSchedule_HandleTimerQueue
     (\<lambda>f (q, s). Inr (fold TimerSchedule_AddTimer (if f = 1 then [Timer_new (Some 9) (Timestamp 70)] else []) q, s @ [f])) 50
     [Timer_new (Some 1) (Timestamp 10), Timer_new (Some (2::nat)) (Timestamp 30), Timer_new (Some 3) (Timestamp 60)] [] =
       Some (Inr (q', fold (\<lambda>f s. s @ [f]) (callbacks fired) [])) \<and>
     mset fired = {#Timer_new (Some 1) (Timestamp 10), Timer_new (Some 2) (Timestamp 30)#}"
proof -
  let ?adds = "\<lambda>f s. if f = 1 then [Timer_new (Some 9) (Timestamp 70)] else []"
  let ?run = "\<lambda>f (q, s). Inr (fold TimerSchedule_AddTimer (?adds f s) q, s @ [f])"
  let ?q = "[Timer_new (Some 1) (Timestamp 10), Timer_new (Some (2::nat)) (Timestamp 30), Timer_new (Some 3) (Timestamp 60)]"
  have "\<exists>q' fired. TimerSchedule_HandleTimerQueue ?run 50 ?q [] = Some (Inr (q', fold (\<lambda>f s. s @ [f]) (callbacks fired) [])) \<and>
     mset fired = filter_mset (\<lambda>t. tm_expiration t < Timestamp_now 50) (mset ?q) \<and> tq_sorted fired \<and>
     mset q' = filter_mset (\<lambda>t. \<not> tm_expiration t < Timestamp_now 50) (mset ?q) +
       mset (added_in_run ?adds (\<lambda>f s. s @ [f]) (callbacks fired) [])"
    by (rule HandleTimerQueue_fires_expired)
      (auto simp: Timer_new_def Timer_new4_def Timestamp_now_def timestamp_order split: if_splits)
  moreover have "filter_mset (\<lambda>t. tm_expiration t < Timestamp_now 50) (mset ?q) =
      {#Timer_new (Some 1) (Timestamp 10), Timer_new (Some 2) (Timestamp 30)#}"
    by (simp add: Timer_new_def Timer_new4_def Timestamp_now_def timestamp_order)
  ultimately show ?thesis by auto
qed

text \<open>A callback that adds a timer due earlier than its own makes \<open>pop\<close> remove the new timer
  instead of the fired one: the new timer is lost without being fired, the old one stays at the
  front, still expired, and is fired again.\<close>

theorem HandleTimerQueue_pops_the_wrong_timer:
  assumes "tm_callback t = Some f" "tm_expiration t < Timestamp_now clock"
    and earlier: "tm_expiration u < tm_expiration t"
    and run: "run f (t # q, s) = Inr (TimerSchedule_AddTimer u (t # q), s')"
  shows "TimerSchedule_HandleTimerQueue run clock (t # q) s = TimerSchedule_HandleTimerQueue run clock (t # q) s'"
  unfolding TimerSchedule_HandleTimerQueue_def
  using assms by (subst HandleTimerQueue_loop.simps) (simp add: Timer_HandleEvent_def)

theorem HandleTimerQueue_pops_the_wrong_timer_witness:
  "let run = (\<lambda>f (q, log). Inr (if log = [] then TimerSchedule_AddTimer (Timer_new (Some 7) (Timestamp 5)) q else q, log @ [f]));
       q = [Timer_new (Some (1::nat)) (Timestamp 10)]
   in TimerSchedule_HandleTimerQueue run 50 q [] = TimerSchedule_HandleTimerQueue run 50 q [1] \<and>
      TimerSchedule_HandleTimerQueue run 50 q [] = Some (Inr ([], [1, 1]))"
proof -
  let ?run = "\<lambda>f (q, log). Inr (if log = [] then TimerSchedule_AddTimer (Timer_new (Some 7) (Timestamp 5)) q else q, log @ [f])"
  let ?q = "[Timer_new (Some (1::nat)) (Timestamp 10)]"
  have *: "TimerSchedule_HandleTimerQueue ?run 50 ?q [] = TimerSchedule_HandleTimerQueue ?run 50 ?q [1]"
    by (rule HandleTimerQueue_pops_the_wrong_timer [where u = "Timer_new (Some 7) (Timestamp 5)"])
      (simp_all add: Timer_new_def Timer_new4_def Timestamp_now_def timestamp_order)
  have "TimerSchedule_HandleTimerQueue ?run 50 ?q [1] = Some (Inr ([], [1, 1]))"
    unfolding TimerSchedule_HandleTimerQueue_def
    by (subst HandleTimerQueue_loop.simps, subst HandleTimerQueue_loop.simps)
      (simp add: Timer_HandleEvent_def Timer_new_def Timer_new4_def Timestamp_now_def timestamp_order)
  with * show ?thesis by (simp add: Let_def)
qed

text \<open>For a time point not before the epoch the text form is the calendar part of its second, a
  dot, and exactly six digits that read back as the microseconds within the second.\<close>

theorem Timestamp_to_string_format:
  assumes "0 \<le> ns"
  shows "\<exists>d. Timestamp_to_string put_time (Timestamp ns) = put_time (ns div 10 ^ 9) @ ''.'' @ d \<and>
     length d = 6 \<and> set d \<subseteq> digits \<and> int (read_nat d) = ns div 1000 mod 10 ^ 6"
proof -
  define m where "m = nat (ns div 1000 mod 1000000)"
  let ?d = "setw0 6 (to_string_nat m)"
  have m: "m < 10 ^ 6" by (simp add: m_def nat_less_iff)
  have "0 \<le> ns div 1000 mod 1000000" by simp
  then have us: "to_string_int (ns sdiv 1000 smod 1000000) = to_string_nat m"
    using assms by (simp add: signed_divide_int_def signed_modulo_int_def sgn_if to_string_int_def m_def
        div_int_pos_iff not_less)
  have sec: "ns sdiv 1000000000 = ns div 10 ^ 9"
    using assms by (simp add: signed_divide_int_def sgn_if)
  have read0: "read_nat (replicate k (CHR ''0'') @ s) = read_nat s" for k s
    by (induction k) (auto simp: read_nat_def digit_value_def)
  have "length ?d = 6" using length_setw0 [OF length_to_string_nat [OF m]] by simp
  moreover have "set ?d \<subseteq> digits"
    using to_string_nat_digits [of m] by (auto simp: setw0_def digits_def)
  moreover have "int (read_nat ?d) = ns div 1000 mod 10 ^ 6"
    by (simp add: setw0_def read0 m_def)
  ultimately show ?thesis
    using us sec by (auto simp: Timestamp_to_string_def Timestamp_seconds_def Timestamp_microseconds_def)
qed

theorem Timestamp_to_string_format_witness:
  "\<exists>d. Timestamp_to_string (\<lambda>_. ''2023-10-24 12:00:00'') (Timestamp 1698148800000042999) =
     ''2023-10-24 12:00:00'' @ ''.'' @ d \<and> length d = 6 \<and> set d \<subseteq> digits \<and> read_nat d = 42"
  using Timestamp_to_string_format [of 1698148800000042999 "\<lambda>_. ''2023-10-24 12:00:00''"] by simp

end
