(* ===== verification/Event_Loop.thy ===== *)
theory Event_Loop
  imports Epoll_Poller Timer_Queue
begin

text \<open>
  \<open>EventLoop\<close> (EventLoop.h, EventLoop.cc). The record is the loop object together with what its
  pointers reach: the poller, the timer queue and the heap of channels. Components that own a loop
  extend the record, and every operation here works on any extension. A closure is a value of type
  \<open>'f\<close>, which \<open>run\<close> invokes. The eventfd is its counter, which \<open>write\<close> adds to and \<open>read\<close> clears.
\<close>

section \<open>State\<close>

record 'f event_loop =
  el_loop_flag :: bool
  el_event_handling_flag :: bool
  el_calling_pend_functors_flag :: bool
  el_quit_flag :: bool
  el_thread_id :: nat
  el_poller :: poller
  el_wakeup_fd :: int
  el_wakeup_channel :: "nat option"
  el_timer_fd :: int
  el_timer_channel :: "nat option"
  el_timer_queue :: "'f timer_queue option"
  el_active_channel_list :: "nat list"
  el_pending_functors :: "'f list"
  el_wakeup_count :: nat
  el_timer_settings :: "(int \<times> int) list"
  el_channels :: "nat \<Rightarrow> 'f channel option"

text \<open>
  The constructor does not initialise \<open>calling_pend_functors_flag_\<close>: its value is the parameter
  \<open>junk\<close>. The descriptors are what the system calls returned.
\<close>

definition EventLoop_new :: "nat \<Rightarrow> int \<Rightarrow> int \<Rightarrow> int \<Rightarrow> bool \<Rightarrow> 'f event_loop" where
  "EventLoop_new tid epollfd wakeup_fd timer_fd junk =
     \<lparr>el_loop_flag = False, el_event_handling_flag = False, el_calling_pend_functors_flag = junk,
      el_quit_flag = False, el_thread_id = tid, el_poller = EpollPoller_new epollfd,
      el_wakeup_fd = wakeup_fd, el_wakeup_channel = None, el_timer_fd = timer_fd,
      el_timer_channel = None, el_timer_queue = None, el_active_channel_list = [],
      el_pending_functors = [], el_wakeup_count = 0, el_timer_settings = [],
      el_channels = Map.empty\<rparr>"

definition get_channel :: "nat \<Rightarrow> ('f, 'z) event_loop_scheme \<Rightarrow> 'f channel option" where
  "get_channel a w = el_channels w a"

definition put_channel :: "nat \<Rightarrow> 'f channel \<Rightarrow> ('f, 'z) event_loop_scheme \<Rightarrow> ('f, 'z) event_loop_scheme" where
  "put_channel a c w = w\<lparr>el_channels := (el_channels w)(a \<mapsto> c)\<rparr>"

text \<open>The last owner lets go of a channel: its destructor runs and the address is free.\<close>

definition free_channel :: "nat \<Rightarrow> ('f, 'z) event_loop_scheme \<Rightarrow> ('f, 'z) event_loop_scheme outcome" where
  "free_channel a w = with_channel get_channel a w (\<lambda>c.
     obind (Channel_destroy c) (\<lambda>_. Inr (w\<lparr>el_channels := (el_channels w)(a := None)\<rparr>)))"

definition on_channel :: "nat \<Rightarrow> ('f channel \<Rightarrow> 'f channel) \<Rightarrow> ('f, 'z) event_loop_scheme \<Rightarrow>
    ('f, 'z) event_loop_scheme outcome" where
  "on_channel a g w = with_channel get_channel a w (\<lambda>c. Inr (put_channel a (g c) w))"

interpretation heap: channel_heap get_channel put_channel
  by unfold_locales (simp_all add: get_channel_def put_channel_def)

section \<open>Channels\<close>

definition EventLoop_AddChannel :: "nat \<Rightarrow> ('f, 'z) event_loop_scheme \<Rightarrow> ('f, 'z) event_loop_scheme outcome" where
  "EventLoop_AddChannel a w =
     obind (on_channel a (Channel_set_run_in_loop_flag True) w) (\<lambda>w.
     with_channel get_channel a w (\<lambda>c. Inr (w\<lparr>el_poller := EpollPoller_AddChannel a c (el_poller w)\<rparr>)))"

definition EventLoop_UpdateChannel :: "nat \<Rightarrow> ('f, 'z) event_loop_scheme \<Rightarrow> ('f, 'z) event_loop_scheme outcome" where
  "EventLoop_UpdateChannel a w =
     with_channel get_channel a w (\<lambda>c. Inr (w\<lparr>el_poller := EpollPoller_UpdateChannel a c (el_poller w)\<rparr>))"

definition EventLoop_RemoveChannel :: "nat \<Rightarrow> ('f, 'z) event_loop_scheme \<Rightarrow> ('f, 'z) event_loop_scheme outcome" where
  "EventLoop_RemoveChannel a w =
     obind (on_channel a (Channel_set_run_in_loop_flag False) w) (\<lambda>w.
     with_channel get_channel a w (\<lambda>c. Inr (w\<lparr>el_poller := EpollPoller_RemoveChannel a c (el_poller w)\<rparr>)))"

definition EventLoop_HasChannel :: "nat \<Rightarrow> ('f, 'z) event_loop_scheme \<Rightarrow> bool outcome" where
  "EventLoop_HasChannel a w = with_channel get_channel a w (\<lambda>c. Inr (Poller_HasChannel a c (el_poller w)))"

section \<open>Waking up and queueing\<close>

definition EventLoop_Wakeup :: "('f, 'z) event_loop_scheme \<Rightarrow> ('f, 'z) event_loop_scheme" where
  "EventLoop_Wakeup w = w\<lparr>el_wakeup_count := el_wakeup_count w + 1\<rparr>"

definition EventLoop_HandleWakeUpEvent :: "('f, 'z) event_loop_scheme \<Rightarrow> ('f, 'z) event_loop_scheme" where
  "EventLoop_HandleWakeUpEvent w = w\<lparr>el_wakeup_count := 0\<rparr>"

text \<open>\<open>tid\<close> is the calling thread.\<close>

definition EventLoop_isLoopThread :: "nat \<Rightarrow> ('f, 'z) event_loop_scheme \<Rightarrow> bool" where
  "EventLoop_isLoopThread tid w \<longleftrightarrow> el_thread_id w = tid"

definition EventLoop_Quit :: "nat \<Rightarrow> ('f, 'z) event_loop_scheme \<Rightarrow> ('f, 'z) event_loop_scheme" where
  "EventLoop_Quit tid w =
     (let w = w\<lparr>el_quit_flag := True\<rparr>
      in if \<not> EventLoop_isLoopThread tid w then EventLoop_Wakeup w else w)"

text \<open>The part of \<open>QueueInLoop\<close> that holds the mutex, and the whole function.\<close>

definition EventLoop_push_functor :: "'f \<Rightarrow> ('f, 'z) event_loop_scheme \<Rightarrow> ('f, 'z) event_loop_scheme" where
  "EventLoop_push_functor f w = w\<lparr>el_pending_functors := el_pending_functors w @ [f]\<rparr>"

definition EventLoop_QueueInLoop :: "nat \<Rightarrow> 'f \<Rightarrow> ('f, 'z) event_loop_scheme \<Rightarrow> ('f, 'z) event_loop_scheme" where
  "EventLoop_QueueInLoop tid f w =
     (let w = EventLoop_push_functor f w
      in if \<not> EventLoop_isLoopThread tid w \<or> el_calling_pend_functors_flag w
         then EventLoop_Wakeup w else w)"

definition EventLoop_RunInLoop :: "('f \<Rightarrow> ('f, 'z) event_loop_scheme \<Rightarrow> ('f, 'z) event_loop_scheme outcome) \<Rightarrow>
    nat \<Rightarrow> 'f \<Rightarrow> ('f, 'z) event_loop_scheme \<Rightarrow> ('f, 'z) event_loop_scheme outcome" where
  "EventLoop_RunInLoop run tid f w =
     (if EventLoop_isLoopThread tid w then run f w else Inr (EventLoop_QueueInLoop tid f w))"

definition EventLoop_take_functors :: "('f, 'z) event_loop_scheme \<Rightarrow> ('f, 'z) event_loop_scheme" where
  "EventLoop_take_functors w = w\<lparr>el_pending_functors := []\<rparr>"

text \<open>
  The functors are taken out into a local vector; \<open>rel\<close> is what its destruction at the end does to the
  things the functors have captured.
\<close>

definition EventLoop_DoPendingFunctors :: "('f \<Rightarrow> ('f, 'z) event_loop_scheme \<Rightarrow> ('f, 'z) event_loop_scheme outcome) \<Rightarrow>
    ('f list \<Rightarrow> ('f, 'z) event_loop_scheme \<Rightarrow> ('f, 'z) event_loop_scheme outcome) \<Rightarrow>
    ('f, 'z) event_loop_scheme \<Rightarrow> ('f, 'z) event_loop_scheme outcome" where
  "EventLoop_DoPendingFunctors run rel w =
     (let functors = el_pending_functors w
      in obind (run_seq run functors (EventLoop_take_functors w)) (rel functors))"

section \<open>Timers\<close>

text \<open>\<open>timerfd_settime\<close> is always called with five seconds; the calls are recorded.\<close>

definition EventLoop_RunAt :: "timestamp \<Rightarrow> 'f option \<Rightarrow> ('f, 'z) event_loop_scheme \<Rightarrow>
    ('f, 'z) event_loop_scheme outcome" where
  "EventLoop_RunAt time cb w =
     (case el_timer_queue w of
        None \<Rightarrow> Inl BadAccess
      | Some q \<Rightarrow> Inr (w\<lparr>el_timer_queue := Some (TimerSchedule_AddTimer (Timer_new cb time) q),
                        el_timer_settings := el_timer_settings w @ [(5, 0)]\<rparr>))"

definition timer_run :: "('f \<Rightarrow> ('f, 'z) event_loop_scheme \<Rightarrow> ('f, 'z) event_loop_scheme outcome) \<Rightarrow>
    'f \<Rightarrow> 'f timer_queue \<times> ('f, 'z) event_loop_scheme \<Rightarrow> ('f timer_queue \<times> ('f, 'z) event_loop_scheme) outcome" where
  "timer_run run f qw = obind (run f ((snd qw)\<lparr>el_timer_queue := Some (fst qw)\<rparr>)) (\<lambda>w.
     case el_timer_queue w of None \<Rightarrow> Inl BadAccess | Some q \<Rightarrow> Inr (q, w))"

definition EventLoop_HandleTimerEvent :: "('f \<Rightarrow> ('f, 'z) event_loop_scheme \<Rightarrow> ('f, 'z) event_loop_scheme outcome) \<Rightarrow>
    int \<Rightarrow> ('f, 'z) event_loop_scheme \<Rightarrow> ('f, 'z) event_loop_scheme outcome option" where
  "EventLoop_HandleTimerEvent run clock w =
     (case el_timer_queue w of
        None \<Rightarrow> Some (Inl BadAccess)
      | Some q \<Rightarrow> map_option (\<lambda>r. obind r (\<lambda>(q, w). Inr (w\<lparr>el_timer_queue := Some q\<rparr>)))
                   (TimerSchedule_HandleTimerQueue (timer_run run) clock q w))"

section \<open>Setting up and tearing down\<close>

text \<open>
  \<open>tls\<close> is \<open>kEventLoopTLS\<close> of the calling thread, \<open>self\<close> this loop, \<open>ta\<close> and \<open>wa\<close> the addresses of the
  two new channels, \<open>on_timer\<close> and \<open>on_wakeup\<close> the two bound member functions. A thread that already
  has a loop only gets a log line. \<open>Init\<close> is called once per loop.
\<close>

definition EventLoop_Init :: "nat option \<Rightarrow> nat \<Rightarrow> nat \<Rightarrow> nat \<Rightarrow> 'f \<Rightarrow> 'f \<Rightarrow> ('f, 'z) event_loop_scheme \<Rightarrow>
    (nat option \<times> ('f, 'z) event_loop_scheme) outcome" where
  "EventLoop_Init tls self ta wa on_timer on_wakeup w =
     (let tls = (case tls of Some l \<Rightarrow> Some l | None \<Rightarrow> Some self);
          w = w\<lparr>el_timer_queue := Some TimerSchedule_new, el_timer_channel := Some ta\<rparr>;
          w = put_channel ta (Channel_set_read_call_back (Some on_timer) (Channel_new (el_timer_fd w))) w;
          w = w\<lparr>el_wakeup_channel := Some wa\<rparr>;
          w = put_channel wa (Channel_EnableReading
                (Channel_set_read_call_back (Some on_wakeup) (Channel_new (el_wakeup_fd w)))) w
      in obind (EventLoop_AddChannel wa w) (\<lambda>w. Inr (tls, w)))"

definition EventLoop_destroy :: "('f, 'z) event_loop_scheme \<Rightarrow> (nat option \<times> ('f, 'z) event_loop_scheme) outcome" where
  "EventLoop_destroy w =
     (case el_timer_channel w of None \<Rightarrow> Inl BadAccess | Some ta \<Rightarrow>
      obind (EventLoop_RemoveChannel ta w) (\<lambda>w.
      case el_wakeup_channel w of None \<Rightarrow> Inl BadAccess | Some wa \<Rightarrow>
      obind (EventLoop_RemoveChannel wa w) (\<lambda>w. Inr (None, w))))"

section \<open>The loop\<close>

text \<open>
  The diagnostics read the descriptor of the channel before and after it is handled.
\<close>

fun EventLoop_dispatch :: "('f \<Rightarrow> ('f, 'z) event_loop_scheme \<Rightarrow> ('f, 'z) event_loop_scheme outcome) \<Rightarrow>
    nat list \<Rightarrow> ('f, 'z) event_loop_scheme \<Rightarrow> ('f, 'z) event_loop_scheme outcome" where
  "EventLoop_dispatch run [] w = Inr w"
| "EventLoop_dispatch run (a # as) w =
     with_channel get_channel a w (\<lambda>_.
     obind (Channel_HandleEvent get_channel put_channel run a w) (\<lambda>w.
     with_channel get_channel a w (\<lambda>_. EventLoop_dispatch run as w)))"

text \<open>The body of the loop: waiting and handling the events, then the functors.\<close>

definition EventLoop_handle_events :: "('f \<Rightarrow> ('f, 'z) event_loop_scheme \<Rightarrow> ('f, 'z) event_loop_scheme outcome) \<Rightarrow>
    poll_result \<Rightarrow> ('f, 'z) event_loop_scheme \<Rightarrow> ('f, 'z) event_loop_scheme outcome" where
  "EventLoop_handle_events run r w =
     (let w = w\<lparr>el_active_channel_list := []\<rparr>
      in obind (EpollPoller_Poll get_channel put_channel r (el_active_channel_list w) (el_poller w) w) (\<lambda>(active, p, w).
         let w = w\<lparr>el_active_channel_list := active, el_poller := p, el_event_handling_flag := True\<rparr>
         in obind (EventLoop_dispatch run (el_active_channel_list w) w) (\<lambda>w.
            Inr (w\<lparr>el_event_handling_flag := False\<rparr>))))"

definition EventLoop_iteration :: "('f \<Rightarrow> ('f, 'z) event_loop_scheme \<Rightarrow> ('f, 'z) event_loop_scheme outcome) \<Rightarrow>
    ('f list \<Rightarrow> ('f, 'z) event_loop_scheme \<Rightarrow> ('f, 'z) event_loop_scheme outcome) \<Rightarrow>
    poll_result \<Rightarrow> ('f, 'z) event_loop_scheme \<Rightarrow> ('f, 'z) event_loop_scheme outcome" where
  "EventLoop_iteration run rel r w = obind (EventLoop_handle_events run r w) (EventLoop_DoPendingFunctors run rel)"

text \<open>
  The results of \<open>epoll_wait\<close> are the input; when they run out the loop is blocked in the next call.
\<close>

fun EventLoop_Loop_while :: "('f \<Rightarrow> ('f, 'z) event_loop_scheme \<Rightarrow> ('f, 'z) event_loop_scheme outcome) \<Rightarrow>
    ('f list \<Rightarrow> ('f, 'z) event_loop_scheme \<Rightarrow> ('f, 'z) event_loop_scheme outcome) \<Rightarrow>
    poll_result list \<Rightarrow> ('f, 'z) event_loop_scheme \<Rightarrow> ('f, 'z) event_loop_scheme outcome" where
  "EventLoop_Loop_while run rel rs w =
     (if el_quit_flag w then Inr (w\<lparr>el_loop_flag := False\<rparr>)
      else case rs of
        [] \<Rightarrow> Inr w
      | r # rs \<Rightarrow> obind (EventLoop_iteration run rel r w) (EventLoop_Loop_while run rel rs))"

declare EventLoop_Loop_while.simps [simp del]

definition EventLoop_Loop :: "('f \<Rightarrow> ('f, 'z) event_loop_scheme \<Rightarrow> ('f, 'z) event_loop_scheme outcome) \<Rightarrow>
    ('f list \<Rightarrow> ('f, 'z) event_loop_scheme \<Rightarrow> ('f, 'z) event_loop_scheme outcome) \<Rightarrow>
    poll_result list \<Rightarrow> ('f, 'z) event_loop_scheme \<Rightarrow> ('f, 'z) event_loop_scheme outcome" where
  "EventLoop_Loop run rel rs w = EventLoop_Loop_while run rel rs (w\<lparr>el_loop_flag := True, el_quit_flag := False\<rparr>)"

lemmas loop_simps = get_channel_def put_channel_def with_channel_def on_channel_def
  EventLoop_AddChannel_def EventLoop_UpdateChannel_def EventLoop_RemoveChannel_def Let_def

section \<open>Dispatch of events\<close>

text \<open>C20: as long as callbacks neither destroy their channel nor change its events and callbacks,
  \<open>HandleEvent\<close> runs exactly the callbacks the event set selects, in the order close, then error
  alone, or read and write; it stops at the first fault, and the handling flag is set during and
  cleared after the run.\<close>

theorem Channel_HandleEvent_dispatch:
  fixes w :: "('f, 'z) event_loop_scheme"
  assumes "get_channel a w = Some c"
    and "\<And>f v v' d. f \<in> set (dispatched c) \<Longrightarrow> get_channel a v = Some d \<Longrightarrow> same_dispatch c d \<Longrightarrow>
           run f v = Inr v' \<Longrightarrow> \<exists>d'. get_channel a v' = Some d' \<and> same_dispatch c d'"
  shows "Channel_HandleEvent get_channel put_channel run a w =
    obind (run_seq run (dispatched c) (put_channel a (c\<lparr>ch_event_handling := True\<rparr>) w))
      (Channel_set_event_handling get_channel put_channel a False)"
  using assms by (rule heap.HandleEvent_dispatch)

text \<open>A world with one channel, for the witnesses.\<close>

definition one_channel :: "events \<Rightarrow> nat event_loop" where
  "one_channel ev = put_channel 100 ((Channel_new 5)\<lparr>ch_trigger_events := ev,
     ch_read_call_back := Some 1, ch_write_call_back := Some 2, ch_close_call_back := Some 3\<rparr>)
     (EventLoop_new 1 3 4 6 False)"

lemma get_one_channel: "get_channel 100 (one_channel ev) = Some ((Channel_new 5)\<lparr>ch_trigger_events := ev,
     ch_read_call_back := Some 1, ch_write_call_back := Some 2, ch_close_call_back := Some 3\<rparr>)"
  by (simp add: one_channel_def get_channel_def put_channel_def)

theorem Channel_HandleEvent_dispatch_witness:
  "\<exists>c. get_channel 100 (one_channel (EPOLLIN OR EPOLLOUT)) = Some c \<and> dispatched c = [1, 2] \<and>
   Channel_HandleEvent get_channel put_channel (\<lambda>f w. Inr (EventLoop_push_functor f w)) 100
     (one_channel (EPOLLIN OR EPOLLOUT)) =
   obind (run_seq (\<lambda>f w. Inr (EventLoop_push_functor f w)) (dispatched c)
      (put_channel 100 (c\<lparr>ch_event_handling := True\<rparr>) (one_channel (EPOLLIN OR EPOLLOUT))))
      (Channel_set_event_handling get_channel put_channel 100 False)"
proof (intro exI conjI)
  show "Channel_HandleEvent get_channel put_channel (\<lambda>f w. Inr (EventLoop_push_functor f w)) 100
     (one_channel (EPOLLIN OR EPOLLOUT)) =
   obind (run_seq (\<lambda>f w. Inr (EventLoop_push_functor f w)) (dispatched ((Channel_new 5)\<lparr>ch_trigger_events := EPOLLIN OR EPOLLOUT,
     ch_read_call_back := Some 1, ch_write_call_back := Some 2, ch_close_call_back := Some 3\<rparr>))
      (put_channel 100 ((Channel_new 5)\<lparr>ch_trigger_events := EPOLLIN OR EPOLLOUT,
     ch_read_call_back := Some 1, ch_write_call_back := Some 2, ch_close_call_back := Some 3, ch_event_handling := True\<rparr>) (one_channel (EPOLLIN OR EPOLLOUT))))
      (Channel_set_event_handling get_channel put_channel 100 False)"
    by (subst Channel_HandleEvent_dispatch [OF get_one_channel])
      (auto simp: EventLoop_push_functor_def get_channel_def)
qed (simp_all add: get_one_channel dispatched_def guarded_def)

text \<open>When the first callback that \<open>HandleEvent\<close> runs destroys the channel, the rest of
  \<open>HandleEvent\<close> works on a freed object, whatever the events were.\<close>

theorem Channel_HandleEvent_destroyed:
  fixes w :: "('f, 'z) event_loop_scheme"
  assumes "get_channel a w = Some c" "dispatched c = f # fs"
    and "run f (put_channel a (c\<lparr>ch_event_handling := True\<rparr>) w) = Inr v" "get_channel a v = None"
  shows "Channel_HandleEvent get_channel put_channel run a w = Inl UseAfterFree"
  using assms by (rule heap.HandleEvent_destroyed)

theorem Channel_HandleEvent_destroyed_witness:
  "Channel_HandleEvent get_channel put_channel
     (\<lambda>f w. obind (on_channel 100 (\<lambda>c. c\<lparr>ch_event_handling := False\<rparr>) w) (free_channel 100)) 100
     (one_channel EPOLLIN) = Inl UseAfterFree"
  by (rule Channel_HandleEvent_destroyed [OF get_one_channel])
    (auto simp: dispatched_def guarded_def free_channel_def loop_simps Channel_destroy_def one_channel_def
      Channel_new_def)

section \<open>Functors, quitting, timers\<close>

text \<open>C21: \<open>DoPendingFunctors\<close> runs the functors that were queued when it started, each once and in
  the order they were queued; those queued meanwhile are not run but left for the next round, in
  the order they were queued. What the functors had captured is released at the end.\<close>

theorem EventLoop_DoPendingFunctors_fifo:
  fixes w :: "('f, 'z) event_loop_scheme"
  assumes run: "\<And>f v. run f v = Inr (effect f v)"
    and queues: "\<And>f v. el_pending_functors (effect f v) = el_pending_functors v @ spawn f"
  shows "\<exists>w'. EventLoop_DoPendingFunctors run rel w = rel (el_pending_functors w) w' \<and>
     w' = fold effect (el_pending_functors w) (w\<lparr>el_pending_functors := []\<rparr>) \<and>
     el_pending_functors w' = concat (map spawn (el_pending_functors w))"
proof -
  have "run_seq run fs v = Inr (fold effect fs v)" for fs v
    by (induction fs arbitrary: v) (auto simp: run)
  moreover have "el_pending_functors (fold effect fs v) = el_pending_functors v @ concat (map spawn fs)" for fs v
    by (induction fs arbitrary: v) (auto simp: queues)
  ultimately show ?thesis
    by (simp add: EventLoop_DoPendingFunctors_def EventLoop_take_functors_def Let_def)
qed

theorem EventLoop_DoPendingFunctors_fifo_witness:
  "let run = (\<lambda>f w. Inr (if f = (1::nat) then EventLoop_push_functor 7 w else w));
       w = EventLoop_QueueInLoop 9 1 (EventLoop_QueueInLoop 9 2 (EventLoop_new 1 3 4 6 False))
   in \<exists>w'. EventLoop_DoPendingFunctors run (\<lambda>_. Inr) w = Inr w' \<and> el_pending_functors w' = [7] \<and> el_pending_functors w = [2, 1]"
proof -
  let ?run = "\<lambda>f w. Inr (if f = (1::nat) then EventLoop_push_functor 7 w else w)"
  let ?w = "EventLoop_QueueInLoop 9 (1::nat) (EventLoop_QueueInLoop 9 2 (EventLoop_new 1 3 4 6 False))"
  have p: "el_pending_functors ?w = [2, 1]"
    by (simp add: EventLoop_QueueInLoop_def EventLoop_push_functor_def EventLoop_new_def
        EventLoop_isLoopThread_def EventLoop_Wakeup_def)
  have "\<exists>w'. EventLoop_DoPendingFunctors ?run (\<lambda>_. Inr) ?w = (\<lambda>_. Inr) (el_pending_functors ?w) w' \<and>
     w' = fold (\<lambda>f w. if f = (1::nat) then EventLoop_push_functor 7 w else w) (el_pending_functors ?w) (?w\<lparr>el_pending_functors := []\<rparr>) \<and>
     el_pending_functors w' = concat (map (\<lambda>f. if f = 1 then [7] else []) (el_pending_functors ?w))"
    by (rule EventLoop_DoPendingFunctors_fifo) (auto simp: EventLoop_push_functor_def)
  with p show ?thesis by (auto simp: Let_def)
qed

text \<open>A \<open>Quit\<close> from the loop's thread before \<open>Loop\<close> starts has no effect at all: \<open>Loop\<close> clears the
  flag and runs as if it had not been called. A \<open>Quit\<close> while an iteration runs takes effect after
  that iteration, pending functors included, without another poll.\<close>

theorem EventLoop_Quit_effect:
  "EventLoop_Loop run rel rs (EventLoop_Quit (el_thread_id w) w) = EventLoop_Loop run rel rs w"
  "EventLoop_Loop_while run rel rs (EventLoop_Quit tid v) = Inr ((EventLoop_Quit tid v)\<lparr>el_loop_flag := False\<rparr>)"
  by (simp_all add: EventLoop_Loop_def EventLoop_Quit_def EventLoop_isLoopThread_def
      EventLoop_Wakeup_def Let_def EventLoop_Loop_while.simps)

fun run_ats :: "(timestamp \<times> 'f option) list \<Rightarrow> ('f, 'z) event_loop_scheme \<Rightarrow> ('f, 'z) event_loop_scheme outcome" where
  "run_ats [] w = Inr w"
| "run_ats ((t, cb) # ts) w = obind (EventLoop_RunAt t cb w) (run_ats ts)"

lemma run_ats_result:
  "el_timer_queue w = Some q \<Longrightarrow> \<exists>w' q'. run_ats ts w = Inr w' \<and> el_poller w' = el_poller w \<and>
     el_timer_settings w' = el_timer_settings w @ replicate (length ts) (5, 0) \<and>
     el_timer_queue w' = Some q' \<and> mset q' = mset q + mset (map (\<lambda>(t, cb). Timer_new cb t) ts)"
proof (induction ts arbitrary: w q)
  case (Cons x ts)
  obtain t cb where x: "x = (t, cb)" by (cases x)
  let ?w = "w\<lparr>el_timer_queue := Some (TimerSchedule_AddTimer (Timer_new cb t) q),
              el_timer_settings := el_timer_settings w @ [(5, 0)]\<rparr>"
  have q: "el_timer_queue ?w = Some (TimerSchedule_AddTimer (Timer_new cb t) q)" by simp
  from Cons.IH [OF q] Cons.prems show ?case
    by (auto simp: x EventLoop_RunAt_def replicate_append_same)
qed auto

text \<open>After \<open>Init\<close> only the wakeup descriptor is registered with the poller. Timers set with
  \<open>RunAt\<close> are all queued, and the timer descriptor is always armed with five seconds, but it is
  never registered, so the loop is never told that it expired.\<close>

theorem EventLoop_timer_fd_is_never_polled:
  fixes on_timer on_wakeup :: 'f
  assumes "ta \<noteq> wa" "timer_fd \<noteq> wakeup_fd"
  shows "\<exists>w w' q. EventLoop_Init tls self ta wa on_timer on_wakeup (EventLoop_new tid epollfd wakeup_fd timer_fd junk) =
       Inr (Some (case tls of None \<Rightarrow> self | Some l \<Rightarrow> l), w) \<and>
     run_ats ts w = Inr w' \<and>
     interest (pl_ctl_calls (el_poller w')) = [wakeup_fd \<mapsto> (wa, EPOLLIN OR EPOLLPRI)] \<and>
     interest (pl_ctl_calls (el_poller w')) timer_fd = None \<and>
     el_timer_queue w' = Some q \<and> mset q = mset (map (\<lambda>(t, cb). Timer_new cb t) ts) \<and>
     el_timer_settings w' = replicate (length ts) (5, 0)"
proof -
  let ?w0 = "EventLoop_new tid epollfd wakeup_fd timer_fd junk :: 'f event_loop"
  obtain w where w: "EventLoop_Init tls self ta wa on_timer on_wakeup ?w0 =
      Inr (Some (case tls of None \<Rightarrow> self | Some l \<Rightarrow> l), w)"
    and reg: "interest (pl_ctl_calls (el_poller w)) = [wakeup_fd \<mapsto> (wa, EPOLLIN OR EPOLLPRI)]"
    and q: "el_timer_queue w = Some []" and st: "el_timer_settings w = []"
    by (simp add: EventLoop_Init_def EventLoop_new_def loop_simps TimerSchedule_new_def mask_defs
        EpollPoller_new_def Channel_new_def EpollPoller_AddChannel_def EpollPoller_Update_def interest_def ctl_apply_def ctl_ok_def split: option.splits)
  from run_ats_result [OF q, of ts] reg st assms(2) w show ?thesis by fastforce
qed

theorem EventLoop_timer_fd_is_never_polled_witness:
  "\<exists>w w' q. EventLoop_Init None 1 100 101 (1::nat) 2 (EventLoop_new 1 3 4 6 False) = Inr (Some 1, w) \<and>
     run_ats [(Timestamp 10, Some 5)] w = Inr w' \<and>
     interest (pl_ctl_calls (el_poller w')) 6 = None \<and>
     el_timer_queue w' = Some q \<and> mset q = {#Timer_new (Some 5) (Timestamp 10)#}"
  using EventLoop_timer_fd_is_never_polled [of 100 101 6 4 None 1 "1::nat" 2 1 3 False "[(Timestamp 10, Some 5)]"]
  by auto

end
