(* ===== verification/Thread_Pool.thy ===== *)
theory Thread_Pool
  imports Prelude "HOL-Library.Multiset"
begin

text \<open>
  \<open>EventLoopThreadPool\<close> (EventLoopThreadPool.h, EventLoopThreadPool.cc): the loops new connections
  are spread over. \<open>'l\<close> is a handle on a loop. A started thread registers its loop some time
  later (\<open>ThreadFunc\<close>), so the pool may be used while it still has fewer loops than threads.
\<close>

section \<open>State and operations\<close>

record 'l loop_pool =
  tp_base_loop :: 'l
  tp_name :: string
  tp_start_flag :: bool
  tp_thread_num :: int
  tp_next :: int
  tp_loops_pool :: "'l list"
  tp_threads_pool :: nat   \<comment> \<open>the threads started\<close>

definition EventLoopThreadPool_new :: "'l \<Rightarrow> string \<Rightarrow> 'l loop_pool" where
  "EventLoopThreadPool_new base_loop name =
     \<lparr>tp_base_loop = base_loop, tp_name = name, tp_start_flag = False, tp_thread_num = 0,
      tp_next = 0, tp_loops_pool = [], tp_threads_pool = 0\<rparr>"

definition EventLoopThreadPool_set_thread_num :: "int \<Rightarrow> 'l loop_pool \<Rightarrow> 'l loop_pool" where
  "EventLoopThreadPool_set_thread_num n p = p\<lparr>tp_thread_num := n\<rparr>"

text \<open>\<open>cb\<close>: whether a thread-initialisation callback was given.\<close>

definition EventLoopThreadPool_Start :: "bool \<Rightarrow> 'l loop_pool \<Rightarrow> 'l loop_pool outcome" where
  "EventLoopThreadPool_Start cb p =
     check (\<not> tp_start_flag p) AssertFailed
       (let p = p\<lparr>tp_start_flag := True\<rparr>;
            p = p\<lparr>tp_threads_pool := tp_threads_pool p + nat (tp_thread_num p)\<rparr>
        in Inr (if tp_thread_num p = 0 \<and> cb
                then p\<lparr>tp_loops_pool := tp_loops_pool p @ [tp_base_loop p]\<rparr> else p))"

definition EventLoopThreadPool_ThreadFunc :: "'l \<Rightarrow> 'l loop_pool \<Rightarrow> 'l loop_pool" where
  "EventLoopThreadPool_ThreadFunc l p = p\<lparr>tp_loops_pool := tp_loops_pool p @ [l]\<rparr>"

text \<open>The index is an \<open>int\<close>, the size a \<open>size_t\<close>: the remainder is taken on unsigned values.\<close>

definition EventLoopThreadPool_NextLoop :: "'l loop_pool \<Rightarrow> ('l \<times> 'l loop_pool) outcome" where
  "EventLoopThreadPool_NextLoop p =
     check (tp_start_flag p) AssertFailed
       (if tp_loops_pool p \<noteq> []
        then check (to_size (tp_next p) < length (tp_loops_pool p)) BadAccess
          (check (tp_next p + 1 \<le> int int_max) SignedOverflow
            (Inr (tp_loops_pool p ! to_size (tp_next p),
                  p\<lparr>tp_next := to_int32 (to_size (tp_next p + 1) mod length (tp_loops_pool p))\<rparr>)))
        else Inr (tp_base_loop p, p))"

definition EventLoopThreadPool_LoopForHash :: "nat \<Rightarrow> 'l loop_pool \<Rightarrow> 'l option" where
  "EventLoopThreadPool_LoopForHash hash_code p = None"

definition EventLoopThreadPool_AllLoops :: "'l loop_pool \<Rightarrow> 'l list" where
  "EventLoopThreadPool_AllLoops p = tp_loops_pool p"

text \<open>The destructor: the loops it asks to quit, in order, or the fault of the index.\<close>

definition EventLoopThreadPool_destroy :: "'l loop_pool \<Rightarrow> 'l list outcome" where
  "EventLoopThreadPool_destroy p =
     for_each [0..<nat (tp_thread_num p)] (\<lambda>i quit.
       check (i < length (tp_loops_pool p)) BadAccess (Inr (quit @ [tp_loops_pool p ! i]))) []"

section \<open>Round robin\<close>

definition pool_invar :: "'l loop_pool \<Rightarrow> bool" where
  "pool_invar p \<longleftrightarrow> tp_start_flag p \<and> length (tp_loops_pool p) < 2 ^ 31 \<and>
     0 \<le> tp_next p \<and> (tp_next p = 0 \<or> tp_next p < int (length (tp_loops_pool p)))"

lemma NextLoop_step:
  assumes "pool_invar p" "tp_loops_pool p \<noteq> []"
  shows "EventLoopThreadPool_NextLoop p = Inr (tp_loops_pool p ! nat (tp_next p),
      p\<lparr>tp_next := int ((nat (tp_next p) + 1) mod length (tp_loops_pool p))\<rparr>)"
proof -
  define i where "i = nat (tp_next p)"
  let ?n = "length (tp_loops_pool p)"
  have i: "tp_next p = int i" "i < ?n" "?n < 2 ^ 31"
    using assms by (auto simp: i_def pool_invar_def)
  have j: "tp_next p + 1 = int (i + 1)" by (simp add: i)
  have lt: "i < 2 ^ 64" "i + 1 < 2 ^ 64" using i(2,3) by simp_all
  have sz: "to_size (tp_next p) = i" by (simp only: i(1) to_size_int [OF lt(1)])
  have sz1: "to_size (tp_next p + 1) = i + 1" by (simp only: j to_size_int [OF lt(2)])
  have "(i + 1) mod ?n < ?n" using i(2) by (intro mod_less_divisor) linarith
  then have "(i + 1) mod ?n < 2 ^ 31" using i(3) by linarith
  then have "to_int32 ((i + 1) mod ?n) = int ((i + 1) mod ?n)" by (rule to_int32_id)
  with i sz sz1 assms show ?thesis
    by (simp add: EventLoopThreadPool_NextLoop_def pool_invar_def)
qed

lemma NextLoop_invar:
  assumes "pool_invar p" "EventLoopThreadPool_NextLoop p = Inr (l, p')"
  shows "pool_invar p' \<and> tp_loops_pool p' = tp_loops_pool p"
proof (cases "tp_loops_pool p = []")
  case True
  with assms show ?thesis by (auto simp: EventLoopThreadPool_NextLoop_def check_def split: if_splits)
next
  case False
  with NextLoop_step [OF assms(1)] assms show ?thesis by (auto simp: pool_invar_def simp flip: of_nat_mod)
qed

text \<open>A client drawing loops while threads keep registering theirs.\<close>

datatype 'l pool_op = Draw | Register 'l

fun pool_run :: "'l pool_op list \<Rightarrow> 'l loop_pool \<Rightarrow> ('l list \<times> 'l loop_pool) outcome" where
  "pool_run [] p = Inr ([], p)"
| "pool_run (Draw # xs) p = obind (EventLoopThreadPool_NextLoop p) (\<lambda>(l, p).
     obind (pool_run xs p) (\<lambda>(ls, p). Inr (l # ls, p)))"
| "pool_run (Register l # xs) p = pool_run xs (EventLoopThreadPool_ThreadFunc l p)"

lemma mset_rotate_self: "mset (rotate s xs) = mset xs"
  by (metis append_take_drop_id mset_append rotate_drop_take union_commute)

lemma draws:
  assumes "pool_invar p" "tp_loops_pool p \<noteq> []"
  shows "\<exists>p'. pool_run (replicate k Draw) p = Inr (map (\<lambda>i. tp_loops_pool p ! ((nat (tp_next p) + i) mod length (tp_loops_pool p))) [0..<k], p') \<and>
     pool_invar p' \<and> tp_loops_pool p' = tp_loops_pool p \<and> tp_next p' = int ((nat (tp_next p) + k) mod length (tp_loops_pool p))"
  using assms
proof (induction k arbitrary: p)
  case 0
  then have "nat (tp_next p) mod length (tp_loops_pool p) = nat (tp_next p)" "0 \<le> tp_next p"
    by (auto simp: pool_invar_def)
  with 0 show ?case by simp
next
  case (Suc k)
  let ?n = "length (tp_loops_pool p)" and ?i = "nat (tp_next p)"
  let ?p = "p\<lparr>tp_next := int ((?i + 1) mod ?n)\<rparr>"
  have step: "EventLoopThreadPool_NextLoop p = Inr (tp_loops_pool p ! ?i, ?p)"
    by (rule NextLoop_step [OF Suc.prems])
  have inv: "pool_invar ?p" using NextLoop_invar [OF Suc.prems(1) step] by simp
  from Suc.IH [OF inv] Suc.prems(2) obtain p' where p': "pool_run (replicate k Draw) ?p =
      Inr (map (\<lambda>i. tp_loops_pool p ! (((?i + 1) mod ?n + i) mod ?n)) [0..<k], p')"
    "pool_invar p'" "tp_loops_pool p' = tp_loops_pool p" "tp_next p' = int (((?i + 1) mod ?n + k) mod ?n)"
    by auto
  have "?i mod ?n = ?i" using Suc.prems by (auto simp: pool_invar_def)
  moreover have "map (\<lambda>i. tp_loops_pool p ! ((?i + i) mod ?n)) [0..<Suc k] =
      tp_loops_pool p ! (?i mod ?n) # map (\<lambda>i. tp_loops_pool p ! (((?i + 1) mod ?n + i) mod ?n)) [0..<k]"
    by (simp add: upt_conv_Cons map_Suc_upt [symmetric] mod_simps del: upt_Suc)
  ultimately show ?case using step p' by (simp add: mod_simps del: upt_Suc)
qed

text \<open>C19: once loops are registered, consecutive \<open>NextLoop\<close> calls return them in turn, starting at
  the stored index and wrapping around; in particular as many calls as there are loops return each
  of them exactly once.\<close>

theorem EventLoopThreadPool_round_robin:
  assumes "pool_invar p" "tp_loops_pool p \<noteq> []"
  defines "n \<equiv> length (tp_loops_pool p)"
  shows "\<exists>ls p'. pool_run (replicate k Draw) p = Inr (ls, p') \<and> pool_invar p' \<and>
     (\<forall>i < k. ls ! i = tp_loops_pool p ! ((nat (tp_next p) + i) mod n)) \<and>
     (k = n \<longrightarrow> mset ls = mset (tp_loops_pool p) \<and> tp_next p' = tp_next p)"
proof -
  let ?ls = "map (\<lambda>i. tp_loops_pool p ! ((nat (tp_next p) + i) mod n)) [0..<k]"
  from draws [OF assms(1,2), of k] obtain p' where p': "pool_run (replicate k Draw) p = Inr (?ls, p')"
    "pool_invar p'" "tp_next p' = int ((nat (tp_next p) + k) mod n)"
    unfolding n_def by blast
  have "?ls = rotate (nat (tp_next p)) (tp_loops_pool p)" if "k = n"
    using that by (intro nth_equalityI) (simp_all add: n_def nth_rotate)
  then have "k = n \<longrightarrow> mset ?ls = mset (tp_loops_pool p)" using mset_rotate_self by metis
  moreover have "k = n \<longrightarrow> tp_next p' = tp_next p"
    using p'(3) assms(1,2) by (auto simp: n_def pool_invar_def)
  ultimately show ?thesis using p' by (intro exI [of _ ?ls] exI [of _ p']) simp
qed

theorem EventLoopThreadPool_round_robin_witness:
  "let p = \<lparr>tp_base_loop = 0::nat, tp_name = ''p'', tp_start_flag = True, tp_thread_num = 3, tp_next = 1,
      tp_loops_pool = [10, 11, 12], tp_threads_pool = 3\<rparr>
   in \<exists>ls p'. pool_run (replicate 3 Draw) p = Inr (ls, p') \<and> mset ls = mset [10, 11, 12]"
proof -
  let ?p = "\<lparr>tp_base_loop = 0::nat, tp_name = ''p'', tp_start_flag = True, tp_thread_num = 3, tp_next = 1,
      tp_loops_pool = [10, 11, 12], tp_threads_pool = 3\<rparr>"
  have "pool_invar ?p" "tp_loops_pool ?p \<noteq> []" by (simp_all add: pool_invar_def)
  from EventLoopThreadPool_round_robin [OF this, of 3] show ?thesis by (auto simp: Let_def)
qed

lemma NextLoop_loops: "EventLoopThreadPool_NextLoop p = Inr (l, p') \<Longrightarrow> tp_loops_pool p' = tp_loops_pool p"
  by (auto simp: EventLoopThreadPool_NextLoop_def outcome_simps split: if_splits)

lemma run_grows: "pool_run xs p = Inr (ls, p') \<Longrightarrow> set (tp_loops_pool p) \<subseteq> set (tp_loops_pool p')"
proof (induction xs arbitrary: p ls)
  case (Cons x xs)
  show ?case
  proof (cases x)
    case Draw
    with Cons.prems obtain l q ms where "EventLoopThreadPool_NextLoop p = Inr (l, q)" "pool_run xs q = Inr (ms, p')"
      by (auto simp: obind_Inr_iff)
    with Cons.IH NextLoop_loops show ?thesis by metis
  next
    case (Register l)
    then have "pool_run xs (EventLoopThreadPool_ThreadFunc l p) = Inr (ls, p')" using Cons.prems by simp
    from Cons.IH [OF this] show ?thesis by (auto simp: EventLoopThreadPool_ThreadFunc_def)
  qed
qed auto

text \<open>However drawing loops and late registrations interleave, a started pool never indexes outside
  its vector, and every loop drawn is registered or, before the first registration, the base loop.\<close>

theorem EventLoopThreadPool_draws_safe:
  assumes "pool_invar p" "length (tp_loops_pool p) + length ops < 2 ^ 31"
  shows "\<exists>ls p'. pool_run ops p = Inr (ls, p') \<and> pool_invar p' \<and>
     set ls \<subseteq> insert (tp_base_loop p) (set (tp_loops_pool p'))"
  using assms
proof (induction ops arbitrary: p)
  case (Cons x ops)
  show ?case
  proof (cases x)
    case Draw
    obtain l p1 where step: "EventLoopThreadPool_NextLoop p = Inr (l, p1)" and l: "l \<in> insert (tp_base_loop p) (set (tp_loops_pool p))"
      and base: "tp_base_loop p1 = tp_base_loop p"
    proof (cases "tp_loops_pool p = []")
      case True
      with that [of "tp_base_loop p" p] Cons.prems(1) show ?thesis
        by (auto simp: EventLoopThreadPool_NextLoop_def pool_invar_def)
    next
      case False
      with that NextLoop_step [OF Cons.prems(1) False] Cons.prems(1) show ?thesis
        by (auto simp: pool_invar_def)
    qed
    from NextLoop_invar [OF Cons.prems(1) step] have p1: "pool_invar p1" "tp_loops_pool p1 = tp_loops_pool p" by auto
    have "length (tp_loops_pool p1) + length ops < 2 ^ 31" using Cons.prems(2) p1(2) by simp
    from Cons.IH [OF p1(1) this] obtain ls p' where p': "pool_run ops p1 = Inr (ls, p')" "pool_invar p'"
      "set ls \<subseteq> insert (tp_base_loop p1) (set (tp_loops_pool p'))" by blast
    from run_grows [OF p'(1)] have "l \<in> insert (tp_base_loop p) (set (tp_loops_pool p'))"
      using l p1(2) by auto
    with Draw step p' base show ?thesis by auto
  next
    case (Register l)
    let ?p = "EventLoopThreadPool_ThreadFunc l p"
    have "pool_invar ?p" "length (tp_loops_pool ?p) + length ops < 2 ^ 31" "tp_base_loop ?p = tp_base_loop p"
      using Cons.prems by (auto simp: pool_invar_def EventLoopThreadPool_ThreadFunc_def)
    with Cons.IH [of ?p] Register show ?thesis by simp
  qed
qed auto

theorem EventLoopThreadPool_draws_safe_witness:
  "\<exists>ls p'. pool_run [Draw, Register 10, Draw, Register 11, Draw] (EventLoopThreadPool_new (0::nat) ''p''\<lparr>tp_start_flag := True\<rparr>) =
     Inr (ls, p') \<and> set ls \<subseteq> insert 0 (set (tp_loops_pool p'))"
proof -
  let ?p = "EventLoopThreadPool_new (0::nat) ''p''\<lparr>tp_start_flag := True\<rparr>"
  have "pool_invar ?p" "length (tp_loops_pool ?p) + length [Draw, Register 10, Draw, Register 11, Draw :: nat pool_op] < 2 ^ 31"
    by (simp_all add: pool_invar_def EventLoopThreadPool_new_def)
  from EventLoopThreadPool_draws_safe [OF this] show ?thesis by (auto simp: EventLoopThreadPool_new_def)
qed

text \<open>The destructor asks every loop to quit exactly if all threads have registered theirs by then;
  a pool destroyed earlier indexes outside the vector.\<close>

theorem EventLoopThreadPool_destroy_race:
  "EventLoopThreadPool_destroy p =
     (if nat (tp_thread_num p) \<le> length (tp_loops_pool p)
      then Inr (take (nat (tp_thread_num p)) (tp_loops_pool p)) else Inl BadAccess)"
proof -
  let ?body = "\<lambda>i quit. check (i < length (tp_loops_pool p)) BadAccess (Inr (quit @ [tp_loops_pool p ! i]))"
  have ok: "for_each [0..<n] ?body [] = Inr (take n (tp_loops_pool p))" if "n \<le> length (tp_loops_pool p)" for n
    using for_each_upt [of n ?body "\<lambda>i. take i (tp_loops_pool p)"] that
    by (simp add: take_Suc_conv_app_nth)
  moreover have "for_each [0..<n] ?body [] = Inl BadAccess" if "length (tp_loops_pool p) < n" for n
    using that
  proof (induction n)
    case (Suc n)
    then show ?case using ok [of n]
      by (cases "n = length (tp_loops_pool p)") (auto simp: for_each_append)
  qed auto
  ultimately show ?thesis by (simp add: EventLoopThreadPool_destroy_def not_le)
qed

end
