(* ===== verification/Net_Buffer.thy ===== *)
theory Net_Buffer
  imports Byte_Queues
begin

text \<open>
  \<open>Buffer\<close> (include/Buffer.h, src/Buffer.cc): the linear buffer every connection reads into and
  writes from. Its readable bytes are the slice between the two indices. \<open>ReadFd\<close> and \<open>WriteFd\<close>
  implement the byte-queue contract as long as the bytes fit; \<open>Append\<close> and \<open>ReadByLine\<close> are
  described on every branch, the ones that lose data or break the indices included.
\<close>

section \<open>The class\<close>

record buffer =
  bf_buffer :: "char list"
  bf_read_index :: nat
  bf_write_index :: nat

definition Buffer_ReadableBytes :: "buffer \<Rightarrow> nat" where
  "Buffer_ReadableBytes b = sz_sub (bf_write_index b) (bf_read_index b)"

definition Buffer_WriteableBytes :: "buffer \<Rightarrow> nat" where
  "Buffer_WriteableBytes b = sz_sub (length (bf_buffer b)) (bf_write_index b)"

definition Buffer_new :: "nat \<Rightarrow> buffer outcome" where
  "Buffer_new initial_size =
     (let b = \<lparr>bf_buffer = replicate initial_size NUL, bf_read_index = 0, bf_write_index = 0\<rparr>
      in check (Buffer_ReadableBytes b = 0) AssertFailed
           (check (Buffer_WriteableBytes b = initial_size) AssertFailed (Inr b)))"

definition Buffer_kInitialSize :: nat where "Buffer_kInitialSize = 512"

definition Buffer_Reset :: "buffer \<Rightarrow> buffer" where
  "Buffer_Reset b = b\<lparr>bf_read_index := 0, bf_write_index := 0\<rparr>"

definition Buffer_ReadBySize :: "nat \<Rightarrow> buffer \<Rightarrow> string" where
  "Buffer_ReadBySize len b = []"

text \<open>\<open>std::search\<close> for CR LF: the offset of the first occurrence, the length if there is none.\<close>

fun crlf_offset :: "char list \<Rightarrow> nat" where
  "crlf_offset [] = 0"
| "crlf_offset [c] = 1"
| "crlf_offset (c # d # xs) = (if c = CR \<and> d = LF then 0 else Suc (crlf_offset (d # xs)))"

text \<open>
  The search range must be a valid one. The result is compared with the end of the storage, not
  with the end of the readable bytes. The distance is at most \<open>max_size\<close>, so adding 2 never wraps.
\<close>

definition Buffer_ReadByLine :: "buffer \<Rightarrow> (string \<times> buffer) outcome" where
  "Buffer_ReadByLine b =
     check (bf_read_index b \<le> bf_write_index b \<and> bf_write_index b \<le> length (bf_buffer b)) BadAccess
       (let res = bf_read_index b + crlf_offset (slice (bf_read_index b) (bf_write_index b) (bf_buffer b))
        in if res = length (bf_buffer b) then Inr (kCRLF, b)
           else Inr (slice (bf_read_index b) res (bf_buffer b), b\<lparr>bf_read_index := res + 2\<rparr>))"

definition Buffer_Append :: "char list \<Rightarrow> nat \<Rightarrow> buffer \<Rightarrow> buffer outcome" where
  "Buffer_Append data len b =
     obind (if Buffer_WriteableBytes b < len
            then obind (vector_resize (sz_add (sz_mul (length (bf_buffer b)) 2) len) (bf_buffer b))
                   (\<lambda>d. Inr (b\<lparr>bf_buffer := d\<rparr>))
            else Inr b) (\<lambda>b1.
       check (len < Buffer_WriteableBytes b1) AssertFailed
         (check (len \<le> length data) BadAccess
            (obind (store_block (bf_write_index b1) (take len data) (bf_buffer b1)) (\<lambda>d.
               Inr (b1\<lparr>bf_buffer := d\<rparr>)))))"

text \<open>
  \<open>ReadFd\<close>: the kernel's \<open>readv\<close> fails (\<open>None\<close>) or delivers bytes, first into the free space of the
  buffer, then into \<open>extrabuf\<close>. The free space is held in an \<open>int\<close>.
\<close>

definition Buffer_ReadFd :: "char list option \<Rightarrow> buffer \<Rightarrow> (int \<times> buffer) outcome" where
  "Buffer_ReadFd rd b =
     (let space = to_int32 (Buffer_WriteableBytes b) in
      case rd of
        None \<Rightarrow> Inr (-1, b)
      | Some data \<Rightarrow>
          obind (store_block (bf_write_index b) (take (to_size space) data) (bf_buffer b)) (\<lambda>d.
            if length data \<le> to_size space
            then Inr (int (length data),
                      b\<lparr>bf_buffer := d, bf_write_index := sz_add (bf_write_index b) (length data)\<rparr>)
            else obind (Buffer_Append (drop (to_size space) data) (sz_sub (length data) (to_size space))
                          (b\<lparr>bf_buffer := d, bf_write_index := sz_add (bf_write_index b) (to_size space)\<rparr>))
                   (\<lambda>b1. Inr (int (length data), b1))))"

text \<open>\<open>WriteFd\<close>: \<open>n\<close> is what \<open>write\<close> returned for the readable bytes.\<close>

definition Buffer_WriteFd :: "int \<Rightarrow> buffer \<Rightarrow> (int \<times> buffer) outcome" where
  "Buffer_WriteFd n b =
     check (bf_read_index b \<le> bf_write_index b \<and> bf_write_index b \<le> length (bf_buffer b)) BadAccess
       (if 0 < n
        then (let b1 = b\<lparr>bf_read_index := sz_add (bf_read_index b) (nat n)\<rparr>
              in if bf_read_index b1 = bf_write_index b1 then Inr (n, Buffer_Reset b1) else Inr (n, b1))
        else Inr (n, b))"

definition Buffer_Print :: "buffer \<Rightarrow> string" where
  "Buffer_Print b = slice (bf_read_index b) (bf_write_index b) (bf_buffer b)"

section \<open>Abstraction and invariant\<close>

definition bf_contents :: "buffer \<Rightarrow> char list" where
  "bf_contents b = slice (bf_read_index b) (bf_write_index b) (bf_buffer b)"

definition bf_invar :: "buffer \<Rightarrow> bool" where
  "bf_invar b \<longleftrightarrow> bf_read_index b \<le> bf_write_index b \<and> bf_write_index b \<le> length (bf_buffer b) \<and>
     length (bf_buffer b) < 2 ^ 31"

definition bf_produce :: "char list \<Rightarrow> buffer \<Rightarrow> buffer outcome" where
  "bf_produce xs b = obind (Buffer_ReadFd (Some xs) b) (\<lambda>(n, b1). Inr b1)"

definition bf_consume :: "nat \<Rightarrow> buffer \<Rightarrow> buffer outcome" where
  "bf_consume n b = obind (Buffer_WriteFd (int n) b) (\<lambda>(k, b1). Inr b1)"

section \<open>Helper lemmas\<close>

lemma bf_sizes:
  assumes "bf_invar b"
  shows "Buffer_ReadableBytes b = bf_write_index b - bf_read_index b"
    and "Buffer_WriteableBytes b = length (bf_buffer b) - bf_write_index b"
    and "to_size (to_int32 (Buffer_WriteableBytes b)) = length (bf_buffer b) - bf_write_index b"
proof -
  note i = assms [unfolded bf_invar_def]
  show "Buffer_ReadableBytes b = bf_write_index b - bf_read_index b"
    using i by (simp add: Buffer_ReadableBytes_def sz_sub_id)
  show wr: "Buffer_WriteableBytes b = length (bf_buffer b) - bf_write_index b"
    using i by (simp add: Buffer_WriteableBytes_def sz_sub_id)
  have "length (bf_buffer b) - bf_write_index b < 2 ^ 31" using i by linarith
  then show "to_size (to_int32 (Buffer_WriteableBytes b)) = length (bf_buffer b) - bf_write_index b"
    unfolding wr by (simp only: to_int32_id) (simp add: to_size_int)
qed

lemma length_bf_contents [simp]: "bf_invar b \<Longrightarrow> length (bf_contents b) = Buffer_ReadableBytes b"
  by (simp add: bf_contents_def bf_invar_def bf_sizes(1))

lemma bf_contents_block:
  assumes "bf_read_index b \<le> bf_write_index b" "bf_write_index b + length xs \<le> length (bf_buffer b)"
    and "store_block (bf_write_index b) xs (bf_buffer b) = Inr d"
  shows "slice (bf_read_index b) (bf_write_index b) d = bf_contents b"
    and "slice (bf_read_index b) (bf_write_index b + length xs) d = bf_contents b @ xs"
proof -
  have d: "d = take (bf_write_index b) (bf_buffer b) @ xs @ drop (bf_write_index b + length xs) (bf_buffer b)"
    using assms by (simp add: store_block_def)
  show 1: "slice (bf_read_index b) (bf_write_index b) d = bf_contents b"
    unfolding d bf_contents_def using assms(2) by (intro slice_before_block) simp_all
  have "slice (bf_write_index b) (bf_write_index b + length xs) d = xs"
    unfolding d using assms(2) by (intro slice_block) simp
  with 1 show "slice (bf_read_index b) (bf_write_index b + length xs) d = bf_contents b @ xs"
    using assms(1) by (subst slice_split [of _ "bf_write_index b"]) simp_all
qed

lemma bf_read_fits:
  assumes inv: "bf_invar b" and fits: "length data \<le> Buffer_WriteableBytes b"
  shows "\<exists>b'. Buffer_ReadFd (Some data) b = Inr (int (length data), b') \<and> bf_invar b' \<and>
           bf_contents b' = bf_contents b @ data"
proof -
  note i = inv [unfolded bf_invar_def]
  have le: "bf_write_index b + length data \<le> length (bf_buffer b)"
    using fits i bf_sizes(2) [OF inv] by linarith
  then obtain d where d: "store_block (bf_write_index b) data (bf_buffer b) = Inr d"
    by (simp add: store_block_def)
  let ?b = "b\<lparr>bf_buffer := d, bf_write_index := bf_write_index b + length data\<rparr>"
  have "sz_add (bf_write_index b) (length data) = bf_write_index b + length data"
    using le i by (intro sz_add_id) simp
  then have "Buffer_ReadFd (Some data) b = Inr (int (length data), ?b)"
    using fits d by (simp add: Buffer_ReadFd_def Let_def bf_sizes(3) [OF inv] flip: bf_sizes(2) [OF inv])
  moreover have "bf_invar ?b" using i le length_store_block [OF d] by (simp add: bf_invar_def)
  moreover have "bf_contents ?b = bf_contents b @ data"
    using bf_contents_block(2) [OF _ le d] i by (simp add: bf_contents_def)
  ultimately show ?thesis by blast
qed

lemma bf_write:
  assumes inv: "bf_invar b" and n: "n \<le> Buffer_ReadableBytes b"
  shows "\<exists>b'. Buffer_WriteFd (int n) b = Inr (int n, b') \<and> bf_invar b' \<and> bf_contents b' = drop n (bf_contents b)"
proof -
  note i = inv [unfolded bf_invar_def]
  have le: "bf_read_index b + n \<le> bf_write_index b" using n i bf_sizes(1) [OF inv] by linarith
  then have add: "sz_add (bf_read_index b) n = bf_read_index b + n" using i by (intro sz_add_id) simp
  let ?b = "b\<lparr>bf_read_index := bf_read_index b + n\<rparr>"
  have c: "bf_contents ?b = drop n (bf_contents b)" using le by (simp add: bf_contents_def slice_drop)
  consider "n = 0" | "0 < n" "bf_read_index b + n = bf_write_index b" | "0 < n" "bf_read_index b + n \<noteq> bf_write_index b"
    by blast
  then show ?thesis
  proof cases
    case 2
    then have "drop n (bf_contents b) = []" using inv by (simp add: bf_sizes(1) [OF inv])
    with 2 show ?thesis using i add
      by (simp add: Buffer_WriteFd_def Buffer_Reset_def bf_invar_def bf_contents_def)
  qed (use i add c le in \<open>simp_all add: Buffer_WriteFd_def bf_invar_def\<close>)
qed

interpretation linear: byte_fifo bf_contents bf_invar bf_consume Buffer_WriteableBytes bf_produce
proof unfold_locales
  fix q n assume "bf_invar q" "n \<le> length (bf_contents q)"
  then show "\<exists>q'. bf_consume n q = Inr q' \<and> bf_invar q' \<and> bf_contents q' = drop n (bf_contents q)"
    using bf_write [of q n] by (auto simp: bf_consume_def)
next
  fix q and xs :: "char list" assume "bf_invar q" "length xs \<le> Buffer_WriteableBytes q"
  then show "\<exists>q'. bf_produce xs q = Inr q' \<and> bf_invar q' \<and> bf_contents q' = bf_contents q @ xs"
    using bf_read_fits [of q xs] by (auto simp: bf_produce_def)
qed

lemma bf_new:
  assumes "n < 2 ^ 31"
  shows "Buffer_new n = Inr \<lparr>bf_buffer = replicate n NUL, bf_read_index = 0, bf_write_index = 0\<rparr>"
    and "bf_invar \<lparr>bf_buffer = replicate n NUL, bf_read_index = 0, bf_write_index = 0\<rparr>"
    and "bf_contents \<lparr>bf_buffer = replicate n NUL, bf_read_index = 0, bf_write_index = 0\<rparr> = []"
  using assms by (simp_all add: Buffer_new_def Buffer_ReadableBytes_def Buffer_WriteableBytes_def sz_sub_id
      bf_invar_def bf_contents_def)

text \<open>Where the search stops.\<close>

lemma crlf_offset_le: "crlf_offset xs \<le> length xs"
  by (induction xs rule: crlf_offset.induct) auto

lemma crlf_offset_Cons: "c \<noteq> CR \<Longrightarrow> crlf_offset (c # xs) = Suc (crlf_offset xs)"
  by (cases xs) auto

lemma crlf_offset_found: "CR \<notin> set xs \<Longrightarrow> crlf_offset (xs @ CR # LF # ys) = length xs"
  by (induction xs) (auto simp: crlf_offset_Cons)

lemma crlf_offset_none: "CR \<notin> set xs \<Longrightarrow> crlf_offset xs = length xs"
  by (induction xs) (auto simp: crlf_offset_Cons)

lemma crlf_offset_less:
  "crlf_offset xs < length xs \<Longrightarrow> xs = take (crlf_offset xs) xs @ CR # LF # drop (crlf_offset xs + 2) xs"
  by (induction xs rule: crlf_offset.induct) (auto split: if_splits)

text \<open>\<open>Append\<close> never moves the write index, so the readable bytes stay what they were.\<close>

lemma bf_append_fits:
  assumes inv: "bf_invar b" and data: "len \<le> length data" and room: "len < Buffer_WriteableBytes b"
  shows "\<exists>b'. Buffer_Append data len b = Inr b' \<and> bf_invar b' \<and> bf_contents b' = bf_contents b \<and>
    bf_write_index b' = bf_write_index b"
proof -
  note i = inv [unfolded bf_invar_def]
  have le: "bf_write_index b + length (take len data) \<le> length (bf_buffer b)"
    using data room i bf_sizes(2) [OF inv] by simp
  then obtain d where d: "store_block (bf_write_index b) (take len data) (bf_buffer b) = Inr d"
    by (simp add: store_block_def)
  have "Buffer_Append data len b = Inr (b\<lparr>bf_buffer := d\<rparr>)"
    using data room d by (simp add: Buffer_Append_def)
  moreover have "bf_invar (b\<lparr>bf_buffer := d\<rparr>)"
    using inv length_store_block [OF d] by (simp add: bf_invar_def)
  moreover have "bf_contents (b\<lparr>bf_buffer := d\<rparr>) = bf_contents b"
    using bf_contents_block(1) [OF _ le d] i by (simp add: bf_contents_def)
  ultimately show ?thesis by simp
qed

lemma bf_append:
  assumes inv: "bf_invar b" and data: "len \<le> length data" and size: "2 * length (bf_buffer b) + len < 2 ^ 31"
    and room: "len \<noteq> Buffer_WriteableBytes b" "bf_buffer b \<noteq> []"
  shows "\<exists>b'. Buffer_Append data len b = Inr b' \<and> bf_invar b' \<and> bf_contents b' = bf_contents b \<and>
    bf_write_index b' = bf_write_index b"
proof (cases "len < Buffer_WriteableBytes b")
  case True
  with bf_append_fits [OF inv data] show ?thesis by blast
next
  case False
  note i = inv [unfolded bf_invar_def]
  let ?b1 = "b\<lparr>bf_buffer := bf_buffer b @ replicate (length (bf_buffer b) + len) NUL\<rparr>"
  have inv1: "bf_invar ?b1" using i size by (simp add: bf_invar_def)
  have "0 < length (bf_buffer b)" using room by simp
  then have "len < length (bf_buffer b) + (length (bf_buffer b) + len) - bf_write_index b"
    using i by linarith
  then have less: "len < Buffer_WriteableBytes ?b1" using bf_sizes(2) [OF inv1] by simp
  have "Buffer_Append data len b = Buffer_Append data len ?b1"
    using False room(1) less size by (simp add: Buffer_Append_def vector_resize_def size_simps mult.commute)
  moreover have "bf_contents ?b1 = bf_contents b" using i by (simp add: bf_contents_def slice_append_left)
  ultimately show ?thesis using bf_append_fits [OF inv1 data less] by simp
qed

text \<open>After an overflowing \<open>readv\<close> the storage is full and \<open>Append\<close> takes its growth branch.\<close>

lemma bf_read_overflow:
  assumes inv: "bf_invar b" and over: "Buffer_WriteableBytes b < length data"
    and size: "bf_buffer b \<noteq> []" "2 * length (bf_buffer b) + length data < 2 ^ 31"
  shows "\<exists>b'. Buffer_ReadFd (Some data) b = Inr (int (length data), b') \<and> bf_invar b' \<and>
    bf_contents b' = bf_contents b @ take (Buffer_WriteableBytes b) data"
proof -
  note i = inv [unfolded bf_invar_def]
  let ?s = "length (bf_buffer b) - bf_write_index b"
  have s: "Buffer_WriteableBytes b = ?s" by (rule bf_sizes(2) [OF inv])
  have len: "length (take ?s data) = ?s" using over s by simp
  then have le: "bf_write_index b + length (take ?s data) \<le> length (bf_buffer b)" using i by linarith
  then obtain d where d: "store_block (bf_write_index b) (take ?s data) (bf_buffer b) = Inr d"
    by (simp add: store_block_def)
  let ?b1 = "b\<lparr>bf_buffer := d, bf_write_index := bf_write_index b + ?s\<rparr>"
  have inv1: "bf_invar ?b1" using i length_store_block [OF d] by (simp add: bf_invar_def)
  have c1: "bf_contents ?b1 = bf_contents b @ take ?s data"
    using bf_contents_block(2) [OF _ le d] i len by (simp add: bf_contents_def)
  have w1: "Buffer_WriteableBytes ?b1 = 0"
    using bf_sizes(2) [OF inv1] length_store_block [OF d] i by simp
  have fit: "2 * length d + (length data - ?s) < 2 ^ 31"
    using length_store_block [OF d] size by linarith
  have "d \<noteq> []" using length_store_block [OF d] size by auto
  then obtain b2 where b2: "Buffer_Append (drop ?s data) (length data - ?s) ?b1 = Inr b2" "bf_invar b2"
    "bf_contents b2 = bf_contents ?b1"
    using bf_append [OF inv1, of "length data - ?s" "drop ?s data"] fit w1 over s size
      length_store_block [OF d] by auto
  have "sz_add (bf_write_index b) ?s = bf_write_index b + ?s"
    using i by (intro sz_add_id) simp
  moreover have "sz_sub (length data) ?s = length data - ?s"
    using over s size by (intro sz_sub_id) simp_all
  moreover have "\<not> length data \<le> ?s" using over s by simp
  ultimately have "Buffer_ReadFd (Some data) b = Inr (int (length data), b2)"
    using d b2(1) by (simp add: Buffer_ReadFd_def Let_def bf_sizes(3) [OF inv])
  with b2 c1 s show ?thesis by simp
qed

section \<open>Properties\<close>

text \<open>\<open>ReadFd\<close> reports the number of bytes the kernel delivered, but only the bytes that fit in the
  free space become readable: what \<open>readv\<close> put into \<open>extrabuf\<close> is lost.\<close>

theorem Buffer_ReadFd_keeps_only_free_space:
  assumes "bf_invar b" and "bf_buffer b \<noteq> []" and "2 * length (bf_buffer b) + length data < 2 ^ 31"
  shows "\<exists>b'. Buffer_ReadFd (Some data) b = Inr (int (length data), b') \<and> bf_invar b' \<and>
    bf_contents b' = bf_contents b @ take (Buffer_WriteableBytes b) data"
  using bf_read_fits [OF assms(1), of data] bf_read_overflow [OF assms(1) _ assms(2,3)]
  by (cases "length data \<le> Buffer_WriteableBytes b") auto

theorem Buffer_ReadFd_keeps_only_free_space_witness:
  "let b = \<lparr>bf_buffer = ''ab..'', bf_read_index = 1, bf_write_index = 2\<rparr> in
   \<exists>b'. Buffer_ReadFd (Some ''cdef'') b = Inr (int (length ''cdef''), b') \<and> bf_invar b' \<and>
    bf_contents b' = bf_contents b @ take (Buffer_WriteableBytes b) ''cdef''"
  unfolding Let_def by (rule Buffer_ReadFd_keeps_only_free_space; code_simp)

text \<open>\<open>Append\<close> does not advance the write index, so it never changes the readable bytes; and it
  aborts when the data exactly fills the free space, because the assertion is strict.\<close>

theorem Buffer_Append_branches:
  assumes "bf_invar b" and "bf_buffer b \<noteq> []" and "len \<le> length data"
    and "2 * length (bf_buffer b) + len < 2 ^ 31"
  shows "if len = Buffer_WriteableBytes b then Buffer_Append data len b = Inl AssertFailed
    else \<exists>b'. Buffer_Append data len b = Inr b' \<and> bf_invar b' \<and> bf_contents b' = bf_contents b"
proof (cases "len = Buffer_WriteableBytes b")
  case True
  then show ?thesis by (simp add: Buffer_Append_def)
next
  case False
  with bf_append [OF assms(1,3,4)] assms(2) show ?thesis by auto
qed

theorem Buffer_Append_branches_witness:
  "let b = \<lparr>bf_buffer = ''ab..'', bf_read_index = 0, bf_write_index = 2\<rparr> in
   (if 2 = Buffer_WriteableBytes b then Buffer_Append ''cd'' 2 b = Inl AssertFailed
    else \<exists>b'. Buffer_Append ''cd'' 2 b = Inr b' \<and> bf_invar b' \<and> bf_contents b' = bf_contents b)"
  unfolding Let_def by (rule Buffer_Append_branches; code_simp)

text \<open>\<open>ReadByLine\<close> on its three branches: a readable CR LF ends the line and is consumed with it; with
  no CR LF and a full storage the marker string is returned and nothing moves; with no CR LF and any
  free space the unfinished line is returned as if it were complete and the read index passes the
  write index by two.\<close>

theorem Buffer_ReadByLine_branches:
  assumes "bf_invar b"
  defines "k \<equiv> crlf_offset (bf_contents b)"
  shows "\<exists>line b'. Buffer_ReadByLine b = Inr (line, b') \<and>
    (if k < length (bf_contents b)
     then line = take k (bf_contents b) \<and> bf_contents b = line @ kCRLF @ bf_contents b' \<and> bf_invar b'
     else if bf_write_index b = length (bf_buffer b) then line = kCRLF \<and> b' = b
     else line = bf_contents b \<and> b' = b\<lparr>bf_read_index := bf_write_index b + 2\<rparr>)"
proof -
  note i = assms(1) [unfolded bf_invar_def]
  let ?r = "bf_read_index b" and ?w = "bf_write_index b"
  have len: "length (bf_contents b) = ?w - ?r" using assms(1) by (simp add: bf_sizes(1))
  have k: "k \<le> ?w - ?r" using crlf_offset_le [of "bf_contents b"] len by (simp add: k_def)
  then have kw: "?r + k \<le> ?w" using i by linarith
  have off: "crlf_offset (slice ?r ?w (bf_buffer b)) = k" by (simp add: k_def bf_contents_def)
  have run: "Buffer_ReadByLine b =
      (if ?r + k = length (bf_buffer b) then Inr (kCRLF, b)
       else Inr (slice ?r (?r + k) (bf_buffer b), b\<lparr>bf_read_index := ?r + k + 2\<rparr>))"
    using i by (simp add: Buffer_ReadByLine_def Let_def off del: add_2_eq_Suc')
  have sl: "slice ?r (?r + k) (bf_buffer b) = take k (bf_contents b)"
    unfolding bf_contents_def using kw by (rule slice_take)
  show ?thesis
  proof (cases "k < length (bf_contents b)")
    case True
    have split: "bf_contents b = take k (bf_contents b) @ CR # LF # drop (k + 2) (bf_contents b)"
      using crlf_offset_less [of "bf_contents b"] True by (simp add: k_def)
    then have "length (bf_contents b) = k + 2 + length (drop (k + 2) (bf_contents b))"
      using True by (metis (no_types, lifting) add_2_eq_Suc' add_Suc_right add_Suc_shift length_Cons length_append
          length_take less_imp_le min_absorb2)
    then have le: "?r + (k + 2) \<le> ?w" using len i by linarith
    then have "bf_contents (b\<lparr>bf_read_index := ?r + k + 2\<rparr>) = drop (k + 2) (bf_contents b)"
      using slice_drop [OF le, of "bf_buffer b"] by (simp add: bf_contents_def add.assoc)
    moreover have "?r + k \<noteq> length (bf_buffer b)" using le i by linarith
    ultimately show ?thesis using True run sl split le i by (simp add: bf_invar_def kCRLF_def)
  next
    case False
    then have "?r + k = ?w" using k len i by linarith
    with False run sl len i show ?thesis by simp
  qed
qed

theorem Buffer_ReadByLine_branches_witness:
  "let b = \<lparr>bf_buffer = ''ab'' @ [CR, LF] @ ''c..'', bf_read_index = 0, bf_write_index = 5\<rparr>;
       k = crlf_offset (bf_contents b) in
   k = 2 \<and> (\<exists>line b'. Buffer_ReadByLine b = Inr (line, b') \<and>
    (if k < length (bf_contents b)
     then line = take k (bf_contents b) \<and> bf_contents b = line @ kCRLF @ bf_contents b' \<and> bf_invar b'
     else if bf_write_index b = length (bf_buffer b) then line = kCRLF \<and> b' = b
     else line = bf_contents b \<and> b' = b\<lparr>bf_read_index := bf_write_index b + 2\<rparr>))"
  unfolding Let_def by (rule conjI, code_simp, rule Buffer_ReadByLine_branches; code_simp)



end
