(* ===== verification/Http_Request.thy ===== *)
theory Http_Request
  imports Net_Buffer Std_Map Text_Format
begin

text \<open>
  \<open>HttpRequest\<close> (include/HttpRequest.h): the line-driven parser over a connection's input buffer.
  The loop of \<open>ParseRequest\<close> is proved to end because every line moves the read index; its result
  is given for well-formed \<open>GET\<close> requests and for the inputs on which it leaves defined behaviour.
\<close>

section \<open>The class\<close>

datatype parse_state = PARSE_REQUESTLINE | PARSE_HEADER | PARSE_BODY | PARSE_COMPLETE

datatype line_status = LINE_OK | LINE_BAD | LINE_OPEN

datatype http_code = NO_REQUEST | GOOD_REQUEST | BAD_REQUEST | FORBIDDEN_REQUEST | INTERNAL_ERROR | CLOSED_CONNECTION

record http_request =
  hr_line_buf :: string
  hr_parse_state :: parse_state
  hr_method :: string
  hr_path :: string
  hr_version :: string
  hr_headers :: "(string, string) std_map"
  hr_body :: string

text \<open>A request with static storage duration is zero-initialised.\<close>

definition HttpRequest_zero :: http_request where
  "HttpRequest_zero = \<lparr>hr_line_buf = [], hr_parse_state = PARSE_REQUESTLINE, hr_method = [], hr_path = [],
     hr_version = [], hr_headers = [], hr_body = []\<rparr>"

definition HttpRequest_ParseLine :: "buffer \<Rightarrow> http_request \<Rightarrow> (line_status \<times> buffer \<times> http_request) outcome" where
  "HttpRequest_ParseLine b r =
     obind (Buffer_ReadByLine b) (\<lambda>(line, b1).
       let r1 = r\<lparr>hr_line_buf := line\<rparr>
       in Inr (if hr_line_buf r1 \<noteq> kCRLF then LINE_OK else LINE_OPEN, b1, r1))"

text \<open>
  \<open>operator>>\<close> into a string: skip white space; at the end of the input the extraction fails and
  leaves the old value in place.
\<close>

definition istream_extract :: "string \<Rightarrow> string \<Rightarrow> string \<times> string" where
  "istream_extract input old =
     (let rest = dropWhile is_space input
      in if rest = [] then (old, [])
         else (takeWhile (\<lambda>c. \<not> is_space c) rest, dropWhile (\<lambda>c. \<not> is_space c) rest))"

definition HttpRequest_ParseRequestLine :: "string \<Rightarrow> http_request \<Rightarrow> http_request" where
  "HttpRequest_ParseRequestLine line r =
     (let (m, s1) = istream_extract line (hr_method r);
          (p, s2) = istream_extract s1 (hr_path r);
          (v, s3) = istream_extract s2 (hr_version r)
      in r\<lparr>hr_method := m, hr_path := p, hr_version := v, hr_parse_state := PARSE_HEADER\<rparr>)"

text \<open>\<open>std::string::find\<close> and \<open>substr\<close>; \<open>npos\<close> is the largest \<open>size_t\<close>.\<close>

definition npos :: nat where "npos = 2 ^ 64 - 1"

definition string_find :: "char \<Rightarrow> string \<Rightarrow> nat" where
  "string_find c s = (if c \<in> set s then length (takeWhile (\<lambda>x. x \<noteq> c) s) else npos)"

definition string_substr :: "nat \<Rightarrow> nat \<Rightarrow> string \<Rightarrow> string outcome" where
  "string_substr pos n s = (if length s < pos then Inl OutOfRange else Inr (take n (drop pos s)))"

definition HttpRequest_ParseHeaders :: "string \<Rightarrow> http_request \<Rightarrow> http_request outcome" where
  "HttpRequest_ParseHeaders line r =
     (if length line = 0 then
        Inr (if hr_method r = ''GET'' then r\<lparr>hr_parse_state := PARSE_COMPLETE\<rparr>
             else if hr_method r = ''POST'' then r\<lparr>hr_parse_state := PARSE_BODY\<rparr>
             else r)
      else
        let pos = to_int32 (string_find (CHR '':'') line) in
        check (pos + 2 \<le> int int_max) SignedOverflow
          (obind (string_substr 0 (to_size pos) line) (\<lambda>key.
           obind (string_substr (to_size (pos + 2)) npos line) (\<lambda>val.
             Inr (r\<lparr>hr_headers := map_insert key val (hr_headers r)\<rparr>)))))"

definition HttpRequest_ParseBody :: "string \<Rightarrow> http_request \<Rightarrow> http_request" where
  "HttpRequest_ParseBody line r = r\<lparr>hr_parse_state := PARSE_COMPLETE\<rparr>"

lemma ParseLine_decreases:
  assumes "HttpRequest_ParseLine b r = Inr (LINE_OK, b1, r1)"
  shows "bf_write_index b1 + 3 - bf_read_index b1 < bf_write_index b + 3 - bf_read_index b"
  using assms by (auto simp: HttpRequest_ParseLine_def Buffer_ReadByLine_def Let_def outcome_simps
      split: if_splits prod.splits)

function HttpRequest_ParseRequest :: "buffer \<Rightarrow> http_request \<Rightarrow> (http_code \<times> buffer \<times> http_request) outcome" where
  "HttpRequest_ParseRequest b r =
     (case HttpRequest_ParseLine b r of
        Inl e \<Rightarrow> Inl e
      | Inr (LINE_OK, b1, r1) \<Rightarrow>
          (case hr_parse_state r1 of
             PARSE_REQUESTLINE \<Rightarrow> HttpRequest_ParseRequest b1 (HttpRequest_ParseRequestLine (hr_line_buf r1) r1)
           | PARSE_HEADER \<Rightarrow>
               (case HttpRequest_ParseHeaders (hr_line_buf r1) r1 of
                  Inl e \<Rightarrow> Inl e
                | Inr r2 \<Rightarrow> HttpRequest_ParseRequest b1 r2)
           | PARSE_BODY \<Rightarrow> HttpRequest_ParseRequest b1 r1
           | PARSE_COMPLETE \<Rightarrow> Inr (GOOD_REQUEST, b1, r1))
      | Inr (LINE_OPEN, b1, r1) \<Rightarrow> Inr (NO_REQUEST, b1, r1)
      | Inr (LINE_BAD, b1, r1) \<Rightarrow> Inr (BAD_REQUEST, b1, r1))"
  by pat_completeness auto
termination
  by (relation "measure (\<lambda>(b, r). bf_write_index b + 3 - bf_read_index b)") (auto dest: ParseLine_decreases)

declare HttpRequest_ParseRequest.simps [simp del]

definition HttpRequest_Reset :: "http_request \<Rightarrow> http_request" where
  "HttpRequest_Reset r = r\<lparr>hr_parse_state := PARSE_REQUESTLINE, hr_headers := []\<rparr>"

definition HttpRequest_ParseState :: "http_request \<Rightarrow> bool" where
  "HttpRequest_ParseState r = (if hr_parse_state r = PARSE_COMPLETE then True else False)"

definition HttpRequest_toString :: "http_request \<Rightarrow> string" where
  "HttpRequest_toString r =
     ''Method:'' @ hr_method r @ [LF] @ ''Path:'' @ hr_path r @ [LF] @
     ''HTTP Version:'' @ hr_version r @ [LF] @ ''Headers:'' @ [LF] @
     concat (map (\<lambda>(k, v). k @ '':'' @ v @ [LF]) (hr_headers r)) @
     ''Request Body:'' @ [LF] @ hr_body r @ [LF]"

section \<open>One line at a time\<close>

lemma ParseLine_found:
  assumes inv: "bf_invar b" and c: "bf_contents b = l @ CR # LF # rest" and l: "CR \<notin> set l"
  shows "\<exists>b1. HttpRequest_ParseLine b r = Inr (LINE_OK, b1, r\<lparr>hr_line_buf := l\<rparr>) \<and> bf_invar b1 \<and>
    bf_contents b1 = rest \<and> bf_buffer b1 = bf_buffer b \<and> bf_write_index b1 = bf_write_index b"
proof -
  note i = inv [unfolded bf_invar_def]
  let ?r = "bf_read_index b" and ?w = "bf_write_index b"
  have k: "crlf_offset (slice ?r ?w (bf_buffer b)) = length l"
    using c crlf_offset_found [OF l, of rest] by (simp add: bf_contents_def)
  have "length (bf_contents b) = ?w - ?r" using inv by (simp add: bf_sizes(1))
  then have le: "?r + (length l + 2) \<le> ?w" using c i by simp
  have sl: "slice ?r (?r + length l) (bf_buffer b) = l"
    using slice_take [of ?r "length l" ?w "bf_buffer b"] le c by (simp add: bf_contents_def)
  let ?b1 = "b\<lparr>bf_read_index := ?r + length l + 2\<rparr>"
  have "Buffer_ReadByLine b = Inr (l, ?b1)"
    using i le by (simp add: Buffer_ReadByLine_def Let_def k sl)
  moreover have "l \<noteq> kCRLF" using l by (auto simp: kCRLF_def)
  moreover have "bf_contents ?b1 = rest"
    using slice_drop [OF le, of "bf_buffer b"] c by (simp add: bf_contents_def add.assoc)
  moreover have "bf_invar ?b1" using i le by (simp add: bf_invar_def)
  ultimately show ?thesis by (simp add: HttpRequest_ParseLine_def Let_def)
qed

text \<open>Without a CR LF and with free space the rest is taken for a line and the indices cross.\<close>

lemma ParseLine_unfinished:
  assumes inv: "bf_invar b" and c: "CR \<notin> set (bf_contents b)" and free: "bf_write_index b \<noteq> length (bf_buffer b)"
  shows "HttpRequest_ParseLine b r =
    Inr (LINE_OK, b\<lparr>bf_read_index := bf_write_index b + 2\<rparr>, r\<lparr>hr_line_buf := bf_contents b\<rparr>)"
proof -
  note i = inv [unfolded bf_invar_def]
  let ?r = "bf_read_index b" and ?w = "bf_write_index b"
  have len: "length (slice ?r ?w (bf_buffer b)) = ?w - ?r" using i by simp
  have k: "crlf_offset (slice ?r ?w (bf_buffer b)) = ?w - ?r"
    using crlf_offset_none [OF c] len by (simp add: bf_contents_def)
  have "Buffer_ReadByLine b = Inr (bf_contents b, b\<lparr>bf_read_index := ?w + 2\<rparr>)"
    using i free by (simp add: Buffer_ReadByLine_def Let_def k bf_contents_def)
  moreover have "bf_contents b \<noteq> kCRLF" using c by (auto simp: kCRLF_def)
  ultimately show ?thesis by (simp add: HttpRequest_ParseLine_def Let_def)
qed

lemma ParseLine_full:
  assumes inv: "bf_invar b" and c: "bf_contents b = []" and full: "bf_write_index b = length (bf_buffer b)"
  shows "HttpRequest_ParseLine b r = Inr (LINE_OPEN, b, r\<lparr>hr_line_buf := kCRLF\<rparr>)"
proof -
  have "bf_read_index b = bf_write_index b"
    using c inv length_bf_contents [OF inv] by (simp add: bf_sizes(1) bf_invar_def)
  then show ?thesis using full by (simp add: HttpRequest_ParseLine_def Buffer_ReadByLine_def Let_def)
qed

lemma ParseLine_crossed:
  "bf_write_index b < bf_read_index b \<Longrightarrow> HttpRequest_ParseLine b r = Inl BadAccess"
  by (simp add: HttpRequest_ParseLine_def Buffer_ReadByLine_def)

lemma ParseRequest_crossed:
  "bf_write_index b < bf_read_index b \<Longrightarrow> HttpRequest_ParseRequest b r = Inl BadAccess"
  by (simp add: HttpRequest_ParseRequest.simps [of b r] ParseLine_crossed)

section \<open>Tokens and headers\<close>

definition token :: "string \<Rightarrow> bool" where
  "token s \<longleftrightarrow> s \<noteq> [] \<and> list_all (\<lambda>c. \<not> is_space c) s"

lemma istream_extract_token:
  assumes "token t" "rest = [] \<or> is_space (hd rest)"
  shows "istream_extract (t @ rest) old = (t, rest)"
  using assms by (cases t; cases rest)
    (auto simp: istream_extract_def token_def list_all_iff takeWhile_append dropWhile_append Let_def)

lemma istream_extract_space:
  "is_space c \<Longrightarrow> istream_extract (c # s) old = istream_extract s old"
  by (simp add: istream_extract_def)

lemma ParseRequestLine_tokens:
  assumes "token m" "token p" "token v"
  shows "HttpRequest_ParseRequestLine (m @ CHR '' '' # p @ CHR '' '' # v) r =
    r\<lparr>hr_method := m, hr_path := p, hr_version := v, hr_parse_state := PARSE_HEADER\<rparr>"
proof -
  have sp: "is_space (CHR '' '')" by (simp add: is_space_def)
  then show ?thesis
    using istream_extract_token [OF assms(1), of "CHR '' '' # p @ CHR '' '' # v"]
      istream_extract_token [OF assms(2), of "CHR '' '' # v"] istream_extract_token [OF assms(3), of "[]"]
    by (simp add: HttpRequest_ParseRequestLine_def Let_def istream_extract_space)
qed

lemma string_find_append: "c \<notin> set k \<Longrightarrow> string_find c (k @ c # xs) = length k"
  by (simp add: string_find_def takeWhile_append)

text \<open>A header line the parser understands: no colon in the key, no line break in either part.\<close>

definition good_header :: "string \<times> string \<Rightarrow> bool" where
  "good_header h \<longleftrightarrow> CHR '':'' \<notin> set (fst h) \<and> CR \<notin> set (fst h) \<and> CR \<notin> set (snd h) \<and> length (fst h) < 2 ^ 31 - 3"

lemma ParseHeaders_good:
  assumes "good_header (k, v)" "length v < 2 ^ 31"
  shows "HttpRequest_ParseHeaders (k @ CHR '':'' # CHR '' '' # v) r =
    Inr (r\<lparr>hr_headers := map_insert k v (hr_headers r)\<rparr>)"
proof -
  have k: "CHR '':'' \<notin> set k" "length k + 2 < 2 ^ 31" using assms by (auto simp: good_header_def)
  then have "to_int32 (length k) = int (length k)" "to_size (int (length k)) = length k"
    "to_size (int (length k) + 2) = length k + 2"
    using to_size_int [of "length k + 2"] by (simp_all add: to_int32_id to_size_int add.commute)
  then show ?thesis using k assms(2)
    by (simp add: HttpRequest_ParseHeaders_def Let_def string_find_append string_substr_def npos_def)
qed

text \<open>A header line that ends at its colon: \<open>substr\<close> is asked for a position behind the end.\<close>

lemma ParseHeaders_no_value:
  assumes "CHR '':'' \<notin> set k" "length k < 2 ^ 31 - 3"
  shows "HttpRequest_ParseHeaders (k @ '':'') r = Inl OutOfRange"
proof -
  have k: "length k + 2 < 2 ^ 31" using assms by simp
  then have "to_int32 (length k) = int (length k)" "to_size (int (length k)) = length k"
    "to_size (int (length k) + 2) = length k + 2"
    using to_size_int [of "length k + 2"] by (simp_all add: to_int32_id to_size_int add.commute)
  then show ?thesis using k assms(1)
    by (simp add: HttpRequest_ParseHeaders_def Let_def string_find_append string_substr_def npos_def)
qed

section \<open>Whole requests\<close>

definition header_line :: "string \<times> string \<Rightarrow> string" where
  "header_line h = fst h @ '': '' @ snd h"

definition header_block :: "(string \<times> string) list \<Rightarrow> string" where
  "header_block hs = concat (map (\<lambda>h. header_line h @ kCRLF) hs)"

definition render_request :: "string \<Rightarrow> string \<Rightarrow> string \<Rightarrow> (string \<times> string) list \<Rightarrow> string" where
  "render_request m p v hs = m @ '' '' @ p @ '' '' @ v @ kCRLF @ header_block hs @ kCRLF"

definition add_headers :: "(string \<times> string) list \<Rightarrow> http_request \<Rightarrow> http_request" where
  "add_headers hs r = r\<lparr>hr_headers := fold (\<lambda>(k, v) m. map_insert k v m) hs (hr_headers r)\<rparr>"

text \<open>The loop walks through the header block, recording each header.\<close>

lemma ParseRequest_headers:
  assumes "bf_invar b" "bf_contents b = header_block hs @ rest" "hr_parse_state r = PARSE_HEADER"
    and "list_all good_header hs"
  shows "\<exists>b1 l. bf_invar b1 \<and> bf_contents b1 = rest \<and> bf_buffer b1 = bf_buffer b \<and>
    bf_write_index b1 = bf_write_index b \<and>
    HttpRequest_ParseRequest b r = HttpRequest_ParseRequest b1 ((add_headers hs r)\<lparr>hr_line_buf := l\<rparr>)"
  using assms
proof (induction hs arbitrary: b r)
  case Nil
  then show ?case by (intro exI [of _ b] exI [of _ "hr_line_buf r"]) (simp add: header_block_def add_headers_def)
next
  case (Cons h hs)
  obtain k v where h: "h = (k, v)" by (cases h)
  let ?l = "k @ CHR '':'' # CHR '' '' # v"
  have good: "good_header (k, v)" using Cons.prems h by simp
  have c: "bf_contents b = ?l @ CR # LF # header_block hs @ rest"
    using Cons.prems(2) by (simp add: header_block_def header_line_def kCRLF_def h)
  have "length (bf_contents b) < 2 ^ 31"
    using Cons.prems(1) by (simp add: bf_sizes(1)) (simp add: bf_invar_def less_imp_diff_less)
  then have v: "length v < 2 ^ 31" using c by simp
  have "CR \<notin> set ?l" using good by (auto simp: good_header_def)
  from ParseLine_found [OF Cons.prems(1) c this, of r] obtain b1 where
    b1: "HttpRequest_ParseLine b r = Inr (LINE_OK, b1, r\<lparr>hr_line_buf := ?l\<rparr>)" "bf_invar b1"
      "bf_contents b1 = header_block hs @ rest" "bf_buffer b1 = bf_buffer b" "bf_write_index b1 = bf_write_index b"
    by blast
  let ?r1 = "r\<lparr>hr_line_buf := ?l, hr_headers := map_insert k v (hr_headers r)\<rparr>"
  have "HttpRequest_ParseRequest b r = HttpRequest_ParseRequest b1 ?r1"
    using Cons.prems(3) b1(1) ParseHeaders_good [OF good v, of "r\<lparr>hr_line_buf := ?l\<rparr>"]
    by (simp add: HttpRequest_ParseRequest.simps [of b r])
  moreover have "hr_parse_state ?r1 = PARSE_HEADER" using Cons.prems(3) by simp
  ultimately show ?case
    using Cons.IH [OF b1(2,3), of ?r1] Cons.prems(4) b1(4,5)
    by (auto simp: h add_headers_def)
qed

text \<open>A blank line after the headers of a \<open>GET\<close>; the next, missing line decides the return code.\<close>

lemma ParseRequest_blank_GET:
  assumes inv: "bf_invar b" and c: "bf_contents b = kCRLF" and r: "hr_parse_state r = PARSE_HEADER" "hr_method r = ''GET''"
  shows "\<exists>b' l. HttpRequest_ParseRequest b r =
    Inr (if bf_write_index b = length (bf_buffer b) then NO_REQUEST else GOOD_REQUEST, b',
         r\<lparr>hr_parse_state := PARSE_COMPLETE, hr_line_buf := l\<rparr>)"
proof -
  have "bf_contents b = [] @ CR # LF # []" using c by (simp add: kCRLF_def)
  from ParseLine_found [OF inv this, of r] obtain b1 where
    b1: "HttpRequest_ParseLine b r = Inr (LINE_OK, b1, r\<lparr>hr_line_buf := []\<rparr>)" "bf_invar b1"
      "bf_contents b1 = []" "bf_buffer b1 = bf_buffer b" "bf_write_index b1 = bf_write_index b"
    by auto
  let ?r1 = "r\<lparr>hr_line_buf := [], hr_parse_state := PARSE_COMPLETE\<rparr>"
  have run: "HttpRequest_ParseRequest b r = HttpRequest_ParseRequest b1 ?r1"
    using r b1(1) by (simp add: HttpRequest_ParseRequest.simps [of b r] HttpRequest_ParseHeaders_def)
  show ?thesis
  proof (cases "bf_write_index b = length (bf_buffer b)")
    case True
    with ParseLine_full [OF b1(2,3), of ?r1] b1(4,5) show ?thesis
      unfolding run by (simp add: HttpRequest_ParseRequest.simps [of b1 ?r1]) blast
  next
    case False
    with ParseLine_unfinished [OF b1(2), of ?r1] b1(3-5) show ?thesis
      unfolding run by (simp add: HttpRequest_ParseRequest.simps [of b1 ?r1]) blast
  qed
qed

lemma token_no_CR: "token s \<Longrightarrow> CR \<notin> set s"
  unfolding token_def list_all_iff by (metis is_space_def)

lemma CR_notin_request_line:
  "token m \<Longrightarrow> token p \<Longrightarrow> token v \<Longrightarrow> CR \<notin> set (m @ CHR '' '' # p @ CHR '' '' # v)"
  by (simp add: token_no_CR)

lemma ParseRequest_request_line:
  assumes inv: "bf_invar b" and c: "bf_contents b = m @ '' '' @ p @ '' '' @ v @ kCRLF @ rest"
    and t: "token m" "token p" "token v" and r: "hr_parse_state r = PARSE_REQUESTLINE"
  shows "\<exists>b1. bf_invar b1 \<and> bf_contents b1 = rest \<and> bf_buffer b1 = bf_buffer b \<and> bf_write_index b1 = bf_write_index b \<and>
    HttpRequest_ParseRequest b r = HttpRequest_ParseRequest b1
      (r\<lparr>hr_line_buf := m @ '' '' @ p @ '' '' @ v, hr_method := m, hr_path := p, hr_version := v,
         hr_parse_state := PARSE_HEADER\<rparr>)"
proof -
  let ?l = "m @ CHR '' '' # p @ CHR '' '' # v"
  have "bf_contents b = ?l @ CR # LF # rest" using c by (simp add: kCRLF_def)
  from ParseLine_found [OF inv this CR_notin_request_line [OF t], of r] show ?thesis
    using r by (auto simp: HttpRequest_ParseRequest.simps [of b r] ParseRequestLine_tokens [OF t])
qed

text \<open>With free space behind the data, no run ends without reaching \<open>PARSE_COMPLETE\<close>.\<close>

lemma take_crlf_offset: "take (crlf_offset xs) xs \<noteq> kCRLF"
proof
  assume eq: "take (crlf_offset xs) xs = kCRLF"
  then have "xs = CR # LF # drop 2 xs"
    by (metis append_Cons append_Nil append_take_drop_id kCRLF_def length_Cons length_take list.size(3)
        min_def numeral_2_eq_2 take_all_iff drop_all nat_le_linear)
  then have "crlf_offset xs = 0" by (metis crlf_offset.simps(3))
  with eq show False by (simp add: kCRLF_def)
qed

lemma ParseLine_free:
  assumes "HttpRequest_ParseLine b r = Inr (st, b1, r1)" "bf_write_index b < length (bf_buffer b)"
  shows "st = LINE_OK" "bf_write_index b1 < length (bf_buffer b1)" "hr_parse_state r1 = hr_parse_state r"
proof -
  let ?c = "slice (bf_read_index b) (bf_write_index b) (bf_buffer b)"
  obtain l where l: "Buffer_ReadByLine b = Inr (l, b1)" "st = (if l \<noteq> kCRLF then LINE_OK else LINE_OPEN)"
    and r1: "r1 = r\<lparr>hr_line_buf := l\<rparr>"
    using assms(1) by (auto simp: HttpRequest_ParseLine_def Let_def outcome_simps)
  from l(1) have i: "bf_read_index b \<le> bf_write_index b"
    by (auto simp: Buffer_ReadByLine_def outcome_simps)
  have "bf_read_index b + crlf_offset ?c \<le> bf_write_index b"
    using crlf_offset_le [of ?c] assms(2) i by simp
  then have "slice (bf_read_index b) (bf_read_index b + crlf_offset ?c) (bf_buffer b) = take (crlf_offset ?c) ?c"
      "bf_read_index b + crlf_offset ?c \<noteq> length (bf_buffer b)"
    using assms(2) by (simp_all add: slice_take)
  with l(1) have "l = take (crlf_offset ?c) ?c" "b1 = b\<lparr>bf_read_index := bf_read_index b + crlf_offset ?c + 2\<rparr>"
    by (simp_all add: Buffer_ReadByLine_def Let_def outcome_simps)
  with l(2) r1 assms(2) take_crlf_offset [of ?c]
  show "st = LINE_OK" "bf_write_index b1 < length (bf_buffer b1)" "hr_parse_state r1 = hr_parse_state r"
    by simp_all
qed

lemma ParseRequest_only_complete:
  assumes "HttpRequest_ParseRequest b r = Inr (code, b', r')"
    and "bf_write_index b < length (bf_buffer b)"
  shows "code = GOOD_REQUEST \<and> hr_parse_state r' = PARSE_COMPLETE"
  using assms
proof (induction b r rule: HttpRequest_ParseRequest.induct)
  case (1 b r)
  from "1.prems"(1) obtain st b1 r1 where line: "HttpRequest_ParseLine b r = Inr (st, b1, r1)"
    by (auto simp: HttpRequest_ParseRequest.simps [of b r] split: sum.splits)
  note free = ParseLine_free [OF line "1.prems"(2)]
  note ok = line [unfolded free(1)]
  show ?case
  proof (cases "hr_parse_state r1")
    case PARSE_REQUESTLINE
    with "1.prems"(1) ok "1.IH"(1) [OF ok refl refl refl PARSE_REQUESTLINE _ free(2)] show ?thesis
      by (simp add: HttpRequest_ParseRequest.simps [of b r])
  next
    case PARSE_HEADER
    with "1.prems"(1) ok obtain r2 where r2: "HttpRequest_ParseHeaders (hr_line_buf r1) r1 = Inr r2"
      by (auto simp: HttpRequest_ParseRequest.simps [of b r] split: sum.splits)
    with PARSE_HEADER "1.prems"(1) ok "1.IH"(2) [OF ok refl refl refl PARSE_HEADER r2 _ free(2)] show ?thesis
      by (simp add: HttpRequest_ParseRequest.simps [of b r])
  next
    case PARSE_BODY
    with "1.prems"(1) ok "1.IH"(3) [OF ok refl refl refl PARSE_BODY _ free(2)] show ?thesis
      by (simp add: HttpRequest_ParseRequest.simps [of b r])
  next
    case PARSE_COMPLETE
    with "1.prems"(1) ok show ?thesis by (auto simp: HttpRequest_ParseRequest.simps [of b r])
  qed
qed

section \<open>Properties\<close>

lemma parse_GET:
  assumes "bf_invar b" and "bf_contents b = render_request ''GET'' p v hs"
    and "token p" and "token v" and "list_all good_header hs" and "hr_parse_state r = PARSE_REQUESTLINE"
  shows "\<exists>b' r'. HttpRequest_ParseRequest b r =
      Inr (if bf_write_index b = length (bf_buffer b) then NO_REQUEST else GOOD_REQUEST, b', r') \<and>
    hr_parse_state r' = PARSE_COMPLETE \<and> hr_method r' = ''GET'' \<and> hr_path r' = p \<and> hr_version r' = v \<and>
    hr_headers r' = fold (\<lambda>(k, x) m. map_insert k x m) hs (hr_headers r)"
proof -
  have get: "token ''GET''" by code_simp
  have "bf_contents b = ''GET'' @ '' '' @ p @ '' '' @ v @ kCRLF @ (header_block hs @ kCRLF)"
    using assms(2) by (simp add: render_request_def)
  from ParseRequest_request_line [OF assms(1) this get assms(3,4,6)] obtain b1 where
    b1: "bf_invar b1" "bf_contents b1 = header_block hs @ kCRLF" "bf_buffer b1 = bf_buffer b"
      "bf_write_index b1 = bf_write_index b" and
    run1: "HttpRequest_ParseRequest b r = HttpRequest_ParseRequest b1
      (r\<lparr>hr_line_buf := ''GET'' @ '' '' @ p @ '' '' @ v, hr_method := ''GET'', hr_path := p, hr_version := v,
         hr_parse_state := PARSE_HEADER\<rparr>)" (is "_ = HttpRequest_ParseRequest b1 ?r1") by blast
  from ParseRequest_headers [OF b1(1,2) _ assms(5), of ?r1] obtain b2 l where
    b2: "bf_invar b2" "bf_contents b2 = kCRLF" "bf_buffer b2 = bf_buffer b1" "bf_write_index b2 = bf_write_index b1" and
    run2: "HttpRequest_ParseRequest b1 ?r1 = HttpRequest_ParseRequest b2 ((add_headers hs ?r1)\<lparr>hr_line_buf := l\<rparr>)"
    by auto
  from ParseRequest_blank_GET [OF b2(1,2), of "(add_headers hs ?r1)\<lparr>hr_line_buf := l\<rparr>"] b1 b2 show ?thesis
    unfolding run1 run2 by (auto simp: add_headers_def)
qed

text \<open>C1: A complete, well-formed \<open>GET\<close> request in the buffer is parsed back into the method, path,
  version and headers it was rendered from, and the parser ends in \<open>PARSE_COMPLETE\<close>. The return code
  is \<open>GOOD_REQUEST\<close> unless the storage is exactly full.\<close>

theorem HttpRequest_parse_render_GET:
  assumes "bf_invar b" and "bf_contents b = render_request ''GET'' p v hs"
    and "token p" and "token v" and "list_all good_header hs" and "hr_parse_state r = PARSE_REQUESTLINE"
  shows "\<exists>b' r'. HttpRequest_ParseRequest b r =
      Inr (if bf_write_index b = length (bf_buffer b) then NO_REQUEST else GOOD_REQUEST, b', r') \<and>
    hr_parse_state r' = PARSE_COMPLETE \<and> hr_method r' = ''GET'' \<and> hr_path r' = p \<and> hr_version r' = v \<and>
    hr_headers r' = fold (\<lambda>(k, x) m. map_insert k x m) hs (hr_headers r)"
  using assms by (rule parse_GET)

theorem HttpRequest_parse_render_GET_witness:
  "let s = render_request ''GET'' ''/i'' ''HTTP/1.1'' [(''Host'', ''a'')];
       b = \<lparr>bf_buffer = s @ ''....'', bf_read_index = 0, bf_write_index = length s\<rparr>
   in \<exists>b' r'. HttpRequest_ParseRequest b HttpRequest_zero =
      Inr (if bf_write_index b = length (bf_buffer b) then NO_REQUEST else GOOD_REQUEST, b', r') \<and>
    hr_parse_state r' = PARSE_COMPLETE \<and> hr_method r' = ''GET'' \<and> hr_path r' = ''/i'' \<and> hr_version r' = ''HTTP/1.1'' \<and>
    hr_headers r' = fold (\<lambda>(k, x) m. map_insert k x m) [(''Host'', ''a'')] (hr_headers HttpRequest_zero)"
  unfolding Let_def by (rule HttpRequest_parse_render_GET; code_simp)

text \<open>A header line that ends at its colon makes \<open>substr\<close> throw \<open>std::out_of_range\<close>, which nothing
  catches: one such line from a client terminates the process, whatever follows it.\<close>

theorem HttpRequest_header_without_value_terminates:
  assumes "bf_invar b" and "bf_contents b = header_block hs @ k @ '':'' @ kCRLF @ rest"
    and "list_all good_header hs" and "good_header (k, [])" and "hr_parse_state r = PARSE_HEADER"
  shows "HttpRequest_ParseRequest b r = Inl OutOfRange"
proof -
  from ParseRequest_headers [OF assms(1,2,5,3)] obtain b1 l where
    b1: "bf_invar b1" "bf_contents b1 = k @ '':'' @ kCRLF @ rest" and
    run: "HttpRequest_ParseRequest b r = HttpRequest_ParseRequest b1 ((add_headers hs r)\<lparr>hr_line_buf := l\<rparr>)"
      (is "_ = HttpRequest_ParseRequest b1 ?r1")
    by auto
  have "bf_contents b1 = (k @ '':'') @ CR # LF # rest" "CR \<notin> set (k @ '':'')"
    using b1(2) assms(4) by (auto simp: kCRLF_def good_header_def)
  from ParseLine_found [OF b1(1) this, of ?r1] obtain b2 where
    "HttpRequest_ParseLine b1 ?r1 = Inr (LINE_OK, b2, ?r1\<lparr>hr_line_buf := k @ '':''\<rparr>)" by blast
  moreover have "hr_parse_state ?r1 = PARSE_HEADER" using assms(5) by (simp add: add_headers_def)
  ultimately show ?thesis
    using ParseHeaders_no_value [of k "?r1\<lparr>hr_line_buf := k @ '':''\<rparr>"] assms(4)
    unfolding run by (simp add: HttpRequest_ParseRequest.simps [of b1 ?r1] good_header_def)
qed

theorem HttpRequest_header_without_value_terminates_witness:
  "let s = header_block [(''A'', ''b'')] @ ''Host'' @ '':'' @ kCRLF @ kCRLF in
   HttpRequest_ParseRequest \<lparr>bf_buffer = s @ ''.'', bf_read_index = 0, bf_write_index = length s\<rparr>
     (HttpRequest_zero\<lparr>hr_parse_state := PARSE_HEADER\<rparr>) = Inl OutOfRange"
  unfolding Let_def
  by (rule HttpRequest_header_without_value_terminates [of _ "[(''A'', ''b'')]" "''Host''" kCRLF]; code_simp)

lemma parse_complete:
  assumes "hr_parse_state r = PARSE_COMPLETE" and "HttpRequest_ParseRequest b r = Inr (code, b', r')"
  shows "(code = GOOD_REQUEST \<or> code = NO_REQUEST) \<and> hr_parse_state r' = PARSE_COMPLETE \<and>
    hr_method r' = hr_method r \<and> hr_path r' = hr_path r \<and> hr_version r' = hr_version r \<and> hr_headers r' = hr_headers r"
proof -
  from assms(2) obtain st b1 l where
    "HttpRequest_ParseLine b r = Inr (st, b1, r\<lparr>hr_line_buf := l\<rparr>)" "st = LINE_OK \<or> st = LINE_OPEN"
    by (auto simp: HttpRequest_ParseRequest.simps [of b r] HttpRequest_ParseLine_def Let_def outcome_simps
        split: sum.splits)
  with assms show ?thesis by (auto simp: HttpRequest_ParseRequest.simps [of b r])
qed

text \<open>A request that has reached \<open>PARSE_COMPLETE\<close> and was not reset is never parsed again: the next
  buffer is answered with \<open>GOOD_REQUEST\<close> (or \<open>NO_REQUEST\<close>) while method, path, version and headers
  stay those of the old request.\<close>

theorem HttpRequest_complete_is_stale:
  assumes "hr_parse_state r = PARSE_COMPLETE" and "HttpRequest_ParseRequest b r = Inr (code, b', r')"
  shows "(code = GOOD_REQUEST \<or> code = NO_REQUEST) \<and> hr_parse_state r' = PARSE_COMPLETE \<and>
    hr_method r' = hr_method r \<and> hr_path r' = hr_path r \<and> hr_version r' = hr_version r \<and> hr_headers r' = hr_headers r"
  using assms by (rule parse_complete)

theorem HttpRequest_complete_is_stale_witness:
  "let s = render_request ''GET'' ''/new'' ''HTTP/1.1'' [];
       b = \<lparr>bf_buffer = s @ ''....'', bf_read_index = 0, bf_write_index = length s\<rparr>;
       r = HttpRequest_zero\<lparr>hr_parse_state := PARSE_COMPLETE, hr_path := ''/old''\<rparr>
   in \<forall>code b' r'. HttpRequest_ParseRequest b r = Inr (code, b', r') \<longrightarrow>
    (code = GOOD_REQUEST \<or> code = NO_REQUEST) \<and> hr_parse_state r' = PARSE_COMPLETE \<and>
    hr_method r' = hr_method r \<and> hr_path r' = hr_path r \<and> hr_version r' = hr_version r \<and> hr_headers r' = hr_headers r"
  unfolding Let_def by (intro allI impI, rule HttpRequest_complete_is_stale; (assumption | code_simp))

text \<open>C36: As long as the storage has free space, \<open>ParseRequest\<close> never reports an incomplete request: it
  returns \<open>GOOD_REQUEST\<close> in state \<open>PARSE_COMPLETE\<close> or it faults. In particular an unfinished request line
  is taken for a whole one and the next read of a line searches an invalid range.\<close>

theorem HttpRequest_incomplete_faults:
  assumes "bf_write_index b < length (bf_buffer b)"
  shows "(case HttpRequest_ParseRequest b r of Inl e \<Rightarrow> True
      | Inr (code, b', r') \<Rightarrow> code = GOOD_REQUEST \<and> hr_parse_state r' = PARSE_COMPLETE) \<and>
    (bf_invar b \<and> CR \<notin> set (bf_contents b) \<and> hr_parse_state r = PARSE_REQUESTLINE \<longrightarrow>
      HttpRequest_ParseRequest b r = Inl BadAccess)"
proof (intro conjI impI)
  show "case HttpRequest_ParseRequest b r of Inl e \<Rightarrow> True
      | Inr (code, b', r') \<Rightarrow> code = GOOD_REQUEST \<and> hr_parse_state r' = PARSE_COMPLETE"
    using ParseRequest_only_complete [OF _ assms] by (auto split: sum.splits)
next
  assume "bf_invar b \<and> CR \<notin> set (bf_contents b) \<and> hr_parse_state r = PARSE_REQUESTLINE"
  then show "HttpRequest_ParseRequest b r = Inl BadAccess"
    using ParseLine_unfinished [of b r] assms
    by (simp add: HttpRequest_ParseRequest.simps [of b r] ParseRequest_crossed)
qed

theorem HttpRequest_incomplete_faults_witness:
  "let b = \<lparr>bf_buffer = ''GET /ind'' @ replicate 8 NUL, bf_read_index = 0, bf_write_index = 8\<rparr>; r = HttpRequest_zero in
   bf_invar b \<and> CR \<notin> set (bf_contents b) \<and> hr_parse_state r = PARSE_REQUESTLINE \<and>
   (case HttpRequest_ParseRequest b r of Inl e \<Rightarrow> True
      | Inr (code, b', r') \<Rightarrow> code = GOOD_REQUEST \<and> hr_parse_state r' = PARSE_COMPLETE) \<and>
   (bf_invar b \<and> CR \<notin> set (bf_contents b) \<and> hr_parse_state r = PARSE_REQUESTLINE \<longrightarrow>
      HttpRequest_ParseRequest b r = Inl BadAccess)"
  unfolding Let_def by (intro conjI [where P = "bf_invar _"] conjI [where P = "CR \<notin> _"] conjI [where P = "hr_parse_state _ = _"]
      HttpRequest_incomplete_faults; code_simp)

text \<open>A \<open>POST\<close> is never completed: \<open>ParseBody\<close> is not called, so with free space behind the data
  every run in \<open>PARSE_BODY\<close> ends by searching an invalid range.\<close>

theorem HttpRequest_POST_faults:
  assumes "hr_parse_state r = PARSE_BODY" and "bf_write_index b < length (bf_buffer b)"
  shows "HttpRequest_ParseRequest b r = Inl BadAccess"
  using assms
proof (induction b r rule: HttpRequest_ParseRequest.induct)
  case (1 b r)
  show ?case
  proof (cases "HttpRequest_ParseLine b r")
    case (Inl e)
    then have "e = BadAccess"
      by (auto simp: HttpRequest_ParseLine_def Buffer_ReadByLine_def Let_def check_def split: if_splits)
    with Inl show ?thesis by (simp add: HttpRequest_ParseRequest.simps [of b r])
  next
    case (Inr x)
    then obtain st b1 r1 where line: "HttpRequest_ParseLine b r = Inr (st, b1, r1)" by (cases x) auto
    note free = ParseLine_free [OF line "1.prems"(2)]
    note ok = line [unfolded free(1)]
    have "hr_parse_state r1 = PARSE_BODY" using free(3) "1.prems"(1) by simp
    with ok "1.IH"(3) [OF ok refl refl refl this this free(2)] show ?thesis
      by (simp add: HttpRequest_ParseRequest.simps [of b r])
  qed
qed

theorem HttpRequest_POST_faults_witness:
  "HttpRequest_ParseRequest \<lparr>bf_buffer = ''a=b'' @ kCRLF @ ''.'', bf_read_index = 0, bf_write_index = 5\<rparr>
    (HttpRequest_zero\<lparr>hr_parse_state := PARSE_BODY\<rparr>) = Inl BadAccess"
  by (rule HttpRequest_POST_faults; code_simp)

end
