(* ===== verification/Net_World.thy ===== *)
theory Net_World
  imports Event_Loop Thread_Pool Http_Request
begin

text \<open>
  The world the connections and the server work on: the event loop extended by the heap of
  connections, the server's connection table and acceptor, and the outside: the results of the
  system calls still to come and the calls made. \<open>Socket\<close> (Socket.h, Socket.cc) is the descriptor and
  its calls. Shared ownership is explicit: a connection lives while the table or a \<open>shared_ptr\<close> on
  the stack refers to it, a channel while the poller's table, the loop or a connection does.
\<close>

section \<open>System calls and sockets\<close>

record sockaddr_in =
  sin_addr :: "8 word \<times> 8 word \<times> 8 word \<times> 8 word"
  sin_port :: "16 word"

datatype sockopt = SO_REUSEADDR | SO_REUSEPORT | SO_KEEPALIVE | TCP_NODELAY

datatype sys_call =
    SysBind int sockaddr_in
  | SysSocket int
  | SysListen int
  | SysAccept int
  | SysShutdownWrite int
  | SysSetsockopt int sockopt int
  | SysSend int string int   \<comment> \<open>descriptor, bytes offered, return value\<close>
  | SysOpenDevNull int
  | SysClose int

definition inet_ntoa :: "8 word \<times> 8 word \<times> 8 word \<times> 8 word \<Rightarrow> string" where
  "inet_ntoa ip = (case ip of (a, b, c, d) \<Rightarrow>
     to_string_nat (unat a) @ ''.'' @ to_string_nat (unat b) @ ''.'' @
     to_string_nat (unat c) @ ''.'' @ to_string_nat (unat d))"

text \<open>A closure: what the program binds into a \<open>std::function\<close>, with the address it is bound to.\<close>

datatype closure =
    OnTimer | OnWakeup | OnAccept
  | OnRead nat | OnWrite nat | OnClose nat | OnError nat
  | DoSend nat string | DoShutdown nat | DoStartRead nat | DoStopRead nat
  | DoEstablished nat | DoRemove nat | DoDestroyed nat | DoAddChannel nat

datatype conn_cb = UserConnection | UserMessage | UserWriteComplete | ServerRemove

section \<open>Objects\<close>

datatype connection_state = kDisconnected | kConnecting | kConnected | kDisconnecting

record tcp_connection =
  tc_event_loop :: nat
  tc_name :: string
  tc_state :: connection_state
  tc_read_flag :: bool
  tc_socket :: int
  tc_channel :: nat
  tc_local_addr :: sockaddr_in
  tc_client_addr :: sockaddr_in
  tc_connection_cb :: "conn_cb option"
  tc_message_cb :: "conn_cb option"
  tc_write_complete_cb :: "conn_cb option"
  tc_close_cb :: "conn_cb option"
  tc_input_buffer :: buffer
  tc_output_buffer :: buffer

record acceptor =
  ac_idlefd :: int
  ac_acceptfd :: int
  ac_listen_flag :: bool
  ac_server_addr :: sockaddr_in
  ac_channel :: nat
  ac_has_callback :: bool

record tcp_server =
  ts_event_loop :: nat
  ts_server_addr :: sockaddr_in
  ts_name :: string
  ts_pool :: "nat loop_pool"
  ts_connection_cb :: "conn_cb option"
  ts_message_cb :: "conn_cb option"
  ts_write_complete_cb :: "conn_cb option"
  ts_thread_init_cb :: bool
  ts_next_connection :: int

text \<open>
  \<open>nt_acceptor\<close>, \<open>nt_server\<close> and \<open>nt_connection_map\<close> are the server's members, \<open>nt_request\<close> the
  thread's static request of the HTTP handler, \<open>nt_stack\<close> the connections that a \<open>shared_ptr\<close> on the
  stack or in a queued functor refers to, \<open>nt_clock\<close> what the clock reads and \<open>nt_junk\<close> what an uninitialised flag
  happens to hold. A loop is known by its thread. The world is seen from one thread: its loop is the
  record that is extended, \<open>nt_request\<close> its request, and \<open>nt_loops\<close> has those of the other threads, where
  the heap of channels is left empty, as it is shared. The inputs: what the next calls of \<open>readv\<close>, \<open>write\<close>, \<open>send\<close>, \<open>accept\<close> and \<open>open\<close> will return. A
  non-blocking call with nothing left fails with \<open>EAGAIN\<close>.
\<close>

record net = "closure event_loop" +
  nt_conns :: "nat \<Rightarrow> tcp_connection option"
  nt_connection_map :: "(string, nat) std_map"
  nt_acceptor :: acceptor
  nt_server :: tcp_server
  nt_request :: http_request
  nt_loops :: "(closure event_loop \<times> http_request) list"
  nt_stack :: "nat list"
  nt_fresh :: nat
  nt_clock :: int
  nt_junk :: bool
  nt_readv :: "string option list"
  nt_write :: "int list"
  nt_send :: "int list"
  nt_accept :: "(int + int \<times> sockaddr_in) list"
  nt_open :: "int list"
  nt_calls :: "sys_call list"

definition no_addr :: sockaddr_in where
  "no_addr = \<lparr>sin_addr = (0, 0, 0, 0), sin_port = 0\<rparr>"

text \<open>
  A fresh world: the loop object, no connections, and addresses from \<open>fresh\<close> on unused. Address 0 is
  null.
\<close>

definition net_new :: "closure event_loop \<Rightarrow> nat \<Rightarrow> string option list \<Rightarrow> int list \<Rightarrow> int list \<Rightarrow>
    (int + int \<times> sockaddr_in) list \<Rightarrow> int list \<Rightarrow> net" where
  "net_new l fresh readvs writes sends accepts opens = event_loop.extend l
     \<lparr>nt_conns = Map.empty, nt_connection_map = [],
      nt_acceptor = \<lparr>ac_idlefd = 0, ac_acceptfd = 0, ac_listen_flag = False,
        ac_server_addr = no_addr, ac_channel = 0, ac_has_callback = False\<rparr>,
      nt_server = \<lparr>ts_event_loop = el_thread_id l, ts_server_addr = no_addr, ts_name = [], ts_pool = EventLoopThreadPool_new (el_thread_id l) [],
        ts_connection_cb = None, ts_message_cb = None, ts_write_complete_cb = None,
        ts_thread_init_cb = False, ts_next_connection = 1\<rparr>,
      nt_request = HttpRequest_zero, nt_loops = [],
      nt_stack = [], nt_fresh = fresh, nt_clock = 0, nt_junk = False, nt_readv = readvs, nt_write = writes, nt_send = sends,
      nt_accept = accepts, nt_open = opens, nt_calls = []\<rparr>"

definition EAGAIN :: int where "EAGAIN = 11"
definition EMFILE :: int where "EMFILE = 24"

definition sys :: "sys_call \<Rightarrow> net \<Rightarrow> net" where
  "sys c w = w\<lparr>nt_calls := nt_calls w @ [c]\<rparr>"

definition next_readv :: "net \<Rightarrow> string option \<times> net" where
  "next_readv w = (case nt_readv w of [] \<Rightarrow> (None, w) | r # rs \<Rightarrow> (r, w\<lparr>nt_readv := rs\<rparr>))"

definition next_write :: "net \<Rightarrow> int \<times> net" where
  "next_write w = (case nt_write w of [] \<Rightarrow> (-1, w) | r # rs \<Rightarrow> (r, w\<lparr>nt_write := rs\<rparr>))"

definition next_send :: "net \<Rightarrow> int \<times> net" where
  "next_send w = (case nt_send w of [] \<Rightarrow> (-1, w) | r # rs \<Rightarrow> (r, w\<lparr>nt_send := rs\<rparr>))"

definition next_accept :: "net \<Rightarrow> (int + int \<times> sockaddr_in) \<times> net" where
  "next_accept w = (case nt_accept w of [] \<Rightarrow> (Inl EAGAIN, w) | r # rs \<Rightarrow> (r, w\<lparr>nt_accept := rs\<rparr>))"

definition next_open :: "net \<Rightarrow> int \<times> net" where
  "next_open w = (case nt_open w of [] \<Rightarrow> (-1, w) | r # rs \<Rightarrow> (r, w\<lparr>nt_open := rs\<rparr>))"

lemmas next_simps = next_readv_def next_write_def next_send_def next_accept_def next_open_def

subsection \<open>\<open>Socket\<close>\<close>

definition Socket_Bind :: "int \<Rightarrow> sockaddr_in \<Rightarrow> net \<Rightarrow> net" where
  "Socket_Bind fd addr w = sys (SysBind fd addr) w"

definition Socket_Listen :: "int \<Rightarrow> net \<Rightarrow> net" where
  "Socket_Listen fd w = sys (SysListen fd) w"

text \<open>The accepted descriptor is dropped without being closed.\<close>

definition Socket_Accept :: "int \<Rightarrow> net \<Rightarrow> net" where
  "Socket_Accept fd w = snd (next_accept (sys (SysAccept fd) w))"

definition Socket_ShutdownWrite :: "int \<Rightarrow> net \<Rightarrow> net" where
  "Socket_ShutdownWrite fd w = sys (SysShutdownWrite fd) w"

definition Socket_SetTcpNoDelay :: "int \<Rightarrow> bool \<Rightarrow> net \<Rightarrow> net" where
  "Socket_SetTcpNoDelay fd on w = sys (SysSetsockopt fd TCP_NODELAY (if on then 1 else 0)) w"

definition Socket_SetReuseAddr :: "int \<Rightarrow> bool \<Rightarrow> net \<Rightarrow> net" where
  "Socket_SetReuseAddr fd on w = sys (SysSetsockopt fd SO_REUSEADDR (if on then 1 else 0)) w"

definition Socket_SetReusePort :: "int \<Rightarrow> bool \<Rightarrow> net \<Rightarrow> net" where
  "Socket_SetReusePort fd on w = sys (SysSetsockopt fd SO_REUSEPORT (if on then 1 else 0)) w"

definition Socket_SetKeepAlive :: "int \<Rightarrow> bool \<Rightarrow> net \<Rightarrow> net" where
  "Socket_SetKeepAlive fd on w = sys (SysSetsockopt fd SO_KEEPALIVE (if on then 1 else 0)) w"

definition Socket_destroy :: "int \<Rightarrow> net \<Rightarrow> net" where
  "Socket_destroy fd w = sys (SysClose fd) w"

section \<open>Ownership\<close>

definition with_conn :: "nat \<Rightarrow> net \<Rightarrow> (tcp_connection \<Rightarrow> 'b outcome) \<Rightarrow> 'b outcome" where
  "with_conn a w k = (case nt_conns w a of None \<Rightarrow> Inl UseAfterFree | Some c \<Rightarrow> k c)"

definition put_conn :: "nat \<Rightarrow> tcp_connection \<Rightarrow> net \<Rightarrow> net" where
  "put_conn a c w = w\<lparr>nt_conns := (nt_conns w)(a \<mapsto> c)\<rparr>"

definition on_conn :: "nat \<Rightarrow> (tcp_connection \<Rightarrow> tcp_connection) \<Rightarrow> net \<Rightarrow> net outcome" where
  "on_conn a g w = with_conn a w (\<lambda>c. Inr (put_conn a (g c) w))"

definition conn_owned :: "nat \<Rightarrow> net \<Rightarrow> bool" where
  "conn_owned a w \<longleftrightarrow> a \<in> set (nt_stack w) \<or> a \<in> snd ` set (nt_connection_map w)"

definition loop_owns :: "nat \<Rightarrow> closure event_loop \<Rightarrow> bool" where
  "loop_owns h l \<longleftrightarrow> h \<in> snd ` set (pl_channels_map (el_poller l)) \<or>
     el_wakeup_channel l = Some h \<or> el_timer_channel l = Some h"

definition other_loop_owns :: "nat \<Rightarrow> (closure event_loop \<times> http_request) list \<Rightarrow> bool" where
  "other_loop_owns h ls \<longleftrightarrow> (\<exists>l \<in> set ls. loop_owns h (fst l))"

lemma other_loop_owns_none [simp]: "\<not> other_loop_owns h []"
  by (simp add: other_loop_owns_def)

definition channel_owned :: "nat \<Rightarrow> net \<Rightarrow> bool" where
  "channel_owned h w \<longleftrightarrow> h \<in> snd ` set (pl_channels_map (el_poller w)) \<or>
     el_wakeup_channel w = Some h \<or> el_timer_channel w = Some h \<or> ac_channel (nt_acceptor w) = h \<or>
     other_loop_owns h (nt_loops w)"

text \<open>
  A connection holds its channel, which \<open>TcpConnection_new\<close> puts at the address after its own. When
  the poller's table lets go of a channel, by replacing or erasing its entry, the channel is destroyed
  unless something else owns it.
\<close>

definition conn_has_channel :: "nat \<Rightarrow> net \<Rightarrow> bool" where
  "conn_has_channel h w \<longleftrightarrow> (case nt_conns w (h - 1) of None \<Rightarrow> False | Some c \<Rightarrow> tc_channel c = h)"

definition release_channel :: "nat option \<Rightarrow> net \<Rightarrow> net outcome" where
  "release_channel old w = (case old of None \<Rightarrow> Inr w
     | Some h \<Rightarrow> if channel_owned h w \<or> conn_has_channel h w then Inr w else free_channel h w)"

definition registered :: "nat \<Rightarrow> net \<Rightarrow> nat option" where
  "registered h w = (case get_channel h w of None \<Rightarrow> None
     | Some c \<Rightarrow> map_find (pl_channels_map (el_poller w)) (ch_fd c))"

definition register_channel :: "nat \<Rightarrow> net \<Rightarrow> net outcome" where
  "register_channel h w = obind (EventLoop_AddChannel h w) (release_channel (registered h w))"

definition unregister_channel :: "nat \<Rightarrow> net \<Rightarrow> net outcome" where
  "unregister_channel h w = obind (EventLoop_RemoveChannel h w) (release_channel (registered h w))"

text \<open>A connection that unregisters its own channel keeps it.\<close>

lemma unregister_own:
  assumes "registered h w = None \<or> registered h w = Some h" "conn_has_channel h w"
  shows "unregister_channel h w = EventLoop_RemoveChannel h w"
proof (cases "EventLoop_RemoveChannel h w")
  case (Inr w')
  then have "nt_conns w' = nt_conns w"
    by (auto simp: EventLoop_RemoveChannel_def on_channel_def with_channel_def put_channel_def split: option.splits)
  then have "conn_has_channel h w'" using assms(2) by (simp add: conn_has_channel_def)
  then show ?thesis using assms(1) Inr by (auto simp: unregister_channel_def release_channel_def)
qed (simp add: unregister_channel_def)

text \<open>
  \<open>~TcpConnection\<close>: the members go in reverse order of their declaration, the channel before the
  socket. The channel is destroyed only if the connection was its last owner.
\<close>

definition TcpConnection_destroy :: "nat \<Rightarrow> net \<Rightarrow> net outcome" where
  "TcpConnection_destroy a w = with_conn a w (\<lambda>c.
     let w = w\<lparr>nt_conns := (nt_conns w)(a := None)\<rparr>
     in obind (if channel_owned (tc_channel c) w then Inr w else free_channel (tc_channel c) w) (\<lambda>w.
        Inr (Socket_destroy (tc_socket c) w)))"

definition hold :: "nat \<Rightarrow> net \<Rightarrow> net" where
  "hold a w = w\<lparr>nt_stack := a # nt_stack w\<rparr>"

text \<open>An owner of connection \<open>a\<close> has gone: destroy it if that was the last one.\<close>

definition collect :: "nat \<Rightarrow> net \<Rightarrow> net outcome" where
  "collect a w = (if conn_owned a w then Inr w else TcpConnection_destroy a w)"

definition drop_hold :: "nat \<Rightarrow> net \<Rightarrow> net outcome" where
  "drop_hold a w = collect a (w\<lparr>nt_stack := remove1 a (nt_stack w)\<rparr>)"

text \<open>\<open>cb(shared_from_this())\<close>: the temporary \<open>shared_ptr\<close> lives until the call returns.\<close>

definition shared_call :: "(conn_cb \<Rightarrow> nat \<Rightarrow> net \<Rightarrow> net outcome) \<Rightarrow> conn_cb option \<Rightarrow> nat \<Rightarrow> net \<Rightarrow> net outcome" where
  "shared_call cbs cb a w =
     check (conn_owned a w) BadWeakPtr
       (case cb of None \<Rightarrow> Inl BadFunctionCall
        | Some f \<Rightarrow> obind (cbs f a (hold a w)) (drop_hold a))"

section \<open>Loops of other threads\<close>

text \<open>
  \<open>exchange i\<close> sees the world from the thread of the loop at position \<open>i\<close>: that loop comes in, the loop
  of the thread so far is parked. \<open>on_loop l\<close> performs an operation of the loop of thread \<open>l\<close>, which may
  be another one's.
\<close>

definition park :: "net \<Rightarrow> closure event_loop" where
  "park w = (event_loop.truncate w)\<lparr>el_channels := Map.empty\<rparr>"

definition exchange :: "nat \<Rightarrow> net \<Rightarrow> net" where
  "exchange i w =
     (if i < length (nt_loops w)
      then let (l, q) = nt_loops w ! i
           in (event_loop.extend (l\<lparr>el_channels := el_channels w\<rparr>) (event_loop.more w))
                \<lparr>nt_request := q, nt_loops := (nt_loops w)[i := (park w, nt_request w)]\<rparr>
      else w)"

fun loop_slot :: "nat \<Rightarrow> (closure event_loop \<times> http_request) list \<Rightarrow> nat option" where
  "loop_slot l [] = None"
| "loop_slot l (x # xs) = (if el_thread_id (fst x) = l then Some 0 else map_option Suc (loop_slot l xs))"

definition on_loop :: "nat \<Rightarrow> (net \<Rightarrow> net outcome) \<Rightarrow> net \<Rightarrow> net outcome" where
  "on_loop l g w =
     (if l = el_thread_id w then g w
      else case loop_slot l (nt_loops w) of
        None \<Rightarrow> Inl BadAccess
      | Some i \<Rightarrow> obind (g (exchange i w)) (\<lambda>w. Inr (exchange i w)))"

text \<open>
  The connections whose \<open>shared_ptr\<close> is bound into a closure. A functor that is queued holds them
  until the vector it was taken out with is destroyed, after all functors of that vector have run.
\<close>

fun bound_conns :: "closure \<Rightarrow> nat list" where
  "bound_conns (DoEstablished a) = [a]"
| "bound_conns (DoRemove a) = [a]"
| "bound_conns (DoDestroyed a) = [a]"
| "bound_conns _ = []"

definition run_in_loop :: "(closure \<Rightarrow> net \<Rightarrow> net outcome) \<Rightarrow> nat \<Rightarrow> closure \<Rightarrow> net \<Rightarrow> net outcome" where
  "run_in_loop run l f w = on_loop l (EventLoop_RunInLoop run (el_thread_id w) f)
     (if l = el_thread_id w then w else fold hold (bound_conns f) w)"

definition drop_functors :: "closure list \<Rightarrow> net \<Rightarrow> net outcome" where
  "drop_functors fs w = run_seq drop_hold (concat (map bound_conns fs)) w"

lemma on_loop_here [simp]: "l = el_thread_id w \<Longrightarrow> on_loop l g w = g w"
  by (simp add: on_loop_def)

lemma run_in_loop_here [simp]: "l = el_thread_id w \<Longrightarrow> run_in_loop run l f w = run f w"
  by (simp add: run_in_loop_def EventLoop_RunInLoop_def EventLoop_isLoopThread_def)

end
