(* ===== verification/Tcp_Connection.thy ===== *)
theory Tcp_Connection
  imports Net_World
begin

text \<open>
  \<open>TcpConnection\<close> (TcpConnection.h, TcpConnection.cc), called from any thread: what a member function does
  to \<open>event_loop_ptr_\<close> goes to the loop of the connection. \<open>cbs\<close> invokes the
  callbacks installed in a connection, \<open>run\<close> the tasks given to the loop. A connection is its
  address; a member function runs on it only while it exists.
\<close>

section \<open>Construction\<close>

text \<open>\<open>read_flag_\<close> is not initialised: \<open>junk\<close>.\<close>

definition TcpConnection_new :: "bool \<Rightarrow> nat \<Rightarrow> string \<Rightarrow> int \<Rightarrow> sockaddr_in \<Rightarrow> sockaddr_in \<Rightarrow> net \<Rightarrow> (nat \<times> net) outcome" where
  "TcpConnection_new junk loop name sockfd local_addr client_addr w =
     obind (Buffer_new Buffer_kInitialSize) (\<lambda>input.
     obind (Buffer_new Buffer_kInitialSize) (\<lambda>output.
       let a = nt_fresh w; h = a + 1;
           w = w\<lparr>nt_fresh := a + 2\<rparr>;
           w = put_channel h (Channel_set_error_call_back (Some (OnError a))
                 (Channel_set_close_call_back (Some (OnClose a)) (Channel_set_write_call_back (Some (OnWrite a))
                 (Channel_set_read_call_back (Some (OnRead a)) (Channel_new sockfd))))) w;
           w = put_conn a \<lparr>tc_event_loop = loop, tc_name = name, tc_state = kConnecting, tc_read_flag = junk,
                 tc_socket = sockfd, tc_channel = h, tc_local_addr = local_addr,
                 tc_client_addr = client_addr, tc_connection_cb = None, tc_message_cb = None,
                 tc_write_complete_cb = None, tc_close_cb = None,
                 tc_input_buffer = input, tc_output_buffer = output\<rparr> w
       in Inr (a, Socket_SetKeepAlive sockfd True w)))"

text \<open>The callbacks and the observers of the state.\<close>

definition TcpConnection_set_connection_cb :: "conn_cb option \<Rightarrow> tcp_connection \<Rightarrow> tcp_connection" where
  "TcpConnection_set_connection_cb cb c = c\<lparr>tc_connection_cb := cb\<rparr>"

definition TcpConnection_set_message_cb :: "conn_cb option \<Rightarrow> tcp_connection \<Rightarrow> tcp_connection" where
  "TcpConnection_set_message_cb cb c = c\<lparr>tc_message_cb := cb\<rparr>"

definition TcpConnection_set_write_complete_cb :: "conn_cb option \<Rightarrow> tcp_connection \<Rightarrow> tcp_connection" where
  "TcpConnection_set_write_complete_cb cb c = c\<lparr>tc_write_complete_cb := cb\<rparr>"

definition TcpConnection_set_close_cb :: "conn_cb option \<Rightarrow> tcp_connection \<Rightarrow> tcp_connection" where
  "TcpConnection_set_close_cb cb c = c\<lparr>tc_close_cb := cb\<rparr>"

definition TcpConnection_isReading :: "tcp_connection \<Rightarrow> bool" where
  "TcpConnection_isReading c = tc_read_flag c"

definition TcpConnection_isConnected :: "tcp_connection \<Rightarrow> bool" where
  "TcpConnection_isConnected c \<longleftrightarrow> tc_state c = kConnected"

definition TcpConnection_isDisconnected :: "tcp_connection \<Rightarrow> bool" where
  "TcpConnection_isDisconnected c \<longleftrightarrow> tc_state c = kDisconnected"

definition TcpConnection_set_state :: "connection_state \<Rightarrow> tcp_connection \<Rightarrow> tcp_connection" where
  "TcpConnection_set_state st c = c\<lparr>tc_state := st\<rparr>"

lemmas connection_setters [simp] = TcpConnection_set_connection_cb_def TcpConnection_set_message_cb_def
  TcpConnection_set_write_complete_cb_def TcpConnection_set_close_cb_def TcpConnection_set_state_def

definition TcpConnection_ConnectionEstablished :: "(conn_cb \<Rightarrow> nat \<Rightarrow> net \<Rightarrow> net outcome) \<Rightarrow> nat \<Rightarrow> net \<Rightarrow> net outcome" where
  "TcpConnection_ConnectionEstablished cbs a w =
     obind (on_conn a (TcpConnection_set_state kConnected) w) (\<lambda>w.
     with_conn a w (\<lambda>c.
     obind (on_channel (tc_channel c) Channel_EnableReading w) (\<lambda>w.
     obind (on_loop (tc_event_loop c) (register_channel (tc_channel c)) w) (\<lambda>w.
     shared_call cbs (tc_connection_cb c) a w))))"

text \<open>The body is empty.\<close>

definition TcpConnection_ConnectionDestroyed :: "nat \<Rightarrow> net \<Rightarrow> net outcome" where
  "TcpConnection_ConnectionDestroyed a w = Inr w"

section \<open>Sending and receiving\<close>

text \<open>
  \<open>bytesSent < len\<close> compares a \<open>ssize_t\<close> with a \<open>size_t\<close>: the result is converted to unsigned.
\<close>

definition TcpConnection_Send :: "nat \<Rightarrow> string \<Rightarrow> net \<Rightarrow> net outcome" where
  "TcpConnection_Send a data w = with_conn a w (\<lambda>c.
     let len = length data in
     if 0 < Buffer_ReadableBytes (tc_output_buffer c)
     then obind (Buffer_Append data len (tc_output_buffer c)) (\<lambda>b.
            Inr (put_conn a (c\<lparr>tc_output_buffer := b\<rparr>) w))
     else with_channel get_channel (tc_channel c) w (\<lambda>ch.
       let (n, w) = next_send w; w = sys (SysSend (ch_fd ch) data n) w in
       if to_size n < len
       then obind (if Buffer_WriteableBytes (tc_output_buffer c) = 0
                   then on_channel (tc_channel c) Channel_EnableWriting w else Inr w) (\<lambda>w.
            obind (Buffer_Append (drop (to_size n) data) (sz_sub len (to_size n)) (tc_output_buffer c)) (\<lambda>b.
            Inr (put_conn a (c\<lparr>tc_output_buffer := b\<rparr>) w)))
       else Inr w))"

definition TcpConnection_SendInLoop :: "(closure \<Rightarrow> net \<Rightarrow> net outcome) \<Rightarrow> nat \<Rightarrow> string \<Rightarrow> net \<Rightarrow> net outcome" where
  "TcpConnection_SendInLoop run a data w = with_conn a w (\<lambda>c.
     check (tc_state c = kConnected) AssertFailed
       (run_in_loop run (tc_event_loop c) (DoSend a data) w))"

definition TcpConnection_HandleClose :: "(conn_cb \<Rightarrow> nat \<Rightarrow> net \<Rightarrow> net outcome) \<Rightarrow> nat \<Rightarrow> net \<Rightarrow> net outcome" where
  "TcpConnection_HandleClose cbs a w =
     obind (on_conn a (TcpConnection_set_state kDisconnected) w) (\<lambda>w.
     with_conn a w (\<lambda>c.
     obind (Channel_set_event_handling get_channel put_channel (tc_channel c) False w) (\<lambda>w.
     obind (on_loop (tc_event_loop c) (unregister_channel (tc_channel c)) w) (\<lambda>w.
     shared_call cbs (tc_close_cb c) a w))))"

definition TcpConnection_HandleError :: "(conn_cb \<Rightarrow> nat \<Rightarrow> net \<Rightarrow> net outcome) \<Rightarrow> nat \<Rightarrow> net \<Rightarrow> net outcome" where
  "TcpConnection_HandleError cbs a w =
     obind (on_conn a (TcpConnection_set_state kDisconnected) w) (\<lambda>w.
     with_conn a w (\<lambda>c.
     obind (Channel_set_event_handling get_channel put_channel (tc_channel c) False w) (\<lambda>w.
     obind (on_loop (tc_event_loop c) (unregister_channel (tc_channel c)) w) (\<lambda>w.
     shared_call cbs (tc_close_cb c) a w))))"

definition TcpConnection_HandleRead :: "(conn_cb \<Rightarrow> nat \<Rightarrow> net \<Rightarrow> net outcome) \<Rightarrow> nat \<Rightarrow> net \<Rightarrow> net outcome" where
  "TcpConnection_HandleRead cbs a w = with_conn a w (\<lambda>c.
     with_channel get_channel (tc_channel c) w (\<lambda>ch.
     let (rd, w) = next_readv w in
     obind (Buffer_ReadFd rd (tc_input_buffer c)) (\<lambda>(ret, b).
       let w = put_conn a (c\<lparr>tc_input_buffer := b\<rparr>) w in
       if 0 < ret then
         obind (shared_call cbs (tc_message_cb c) a w) (TcpConnection_HandleClose cbs a)
       else if ret = 0 then TcpConnection_HandleClose cbs a w
       else TcpConnection_HandleError cbs a w)))"

definition TcpConnection_HandleWrite :: "(conn_cb \<Rightarrow> nat \<Rightarrow> net \<Rightarrow> net outcome) \<Rightarrow> nat \<Rightarrow> net \<Rightarrow> net outcome" where
  "TcpConnection_HandleWrite cbs a w = with_conn a w (\<lambda>c.
     with_channel get_channel (tc_channel c) w (\<lambda>ch.
     check (Channel_isWriting ch) AssertFailed
       (let (n, w) = next_write w in
        obind (Buffer_WriteFd n (tc_output_buffer c)) (\<lambda>(n, b).
          let w = put_conn a (c\<lparr>tc_output_buffer := b\<rparr>) w in
          if 0 < n \<and> Buffer_ReadableBytes b = 0 then
            obind (on_channel (tc_channel c) Channel_DisableWritint w) (\<lambda>w.
            obind (on_loop (tc_event_loop c) (EventLoop_UpdateChannel (tc_channel c)) w) (\<lambda>w.
            shared_call cbs (tc_write_complete_cb c) a w))
          else Inr w))))"

section \<open>Closing and pausing\<close>

definition TcpConnection_ShutdownInLoop :: "nat \<Rightarrow> net \<Rightarrow> net outcome" where
  "TcpConnection_ShutdownInLoop a w = with_conn a w (\<lambda>c.
     with_channel get_channel (tc_channel c) w (\<lambda>ch.
     Inr (if \<not> Channel_isWriting ch then Socket_ShutdownWrite (tc_socket c) w else w)))"

definition TcpConnection_Shutdown :: "(closure \<Rightarrow> net \<Rightarrow> net outcome) \<Rightarrow> nat \<Rightarrow> net \<Rightarrow> net outcome" where
  "TcpConnection_Shutdown run a w = with_conn a w (\<lambda>c.
     if tc_state c = kConnected
     then run_in_loop run (tc_event_loop c) (DoShutdown a) (put_conn a (TcpConnection_set_state kDisconnecting c) w)
     else Inr w)"

definition TcpConnection_SetTcpNoDelay :: "nat \<Rightarrow> net \<Rightarrow> net outcome" where
  "TcpConnection_SetTcpNoDelay a w = with_conn a w (\<lambda>c. Inr (Socket_SetTcpNoDelay (tc_socket c) True w))"

text \<open>Neither of these tells the poller: \<open>UpdateChannel\<close> is not called.\<close>

definition TcpConnection_StartReadInLoop :: "nat \<Rightarrow> net \<Rightarrow> net outcome" where
  "TcpConnection_StartReadInLoop a w = with_conn a w (\<lambda>c.
     with_channel get_channel (tc_channel c) w (\<lambda>ch.
     if \<not> tc_read_flag c \<or> \<not> Channel_isWriting ch
     then obind (on_channel (tc_channel c) Channel_EnableReading w) (\<lambda>w.
          Inr (put_conn a (c\<lparr>tc_read_flag := True\<rparr>) w))
     else Inr w))"

definition TcpConnection_StopReadInLoop :: "nat \<Rightarrow> net \<Rightarrow> net outcome" where
  "TcpConnection_StopReadInLoop a w = with_conn a w (\<lambda>c.
     with_channel get_channel (tc_channel c) w (\<lambda>ch.
     if tc_read_flag c \<or> Channel_isReading ch
     then obind (on_channel (tc_channel c) Channel_DisableReading w) (\<lambda>w.
          Inr (put_conn a (c\<lparr>tc_read_flag := False\<rparr>) w))
     else Inr w))"

definition TcpConnection_StartRead :: "(closure \<Rightarrow> net \<Rightarrow> net outcome) \<Rightarrow> nat \<Rightarrow> net \<Rightarrow> net outcome" where
  "TcpConnection_StartRead run a w = with_conn a w (\<lambda>c. run_in_loop run (tc_event_loop c) (DoStartRead a) w)"

definition TcpConnection_StopRead :: "(closure \<Rightarrow> net \<Rightarrow> net outcome) \<Rightarrow> nat \<Rightarrow> net \<Rightarrow> net outcome" where
  "TcpConnection_StopRead run a w = with_conn a w (\<lambda>c. run_in_loop run (tc_event_loop c) (DoStopRead a) w)"

text \<open>The tasks of a connection that call no user code.\<close>

fun run_conn_task :: "closure \<Rightarrow> net \<Rightarrow> net outcome" where
  "run_conn_task (DoSend a data) w = TcpConnection_Send a data w"
| "run_conn_task (DoShutdown a) w = TcpConnection_ShutdownInLoop a w"
| "run_conn_task (DoStartRead a) w = TcpConnection_StartReadInLoop a w"
| "run_conn_task (DoStopRead a) w = TcpConnection_StopReadInLoop a w"
| "run_conn_task (DoDestroyed a) w = TcpConnection_ConnectionDestroyed a w"
| "run_conn_task _ w = Inl BadFunctionCall"

section \<open>What sending does\<close>

lemma Append_indices:
  "Buffer_Append data len b = Inr b' \<Longrightarrow>
   bf_read_index b' = bf_read_index b \<and> bf_write_index b' = bf_write_index b \<and>
   length (bf_buffer b') \<ge> len"
  by (auto simp: Buffer_Append_def outcome_simps store_block_def split: if_splits)

lemma on_conn_Inr: "on_conn a g w = Inr w' \<longleftrightarrow> (\<exists>c. nt_conns w a = Some c \<and> w' = put_conn a (g c) w)"
  by (auto simp: on_conn_def with_conn_def split: option.splits)

lemma with_conn_Some: "nt_conns w a = Some c \<Longrightarrow> with_conn a w k = k c"
  by (simp add: with_conn_def)

lemma with_channel_Some: "get a w = Some c \<Longrightarrow> with_channel get a w k = k c"
  by (simp add: with_channel_def)

text \<open>The output buffer of a connection that has never queued anything.\<close>

definition out_idle :: "tcp_connection \<Rightarrow> bool" where
  "out_idle c \<longleftrightarrow> bf_read_index (tc_output_buffer c) = 0 \<and> bf_write_index (tc_output_buffer c) = 0 \<and>
     bf_buffer (tc_output_buffer c) \<noteq> [] \<and> length (bf_buffer (tc_output_buffer c)) < 2 ^ 64"

lemma out_idle_sizes:
  "out_idle c \<Longrightarrow> Buffer_ReadableBytes (tc_output_buffer c) = 0"
  "out_idle c \<Longrightarrow> Buffer_WriteableBytes (tc_output_buffer c) = length (bf_buffer (tc_output_buffer c))"
  by (simp_all add: out_idle_def Buffer_ReadableBytes_def Buffer_WriteableBytes_def sz_sub_id)

lemma length_vector_resize: "vector_resize n d = Inr d' \<Longrightarrow> length d' = n \<and> n \<le> vector_max_size"
  by (auto simp: vector_resize_def split: if_splits)

lemma Append_keeps_idle:
  assumes idle: "out_idle c" and b: "Buffer_Append data len (tc_output_buffer c) = Inr b"
  shows "out_idle (c\<lparr>tc_output_buffer := b\<rparr>)"
proof -
  let ?o = "tc_output_buffer c"
  from b obtain b1 d where b1: "b1 = ?o \<or> (\<exists>n d. vector_resize n (bf_buffer ?o) = Inr d \<and> b1 = ?o\<lparr>bf_buffer := d\<rparr>)"
    and room: "len < Buffer_WriteableBytes b1"
    and d: "store_block (bf_write_index b1) (take len data) (bf_buffer b1) = Inr d" "b = b1\<lparr>bf_buffer := d\<rparr>"
    by (auto simp only: Buffer_Append_def obind_Inr_iff check_Inr_iff sum.inject split: if_splits)
  have w: "bf_write_index b1 = 0" using b1 idle by (auto simp: out_idle_def)
  have "length (bf_buffer b1) < 2 ^ 64"
    using b1 idle by (auto simp: out_idle_def dest!: length_vector_resize)
  moreover have "bf_buffer b1 \<noteq> []"
    using room w by (auto simp: Buffer_WriteableBytes_def sz_sub_id)
  moreover have "length d = length (bf_buffer b1)" by (rule length_store_block [OF d(1)])
  ultimately show ?thesis
    using Append_indices [OF b] idle d(2) by (auto simp: out_idle_def)
qed

text \<open>With room for the whole message \<open>Send\<close> succeeds whatever the kernel returns.\<close>

lemma Send_idle_total:
  assumes "nt_conns w a = Some c" "out_idle c" "get_channel (tc_channel c) w = Some ch"
    and room: "length data < length (bf_buffer (tc_output_buffer c))" "length (bf_buffer (tc_output_buffer c)) < 2 ^ 31"
  shows "\<exists>b. TcpConnection_Send a data w = Inr (put_conn a (c\<lparr>tc_output_buffer := b\<rparr>)
     (sys (SysSend (ch_fd ch) data (fst (next_send w))) (snd (next_send w)))) \<and> out_idle (c\<lparr>tc_output_buffer := b\<rparr>)"
proof -
  obtain n w1 where n: "next_send w = (n, w1)" by (cases "next_send w")
  have w1: "nt_conns w1 = nt_conns w" using n by (auto simp: next_send_def split: list.splits)
  let ?o = "tc_output_buffer c"
  have ne: "Buffer_WriteableBytes ?o \<noteq> 0" using assms(2) by (simp add: out_idle_sizes out_idle_def)
  have run: "TcpConnection_Send a data w = (if to_size n < length data
      then obind (Buffer_Append (drop (to_size n) data) (sz_sub (length data) (to_size n)) ?o) (\<lambda>b.
        Inr (put_conn a (c\<lparr>tc_output_buffer := b\<rparr>) (sys (SysSend (ch_fd ch) data n) w1)))
      else Inr (sys (SysSend (ch_fd ch) data n) w1))"
    unfolding TcpConnection_Send_def with_conn_Some [OF assms(1)] Let_def out_idle_sizes(1) [OF assms(2)]
      with_channel_Some [of get_channel, OF assms(3)] n prod.case
    using ne by simp
  show ?thesis
  proof (cases "to_size n < length data")
    case True
    have inv: "bf_invar ?o" using assms(2) room(2) by (simp add: out_idle_def bf_invar_def)
    have sub: "sz_sub (length data) (to_size n) = length data - to_size n"
      using True room by (intro sz_sub_id) simp_all
    have "length data - to_size n < Buffer_WriteableBytes ?o"
      using room(1) by (simp add: out_idle_sizes(2) [OF assms(2)])
    then obtain b where b: "Buffer_Append (drop (to_size n) data) (sz_sub (length data) (to_size n)) ?o = Inr b"
      using bf_append_fits [OF inv, of "length data - to_size n" "drop (to_size n) data"] sub by auto
    with True run n Append_keeps_idle [OF assms(2) b] show ?thesis by auto
  next
    case False
    have "put_conn a (c\<lparr>tc_output_buffer := ?o\<rparr>) (sys (SysSend (ch_fd ch) data n) w1) = sys (SysSend (ch_fd ch) data n) w1"
      using assms(1) w1 by (simp add: put_conn_def sys_def fun_upd_idem)
    moreover have "out_idle (c\<lparr>tc_output_buffer := ?o\<rparr>)" using assms(2) by simp
    ultimately show ?thesis using False run n by (intro exI [of _ ?o]) simp
  qed
qed

text \<open>C35: on a connection that has queued nothing, \<open>Send\<close> makes exactly one \<open>send\<close> call with the whole
  message, and whatever the kernel accepts of it, afterwards the output buffer still reads as empty,
  writing is not enabled and the poller is not told: bytes the kernel did not take are never sent.\<close>

theorem TcpConnection_Send_never_queues:
  assumes "nt_conns w a = Some c" "out_idle c" "get_channel (tc_channel c) w = Some ch"
    and "TcpConnection_Send a data w = Inr w'"
  shows "\<exists>b. nt_conns w' = (nt_conns w)(a \<mapsto> c\<lparr>tc_output_buffer := b\<rparr>) \<and>
     out_idle (c\<lparr>tc_output_buffer := b\<rparr>) \<and> Buffer_ReadableBytes b = 0 \<and>
     nt_calls w' = nt_calls w @ [SysSend (ch_fd ch) data (fst (next_send w))] \<and>
     el_channels w' = el_channels w \<and> el_poller w' = el_poller w"
proof -
  obtain n w1 where n: "next_send w = (n, w1)" by (cases "next_send w")
  then have w1: "nt_conns w1 = nt_conns w" "nt_calls w1 = nt_calls w" "el_channels w1 = el_channels w"
    "el_poller w1 = el_poller w"
    by (auto simp: next_send_def split: list.splits)
  let ?b = "tc_output_buffer c"
  have ne: "Buffer_WriteableBytes ?b \<noteq> 0" using assms(2) by (simp add: out_idle_sizes out_idle_def)
  note run = assms(4) [unfolded TcpConnection_Send_def Let_def with_conn_Some [OF assms(1)]
    with_channel_Some [of get_channel, OF assms(3)] n prod.case]
  show ?thesis
  proof (cases "to_size n < length data")
    case True
    with run ne obtain b where
      b: "Buffer_Append (drop (to_size n) data) (sz_sub (length data) (to_size n)) ?b = Inr b"
      "w' = put_conn a (c\<lparr>tc_output_buffer := b\<rparr>) (sys (SysSend (ch_fd ch) data n) w1)"
      by (auto simp: out_idle_sizes(1) [OF assms(2)] outcome_simps)
    from Append_keeps_idle [OF assms(2) b(1)] have idle: "out_idle (c\<lparr>tc_output_buffer := b\<rparr>)" .
    from out_idle_sizes(1) [OF this] idle b(2) w1 n show ?thesis
      by (intro exI [of _ b]) (simp add: put_conn_def sys_def)
  next
    case False
    with run have "w' = sys (SysSend (ch_fd ch) data n) w1"
      by (simp add: out_idle_sizes(1) [OF assms(2)])
    with assms(1,2) w1 n show ?thesis
      by (intro exI [of _ ?b]) (auto simp: sys_def out_idle_sizes)
  qed
qed

text \<open>A world with one connection at address 10, its channel at 11, for the witnesses.\<close>

definition conn10 :: "connection_state \<Rightarrow> tcp_connection" where
  "conn10 st = \<lparr>tc_event_loop = 1, tc_name = ''n'', tc_state = st, tc_read_flag = False,
      tc_socket = 5, tc_channel = 11, tc_local_addr = no_addr,
      tc_client_addr = no_addr, tc_connection_cb = None,
      tc_message_cb = None, tc_write_complete_cb = None, tc_close_cb = None,
      tc_input_buffer = \<lparr>bf_buffer = replicate 8 NUL, bf_read_index = 0, bf_write_index = 0\<rparr>,
      tc_output_buffer = \<lparr>bf_buffer = replicate 8 NUL, bf_read_index = 0, bf_write_index = 0\<rparr>\<rparr>"

definition one_conn :: "connection_state \<Rightarrow> int list \<Rightarrow> net" where
  "one_conn st sends = put_conn 10 (conn10 st) (put_channel 11 (Channel_EnableReading (Channel_new 5))
       (net_new (EventLoop_new 1 3 4 6 False) 20 [] [] sends [] []))"

lemma one_conn_simps:
  "nt_conns (one_conn st sends) 10 = Some (conn10 st)" "tc_channel (conn10 st) = 11"
  "get_channel 11 (one_conn st sends) = Some (Channel_EnableReading (Channel_new 5))"
  "tc_event_loop (conn10 st) = el_thread_id (one_conn st sends)" "nt_calls (one_conn st sends) = []" "nt_send (one_conn st sends) = sends"
  "ch_fd (Channel_EnableReading (Channel_new 5)) = 5" "tc_state (conn10 st) = st"
  "tc_output_buffer (conn10 st) = \<lparr>bf_buffer = replicate 8 NUL, bf_read_index = 0, bf_write_index = 0\<rparr>"
  "out_idle (conn10 st)" "Channel_isReading (Channel_EnableReading (Channel_new 5))"
  by (simp_all add: one_conn_def conn10_def put_conn_def put_channel_def get_channel_def net_new_def
      EventLoop_new_def event_loop.defs Channel_new_def mask_defs out_idle_def isReading_bit)

theorem TcpConnection_Send_never_queues_witness:
  "\<exists>w' b c. nt_conns (one_conn kConnected [2]) 10 = Some c \<and>
     TcpConnection_Send 10 ''hello'' (one_conn kConnected [2]) = Inr w' \<and>
     nt_conns w' = (nt_conns (one_conn kConnected [2]))(10 \<mapsto> c\<lparr>tc_output_buffer := b\<rparr>) \<and>
     Buffer_ReadableBytes b = 0 \<and> nt_calls w' = [SysSend 5 ''hello'' 2]"
proof -
  let ?w = "one_conn kConnected [2]"
  have "to_size 2 = 2" "sz_sub (Suc (Suc (Suc (Suc (Suc 0))))) 2 = 3" by code_simp+
  moreover have "Buffer_Append ''llo'' 3 (tc_output_buffer (conn10 kConnected)) =
      Inr \<lparr>bf_buffer = ''llo'' @ replicate 5 NUL, bf_read_index = 0, bf_write_index = 0\<rparr>"
    "Buffer_ReadableBytes (tc_output_buffer (conn10 kConnected)) = 0"
    "Buffer_WriteableBytes (tc_output_buffer (conn10 kConnected)) = 8"
    unfolding one_conn_simps by code_simp+
  ultimately obtain w' where w': "TcpConnection_Send 10 ''hello'' ?w = Inr w'"
    by (auto simp: TcpConnection_Send_def with_conn_def with_channel_def next_send_def sys_def
        get_channel_def [of _ "_ :: net"] one_conn_simps(1,2,5-8) one_conn_simps(3) [unfolded get_channel_def])
  have "fst (next_send ?w) = 2" by (simp add: one_conn_simps next_send_def)
  moreover have "get_channel (tc_channel (conn10 kConnected)) ?w = Some (Channel_EnableReading (Channel_new 5))"
    by (simp add: one_conn_simps)
  ultimately show ?thesis
    using TcpConnection_Send_never_queues [OF one_conn_simps(1,10) _ w'] w' by (auto simp: one_conn_simps)
qed

text \<open>A partial send whose rest is exactly as long as the output buffer's storage aborts the
  process, on the strict assertion of \<open>Buffer::Append\<close>.\<close>

theorem TcpConnection_Send_exact_rest_aborts:
  assumes "nt_conns w a = Some c" "out_idle c" "get_channel (tc_channel c) w = Some ch"
    and "fst (next_send w) = int n" "n \<le> length data" "length data < 2 ^ 64"
    and "length data - n = length (bf_buffer (tc_output_buffer c))"
  shows "TcpConnection_Send a data w = Inl AssertFailed"
proof -
  obtain w1 where n: "next_send w = (int n, w1)" using assms(4) by (cases "next_send w") auto
  have ne: "0 < length data - n" using assms(2,7) by (simp add: out_idle_def)
  have sz: "to_size (int n) = n" "sz_sub (length data) n = length data - n"
    using assms(5,6) by (simp_all add: to_size_int sz_sub_id)
  have "Buffer_Append (drop n data) (length data - n) (tc_output_buffer c) = Inl AssertFailed"
    using assms(7) by (simp add: Buffer_Append_def out_idle_sizes(2) [OF assms(2)])
  moreover have "n < length data" "Buffer_WriteableBytes (tc_output_buffer c) \<noteq> 0"
    using ne assms(2) by (simp_all add: out_idle_sizes out_idle_def)
  ultimately show ?thesis
    using assms(1,3) by (simp add: TcpConnection_Send_def with_conn_def with_channel_def Let_def n sz
        out_idle_sizes(1) [OF assms(2)])
qed

theorem TcpConnection_Send_exact_rest_aborts_witness:
  "TcpConnection_Send 10 ''HTTP/1.1 200'' (one_conn kConnected [4]) = Inl AssertFailed"
  by (rule TcpConnection_Send_exact_rest_aborts [where n = 4 and c = "conn10 kConnected"
        and ch = "Channel_EnableReading (Channel_new 5)"])
    (simp_all add: one_conn_simps next_send_def)

section \<open>Closing and pausing\<close>

text \<open>\<open>Shutdown\<close> acts once: from \<open>kConnected\<close> it moves to \<open>kDisconnecting\<close> and, unless writing is
  enabled, half-closes the socket; in every other state, so also when called again, it changes
  nothing.\<close>

theorem TcpConnection_Shutdown_once:
  assumes "nt_conns w a = Some c" "get_channel (tc_channel c) w = Some ch" "tc_event_loop c = el_thread_id w"
  shows "\<exists>w'. TcpConnection_Shutdown run_conn_task a w = Inr w' \<and>
     (if tc_state c = kConnected
      then nt_conns w' = (nt_conns w)(a \<mapsto> c\<lparr>tc_state := kDisconnecting\<rparr>) \<and>
        nt_calls w' = nt_calls w @ (if Channel_isWriting ch then [] else [SysShutdownWrite (tc_socket c)])
      else w' = w) \<and>
     TcpConnection_Shutdown run_conn_task a w' = Inr w'"
  using assms
  by (auto simp: TcpConnection_Shutdown_def put_conn_def
      TcpConnection_ShutdownInLoop_def with_conn_def with_channel_def get_channel_def
      Socket_ShutdownWrite_def sys_def)

theorem TcpConnection_Shutdown_once_witness:
  "\<exists>w'. TcpConnection_Shutdown run_conn_task 10 (one_conn kConnected []) = Inr w' \<and>
     TcpConnection_Shutdown run_conn_task 10 w' = Inr w'"
  using TcpConnection_Shutdown_once [of "one_conn kConnected []" 10] by (fastforce simp: one_conn_simps)

text \<open>\<open>StopRead\<close> clears the reading interest of the channel but makes no \<open>epoll_ctl\<close> call, so the
  kernel's interest list is unchanged and input keeps being reported; \<open>StartRead\<close> likewise.\<close>

theorem TcpConnection_StopRead_not_told:
  assumes "nt_conns w a = Some c" "get_channel (tc_channel c) w = Some ch" "Channel_isReading ch"
    and "tc_event_loop c = el_thread_id w"
  shows "\<exists>w' ch'. TcpConnection_StopRead run_conn_task a w = Inr w' \<and> el_poller w' = el_poller w \<and>
     get_channel (tc_channel c) w' = Some ch' \<and> \<not> Channel_isReading ch' \<and>
     (\<exists>w'' ch''. TcpConnection_StartRead run_conn_task a w' = Inr w'' \<and> el_poller w'' = el_poller w \<and>
       get_channel (tc_channel c) w'' = Some ch'' \<and> Channel_isReading ch'')"
  using assms
  by (auto simp: TcpConnection_StopRead_def TcpConnection_StartRead_def put_conn_def on_channel_def put_channel_def
      TcpConnection_StopReadInLoop_def TcpConnection_StartReadInLoop_def with_conn_def with_channel_def
      get_channel_def isReading_bit watch_bits)

theorem TcpConnection_StopRead_not_told_witness:
  "\<exists>w' ch'. TcpConnection_StopRead run_conn_task 10 (one_conn kConnected []) = Inr w' \<and>
     el_poller w' = el_poller (one_conn kConnected []) \<and>
     get_channel 11 w' = Some ch' \<and> \<not> Channel_isReading ch'"
  using TcpConnection_StopRead_not_told [of "one_conn kConnected []" 10] by (fastforce simp: one_conn_simps)

end
