(* ===== verification/Acceptor.thy ===== *)
theory Acceptor
  imports Net_World
begin

text \<open>
  \<open>Acceptor\<close> (Acceptor.h, Acceptor.cc): the listening socket and its channel, and the spare
  descriptor that is given up when the process has no descriptors left. \<open>callback\<close> is what
  \<open>connection_callback_\<close> does when it is set.
\<close>

section \<open>Operations\<close>

text \<open>The members are initialised in the order of their declaration: \<open>idlefd_\<close> first.\<close>

definition Acceptor_new :: "sockaddr_in \<Rightarrow> net \<Rightarrow> net" where
  "Acceptor_new server_addr w =
     (let (idlefd, w) = next_open w; w = sys (SysOpenDevNull idlefd) w;
          (acceptfd, w) = next_open w; w = sys (SysSocket acceptfd) w;
          h = nt_fresh w; w = w\<lparr>nt_fresh := h + 1\<rparr>;
          w = put_channel h (Channel_new acceptfd) w;
          w = sys (SysSetsockopt acceptfd SO_REUSEADDR 1) w;
          w = sys (SysSetsockopt acceptfd SO_REUSEPORT 1) w;
          w = put_channel h (Channel_set_read_call_back (Some OnAccept) (Channel_new acceptfd)) w
      in w\<lparr>nt_acceptor := \<lparr>ac_idlefd = idlefd, ac_acceptfd = acceptfd, ac_listen_flag = False,
             ac_server_addr = server_addr, ac_channel = h, ac_has_callback = False\<rparr>\<rparr>)"

definition Acceptor_set_connection_callback :: "net \<Rightarrow> net" where
  "Acceptor_set_connection_callback w = w\<lparr>nt_acceptor := (nt_acceptor w)\<lparr>ac_has_callback := True\<rparr>\<rparr>"

definition Acceptor_Bind :: "net \<Rightarrow> net" where
  "Acceptor_Bind w = sys (SysBind (ac_acceptfd (nt_acceptor w)) (ac_server_addr (nt_acceptor w))) w"

definition Acceptor_Listen :: "net \<Rightarrow> net outcome" where
  "Acceptor_Listen w =
     (let w = sys (SysListen (ac_acceptfd (nt_acceptor w))) w
      in obind (on_channel (ac_channel (nt_acceptor w)) Channel_EnableReading w) (\<lambda>w.
         Inr (w\<lparr>nt_acceptor := (nt_acceptor w)\<lparr>ac_listen_flag := True\<rparr>\<rparr>)))"

text \<open>A failing \<open>accept\<close> returns -1.\<close>

definition accepted_fd :: "int + int \<times> sockaddr_in \<Rightarrow> int" where
  "accepted_fd r = (case r of Inl errno \<Rightarrow> -1 | Inr (fd, addr) \<Rightarrow> fd)"

definition Acceptor_HandleReadEvent :: "(int \<Rightarrow> sockaddr_in \<Rightarrow> net \<Rightarrow> net outcome) \<Rightarrow> net \<Rightarrow> net outcome" where
  "Acceptor_HandleReadEvent callback w =
     (let (r, w) = next_accept w; w = sys (SysAccept (accepted_fd r)) w in
      case r of
        Inr (connfd, addr) \<Rightarrow>
          if ac_has_callback (nt_acceptor w) then callback connfd addr w
          else Inr (sys (SysClose connfd) w)
      | Inl errno \<Rightarrow>
          if errno = EMFILE then
            let w = sys (SysClose (ac_idlefd (nt_acceptor w))) w;
                (r, w) = next_accept w; w = sys (SysAccept (accepted_fd r)) w;
                w = w\<lparr>nt_acceptor := (nt_acceptor w)\<lparr>ac_idlefd := accepted_fd r\<rparr>\<rparr>;
                w = sys (SysClose (ac_idlefd (nt_acceptor w))) w;
                (fd, w) = next_open w; w = sys (SysOpenDevNull fd) w
            in Inr (w\<lparr>nt_acceptor := (nt_acceptor w)\<lparr>ac_idlefd := fd\<rparr>\<rparr>)
          else Inr w)"

text \<open>The listening socket itself is not closed.\<close>

definition Acceptor_destroy :: "net \<Rightarrow> net outcome" where
  "Acceptor_destroy w =
     obind (unregister_channel (ac_channel (nt_acceptor w)) w) (\<lambda>w.
       Inr (sys (SysClose (ac_idlefd (nt_acceptor w))) w))"

section \<open>The spare descriptor\<close>

text \<open>
  The descriptors the acceptor's calls leave open: what it accepted or opened successfully and has
  not closed.
\<close>

fun open_fds :: "sys_call list \<Rightarrow> int list \<Rightarrow> int list" where
  "open_fds [] fds = fds"
| "open_fds (SysAccept fd # cs) fds = open_fds cs (if 0 \<le> fd then fd # fds else fds)"
| "open_fds (SysOpenDevNull fd # cs) fds = open_fds cs (if 0 \<le> fd then fd # fds else fds)"
| "open_fds (SysClose fd # cs) fds = open_fds cs (remove1 fd fds)"
| "open_fds (_ # cs) fds = open_fds cs fds"

text \<open>C40: when the process has run out of descriptors the acceptor gives up its spare one, accepts the
  waiting client with it, closes that connection at once and takes a spare descriptor again: the
  number of open descriptors is what it was, no connection is created, and the client that could
  not be served is off the queue.\<close>

theorem Acceptor_EMFILE:
  assumes "nt_accept w = Inl EMFILE # Inr (fd, addr) # rest" "nt_open w = spare # opens"
    and "0 \<le> fd" "0 \<le> spare" "ac_idlefd (nt_acceptor w) \<in> set fds"
  shows "\<exists>w' cs. Acceptor_HandleReadEvent callback w = Inr w' \<and> nt_calls w' = nt_calls w @ cs \<and>
     length (open_fds cs fds) = length fds \<and> ac_idlefd (nt_acceptor w') = spare \<and> spare \<in> set (open_fds cs fds) \<and>
     SysAccept fd \<in> set cs \<and> SysClose fd \<in> set cs \<and> nt_accept w' = rest \<and>
     nt_conns w' = nt_conns w \<and> nt_connection_map w' = nt_connection_map w"
  using assms
  by (auto simp: Acceptor_HandleReadEvent_def next_accept_def next_open_def sys_def accepted_fd_def
      length_remove1 dest: length_pos_if_in_set)

theorem Acceptor_EMFILE_witness:
  "let w = (net_new (EventLoop_new 1 3 4 6 False) 20 [] [] [] [Inl EMFILE, Inr (9, no_addr)] [8])
       \<lparr>nt_acceptor := \<lparr>ac_idlefd = 7, ac_acceptfd = 6, ac_listen_flag = True, ac_server_addr = no_addr,
         ac_channel = 0, ac_has_callback = True\<rparr>\<rparr>
   in \<exists>w' cs. Acceptor_HandleReadEvent (\<lambda>_ _. Inr) w = Inr w' \<and> nt_calls w' = nt_calls w @ cs \<and>
     length (open_fds cs [7, 6]) = length [7, 6 :: int] \<and> ac_idlefd (nt_acceptor w') = 8"
proof -
  let ?w = "(net_new (EventLoop_new 1 3 4 6 False) 20 [] [] [] [Inl EMFILE, Inr (9, no_addr)] [8])
       \<lparr>nt_acceptor := \<lparr>ac_idlefd = 7, ac_acceptfd = 6, ac_listen_flag = True, ac_server_addr = no_addr,
         ac_channel = 0, ac_has_callback = True\<rparr>\<rparr>"
  have "nt_accept ?w = Inl EMFILE # Inr (9, no_addr) # []" "nt_open ?w = 8 # []"
    by (simp_all add: net_new_def event_loop.defs EventLoop_new_def)
  from Acceptor_EMFILE [OF this, of "[7, 6]" "\<lambda>_ _. Inr"] show ?thesis by (fastforce simp: Let_def)
qed

end
