(* ===== verification/Tcp_Server.thy ===== *)
theory Tcp_Server
  imports Tcp_Connection Acceptor
begin

text \<open>
  \<open>TcpServer\<close> (TcpServer.h, TcpServer.cc): connections are given to the loops of the pool and table
  changes to the server's own loop. The lemmas here are about the number of threads the constructor
  sets, none: every connection runs on the base loop, so \<open>RunInLoop\<close> executes at once. \<open>user\<close> is the
  behaviour of the callbacks the application installs. At the end the closures of the program are
  given their meaning: \<open>run_task\<close> for tasks, \<open>run_event\<close> for channel callbacks.
\<close>

section \<open>Operations\<close>

definition on_server :: "(tcp_server \<Rightarrow> tcp_server) \<Rightarrow> net \<Rightarrow> net" where
  "on_server g w = w\<lparr>nt_server := g (nt_server w)\<rparr>"

definition TcpServer_SetThreadNum :: "int \<Rightarrow> net \<Rightarrow> net" where
  "TcpServer_SetThreadNum n = on_server (\<lambda>s. s\<lparr>ts_pool := EventLoopThreadPool_set_thread_num n (ts_pool s)\<rparr>)"

text \<open>\<open>addr\<close> is what \<open>inet_addr\<close> and \<open>htons\<close> make of the address and port given.\<close>

definition TcpServer_new :: "sockaddr_in \<Rightarrow> string \<Rightarrow> net \<Rightarrow> net" where
  "TcpServer_new addr name w =
     (let w = on_server (\<lambda>_. \<lparr>ts_event_loop = el_thread_id w, ts_server_addr = addr, ts_name = name,
                ts_pool = EventLoopThreadPool_new (el_thread_id w) name, ts_connection_cb = None,
                ts_message_cb = None, ts_write_complete_cb = None, ts_thread_init_cb = False,
                ts_next_connection = 1\<rparr>) w;
          w = TcpServer_SetThreadNum 0 w;
          w = Acceptor_new (ts_server_addr (nt_server w)) w
      in Acceptor_set_connection_callback w)"

definition TcpServer_SetConnectionCallback :: "conn_cb \<Rightarrow> net \<Rightarrow> net" where
  "TcpServer_SetConnectionCallback cb = on_server (\<lambda>s. s\<lparr>ts_connection_cb := Some cb\<rparr>)"

definition TcpServer_SetMessageCallback :: "conn_cb \<Rightarrow> net \<Rightarrow> net" where
  "TcpServer_SetMessageCallback cb = on_server (\<lambda>s. s\<lparr>ts_message_cb := Some cb\<rparr>)"

definition TcpServer_SetWriteCompleteCallback :: "conn_cb \<Rightarrow> net \<Rightarrow> net" where
  "TcpServer_SetWriteCompleteCallback cb = on_server (\<lambda>s. s\<lparr>ts_write_complete_cb := Some cb\<rparr>)"

definition TcpServer_Start :: "(closure \<Rightarrow> net \<Rightarrow> net outcome) \<Rightarrow> net \<Rightarrow> net outcome" where
  "TcpServer_Start run w =
     (let w = Acceptor_Bind w in
      obind (Acceptor_Listen w) (\<lambda>w.
      obind (EventLoopThreadPool_Start (ts_thread_init_cb (nt_server w)) (ts_pool (nt_server w))) (\<lambda>p.
      let w = on_server (\<lambda>s. s\<lparr>ts_pool := p\<rparr>) w in
      run_in_loop run (ts_event_loop (nt_server w)) (DoAddChannel (ac_channel (nt_acceptor w))) w)))"

text \<open>The name of a connection: address and port, nothing between them.\<close>

definition connection_name :: "sockaddr_in \<Rightarrow> string" where
  "connection_name addr = inet_ntoa (sin_addr addr) @ to_string_nat (unat (sin_port addr))"

text \<open>
  The local \<open>shared_ptr\<close> lives to the end of the function. Overwriting an entry of the table releases
  the connection it referred to.
\<close>

definition TcpServer_HandleConnection :: "(closure \<Rightarrow> net \<Rightarrow> net outcome) \<Rightarrow> int \<Rightarrow> sockaddr_in \<Rightarrow> net \<Rightarrow> net outcome" where
  "TcpServer_HandleConnection run sockfd client_addr w =
     obind (EventLoopThreadPool_NextLoop (ts_pool (nt_server w))) (\<lambda>(io_loop, p).
     let w = on_server (\<lambda>s. s\<lparr>ts_pool := p\<rparr>) w;
         name = connection_name client_addr in
     obind (TcpConnection_new (nt_junk w) io_loop name sockfd (ts_server_addr (nt_server w)) client_addr w) (\<lambda>(a, w).
     let w = hold a w;
         old = map_find (nt_connection_map w) name;
         w = w\<lparr>nt_connection_map := map_insert name a (nt_connection_map w)\<rparr> in
     obind (case old of None \<Rightarrow> Inr w | Some b \<Rightarrow> collect b w) (\<lambda>w.
     obind (on_conn a (\<lambda>c. TcpConnection_set_close_cb (Some ServerRemove)
              (TcpConnection_set_write_complete_cb (ts_write_complete_cb (nt_server w))
              (TcpConnection_set_message_cb (ts_message_cb (nt_server w))
              (TcpConnection_set_connection_cb (ts_connection_cb (nt_server w)) c)))) w) (\<lambda>w.
     obind (run_in_loop run io_loop (DoEstablished a) w)
       (drop_hold a)))))"

text \<open>Erasing by name releases the connection that is stored under it.\<close>

definition TcpServer_RemoveConnectionInLoop :: "nat \<Rightarrow> net \<Rightarrow> net outcome" where
  "TcpServer_RemoveConnectionInLoop a w = with_conn a w (\<lambda>c.
     let old = map_find (nt_connection_map w) (tc_name c);
         w = w\<lparr>nt_connection_map := map_erase (tc_name c) (nt_connection_map w)\<rparr> in
     obind (case old of None \<Rightarrow> Inr w | Some b \<Rightarrow> collect b w) (TcpConnection_ConnectionDestroyed a))"

definition TcpServer_RemoveConnection :: "(closure \<Rightarrow> net \<Rightarrow> net outcome) \<Rightarrow> nat \<Rightarrow> net \<Rightarrow> net outcome" where
  "TcpServer_RemoveConnection run a w = run_in_loop run (ts_event_loop (nt_server w)) (DoRemove a) w"

fun TcpServer_destroy_loop :: "(closure \<Rightarrow> net \<Rightarrow> net outcome) \<Rightarrow> (string \<times> nat) list \<Rightarrow> net \<Rightarrow> net outcome" where
  "TcpServer_destroy_loop run [] w = Inr w"
| "TcpServer_destroy_loop run ((name, a) # items) w =
     (let w = hold a w;
          w = w\<lparr>nt_connection_map := map_erase name (nt_connection_map w)\<rparr> in
      obind (with_conn a w (\<lambda>c. run_in_loop run (tc_event_loop c) (DoDestroyed a) w)) (\<lambda>w.
      obind (drop_hold a w) (TcpServer_destroy_loop run items)))"

definition TcpServer_destroy :: "(closure \<Rightarrow> net \<Rightarrow> net outcome) \<Rightarrow> net \<Rightarrow> net outcome" where
  "TcpServer_destroy run w = TcpServer_destroy_loop run (nt_connection_map w) w"

section \<open>The closures of the program\<close>

fun run_task :: "(conn_cb \<Rightarrow> nat \<Rightarrow> net \<Rightarrow> net outcome) \<Rightarrow> closure \<Rightarrow> net \<Rightarrow> net outcome" where
  "run_task user (DoEstablished a) w = TcpConnection_ConnectionEstablished user a w"
| "run_task user (DoRemove a) w = TcpServer_RemoveConnectionInLoop a w"
| "run_task user (DoAddChannel h) w = register_channel h w"
| "run_task user f w = run_conn_task f w"

definition server_cbs :: "(conn_cb \<Rightarrow> nat \<Rightarrow> net \<Rightarrow> net outcome) \<Rightarrow> conn_cb \<Rightarrow> nat \<Rightarrow> net \<Rightarrow> net outcome" where
  "server_cbs user cb a w =
     (if cb = ServerRemove then TcpServer_RemoveConnection (run_task user) a w else user cb a w)"

fun run_event :: "(conn_cb \<Rightarrow> nat \<Rightarrow> net \<Rightarrow> net outcome) \<Rightarrow> closure \<Rightarrow> net \<Rightarrow> net outcome" where
  "run_event user (OnRead a) w = TcpConnection_HandleRead (server_cbs user) a w"
| "run_event user (OnWrite a) w = TcpConnection_HandleWrite (server_cbs user) a w"
| "run_event user (OnClose a) w = TcpConnection_HandleClose (server_cbs user) a w"
| "run_event user (OnError a) w = TcpConnection_HandleError (server_cbs user) a w"
| "run_event user OnAccept w = Acceptor_HandleReadEvent (TcpServer_HandleConnection (run_task user)) w"
| "run_event user OnWakeup w = Inr (EventLoop_HandleWakeUpEvent w)"
| "run_event user OnTimer w =
     (case EventLoop_HandleTimerEvent (run_task user) (nt_clock w) w of None \<Rightarrow> Inl NoReturn | Some r \<Rightarrow> r)"
| "run_event user f w = run_task user f w"

section \<open>A live connection and its end\<close>

text \<open>
  A connection the server has established: in the table under its own name only, not referred to
  from the stack, its channel at the next address and registered at most under its own descriptor,
  which no other channel is registered under, the server's close callback installed; connection, server
  and channel belong to the running loop.
\<close>

definition live_conn :: "nat \<Rightarrow> tcp_connection \<Rightarrow> closure channel \<Rightarrow> net \<Rightarrow> bool" where
  "live_conn a c ch w \<longleftrightarrow> nt_conns w a = Some c \<and> get_channel (tc_channel c) w = Some ch \<and>
     map_sorted (nt_connection_map w) \<and> map_find (nt_connection_map w) (tc_name c) = Some a \<and>
     (\<forall>n. map_find (nt_connection_map w) n = Some a \<longrightarrow> n = tc_name c) \<and> a \<notin> set (nt_stack w) \<and>
     map_sorted (pl_channels_map (el_poller w)) \<and> tc_channel c - 1 = a \<and>
     (\<forall>fd. map_find (pl_channels_map (el_poller w)) fd = Some (tc_channel c) \<longrightarrow> fd = ch_fd ch) \<and>
     map_find (pl_channels_map (el_poller w)) (ch_fd ch) \<in> {None, Some (tc_channel c)} \<and>
     el_wakeup_channel w \<noteq> Some (tc_channel c) \<and> el_timer_channel w \<noteq> Some (tc_channel c) \<and>
     ac_channel (nt_acceptor w) \<noteq> tc_channel c \<and> tc_close_cb c = Some ServerRemove \<and>
     \<not> other_loop_owns (tc_channel c) (nt_loops w) \<and> tc_event_loop c = el_thread_id w \<and>
     ts_event_loop (nt_server w) = el_thread_id w"

lemma in_values_iff:
  "map_sorted m \<Longrightarrow> v \<in> snd ` set m \<longleftrightarrow> (\<exists>k. map_find m k = Some v)"
proof -
  assume "map_sorted m"
  then have "distinct (map fst m)"
    unfolding map_sorted_def by (simp add: strict_sorted_iff)
  then show ?thesis by (force simp: image_iff)
qed

lemma not_value_erased:
  assumes "map_sorted m" "\<And>k'. map_find m k' = Some v \<Longrightarrow> k' = k"
  shows "v \<notin> snd ` set (map_erase k m)"
  using assms by (auto simp: in_values_iff map_sorted_erase map_of_map_erase)

lemma HandleClose_live:
  assumes live: "live_conn a c ch w"
  shows "\<exists>w'. TcpConnection_HandleClose (server_cbs user) a w = Inr w' \<and>
     nt_conns w' = (nt_conns w)(a := None) \<and> el_channels w' = (el_channels w)(tc_channel c := None) \<and>
     nt_connection_map w' = map_erase (tc_name c) (nt_connection_map w) \<and>
     pl_channels_map (el_poller w') = map_erase (ch_fd ch) (pl_channels_map (el_poller w)) \<and>
     nt_calls w' = nt_calls w @ [SysClose (tc_socket c)] \<and> nt_stack w' = nt_stack w"
proof -
  note l = live [unfolded live_conn_def]
  have v: "a \<in> snd ` set (nt_connection_map w)" using l by (auto simp: in_values_iff)
  have nv: "a \<notin> snd ` set (map_erase (tc_name c) (nt_connection_map w))"
    using l by (intro not_value_erased) auto
  have nh: "tc_channel c \<notin> snd ` set (map_erase (ch_fd ch) (pl_channels_map (el_poller w)))"
    using l by (intro not_value_erased) auto
  have reg: "map_find (pl_channels_map (el_poller w)) (ch_fd ch) = None \<or>
      map_find (pl_channels_map (el_poller w)) (ch_fd ch) = Some (tc_channel c)"
    using l by blast
  show ?thesis
    using l reg v nv nh
    by (simp add: TcpConnection_HandleClose_def on_conn_def with_conn_def put_conn_def
        Channel_set_event_handling_def with_channel_def get_channel_def put_channel_def
        unregister_own registered_def conn_has_channel_def
        EventLoop_RemoveChannel_def on_channel_def EpollPoller_RemoveChannel_def EpollPoller_Update_def Let_def
        shared_call_def conn_owned_def server_cbs_def TcpServer_RemoveConnection_def hold_def TcpServer_RemoveConnectionInLoop_def collect_def
        TcpConnection_ConnectionDestroyed_def drop_hold_def TcpConnection_destroy_def channel_owned_def
        free_channel_def Channel_destroy_def Socket_destroy_def sys_def)
qed

lemma HandleError_eq: "TcpConnection_HandleError = TcpConnection_HandleClose"
  by (simp add: fun_eq_iff TcpConnection_HandleError_def TcpConnection_HandleClose_def)

lemma live_put_channel:
  "live_conn a c ch w \<Longrightarrow> ch_fd ch' = ch_fd ch \<Longrightarrow> live_conn a c ch' (put_channel (tc_channel c) ch' w)"
  by (simp add: live_conn_def put_channel_def get_channel_def)

lemma live_put_conn:
  "live_conn a c ch w \<Longrightarrow> tc_name c' = tc_name c \<Longrightarrow> tc_channel c' = tc_channel c \<Longrightarrow>
   tc_close_cb c' = tc_close_cb c \<Longrightarrow> tc_event_loop c' = tc_event_loop c \<Longrightarrow> live_conn a c' ch (put_conn a c' w)"
  by (simp add: live_conn_def put_conn_def get_channel_def)

lemma live_update:
  "live_conn a c ch (w\<lparr>nt_readv := r\<rparr>) = live_conn a c ch w"
  "live_conn a c ch (w\<lparr>nt_send := ss\<rparr>) = live_conn a c ch w"
  "live_conn a c ch (w\<lparr>nt_calls := cs\<rparr>) = live_conn a c ch w"
  "live_conn a c ch (w\<lparr>nt_request := q\<rparr>) = live_conn a c ch w"
  by (simp_all add: live_conn_def get_channel_def)

text \<open>Reading ends the connection when the peer has closed, when reading fails, and after a message
  whose callback leaves the connection live.\<close>

lemma HandleRead_eof:
  assumes live: "live_conn a c ch w" and inv: "bf_invar (tc_input_buffer c)"
    and rd: "nt_readv w = [] \<or> (\<exists>r rs. nt_readv w = r # rs \<and> (r = None \<or> r = Some []))"
  shows "\<exists>w'. TcpConnection_HandleRead (server_cbs user) a w = Inr w' \<and> get_channel (tc_channel c) w' = None"
proof -
  let ?H = "\<lambda>w. \<exists>w'. TcpConnection_HandleClose (server_cbs user) a w = Inr w' \<and> get_channel (tc_channel c) w' = None"
  have close: "?H (put_conn a (c\<lparr>tc_input_buffer := b\<rparr>) v)" if "live_conn a c ch v" for b v
    using HandleClose_live [OF live_put_conn [OF that, of "c\<lparr>tc_input_buffer := b\<rparr>"], of user]
    by (auto simp: get_channel_def)
  have c: "nt_conns w a = Some c" "get_channel (tc_channel c) w = Some ch" using live by (auto simp: live_conn_def)
  obtain r w1 where n: "next_readv w = (r, w1)" by (cases "next_readv w")
  with rd live have r: "r = None \<or> r = Some []" and w1: "live_conn a c ch w1"
    by (auto simp: next_readv_def live_update split: list.splits)
  obtain b where "Buffer_ReadFd r (tc_input_buffer c) = Inr (-1, b) \<or> Buffer_ReadFd r (tc_input_buffer c) = Inr (0, b)"
    using r bf_read_fits [OF inv, of "[]"] by (auto simp: Buffer_ReadFd_def)
  with close [OF w1, of b] c n show ?thesis
    by (auto simp: TcpConnection_HandleRead_def with_conn_def with_channel_def HandleError_eq)
qed

lemma HandleRead_message:
  assumes live: "live_conn a c ch w"
    and rd: "nt_readv w = Some data # rs" "Buffer_ReadFd (Some data) (tc_input_buffer c) = Inr (ret, b)" "0 < ret"
    and msg: "shared_call (server_cbs user) (tc_message_cb c) a (put_conn a (c\<lparr>tc_input_buffer := b\<rparr>) (w\<lparr>nt_readv := rs\<rparr>)) = Inr w2"
    and live2: "live_conn a c2 ch2 w2" "tc_channel c2 = tc_channel c"
  shows "\<exists>w'. TcpConnection_HandleRead (server_cbs user) a w = Inr w' \<and> get_channel (tc_channel c) w' = None"
proof -
  have c: "nt_conns w a = Some c" "get_channel (tc_channel c) w = Some ch" using live by (auto simp: live_conn_def)
  from HandleClose_live [OF live2(1), of user] live2(2) c rd msg show ?thesis
    by (auto simp: TcpConnection_HandleRead_def with_conn_def with_channel_def next_readv_def get_channel_def)
qed

definition conn_channel :: "nat \<Rightarrow> closure channel \<Rightarrow> bool" where
  "conn_channel a ch \<longleftrightarrow> ch_read_call_back ch = Some (OnRead a) \<and> ch_write_call_back ch = Some (OnWrite a) \<and>
     ch_close_call_back ch = Some (OnClose a) \<and> ch_error_call_back ch = Some (OnError a)"

lemma HandleEvent_ends_in_destroyed:
  assumes live: "live_conn a c ch w" and f: "dispatched ch = f # fs"
    and run: "\<exists>v. run f (put_channel (tc_channel c) (ch\<lparr>ch_event_handling := True\<rparr>) w) = Inr v \<and>
      get_channel (tc_channel c) v = None"
  shows "Channel_HandleEvent get_channel put_channel run (tc_channel c) w = Inl UseAfterFree"
  using heap.HandleEvent_destroyed [of "tc_channel c" w ch f fs run] live f run by (auto simp: live_conn_def)

section \<open>Properties\<close>

text \<open>C18: closing a live connection releases everything it has: it leaves the connection table, its
  channel leaves the poller's table and is destroyed, the connection object is destroyed, and its
  socket is closed, once; nothing else changes hands.\<close>

theorem TcpServer_close_releases_all:
  assumes "live_conn a c ch w"
  shows "\<exists>w'. TcpConnection_HandleClose (server_cbs user) a w = Inr w' \<and>
     nt_conns w' = (nt_conns w)(a := None) \<and> el_channels w' = (el_channels w)(tc_channel c := None) \<and>
     nt_connection_map w' = map_erase (tc_name c) (nt_connection_map w) \<and>
     pl_channels_map (el_poller w') = map_erase (ch_fd ch) (pl_channels_map (el_poller w)) \<and>
     nt_calls w' = nt_calls w @ [SysClose (tc_socket c)] \<and> nt_stack w' = nt_stack w"
  using assms by (rule HandleClose_live)

text \<open>A server world with one live connection, for the witnesses: connection 10, channel 11.\<close>

definition one_live :: "events \<Rightarrow> string option list \<Rightarrow> net" where
  "one_live ev reads = (put_conn 10 ((conn10 kConnected)\<lparr>tc_close_cb := Some ServerRemove\<rparr>)
     (put_channel 11 ((Channel_EnableReading (Channel_new 5))\<lparr>ch_trigger_events := ev, ch_run_in_loop_flag := True,
         ch_read_call_back := Some (OnRead 10), ch_write_call_back := Some (OnWrite 10),
         ch_close_call_back := Some (OnClose 10), ch_error_call_back := Some (OnError 10)\<rparr>)
       (net_new (EventLoop_new 1 3 4 6 False) 20 reads [] [] [] [])))
     \<lparr>nt_connection_map := [(''n'', 10)], el_poller := (EpollPoller_new 3)\<lparr>pl_channels_map := [(5, 11)]\<rparr>\<rparr>"

lemma one_live: "live_conn 10 ((conn10 kConnected)\<lparr>tc_close_cb := Some ServerRemove\<rparr>)
    ((Channel_EnableReading (Channel_new 5))\<lparr>ch_trigger_events := ev, ch_run_in_loop_flag := True,
         ch_read_call_back := Some (OnRead 10), ch_write_call_back := Some (OnWrite 10),
         ch_close_call_back := Some (OnClose 10), ch_error_call_back := Some (OnError 10)\<rparr>) (one_live ev reads)"
  "nt_readv (one_live ev reads) = reads"
  by (simp_all add: live_conn_def one_live_def conn10_def put_conn_def put_channel_def get_channel_def net_new_def
      EventLoop_new_def event_loop.defs Channel_new_def Channel_EnableReading_def)

theorem TcpServer_close_releases_all_witness:
  "\<exists>w'. TcpConnection_HandleClose (server_cbs (\<lambda>_ _. Inr)) 10 (one_live EPOLLIN []) = Inr w' \<and>
     nt_conns w' 10 = None \<and> el_channels w' 11 = None \<and> nt_connection_map w' = [] \<and>
     nt_calls w' = [SysClose 5]"
  using TcpServer_close_releases_all [OF one_live(1) [of EPOLLIN "[]"], of "\<lambda>_ _. Inr"]
  by (auto simp: conn10_def map_erase_def one_live_def put_conn_def put_channel_def net_new_def event_loop.defs)

text \<open>C28: with the loop and the table in one thread, ending a connection from its own channel's
  callback destroys that channel while \<open>HandleEvent\<close> still runs on it: for every event set that
  selects the close or the error callback first, or the read callback when the peer has closed or
  reading fails, \<open>HandleEvent\<close> goes on with a freed object.\<close>

theorem TcpServer_close_use_after_free:
  assumes "live_conn a c ch w" "conn_channel a ch" "bf_invar (tc_input_buffer c)"
    and "dispatched ch = f # fs"
    and "f = OnClose a \<or> f = OnError a \<or>
      f = OnRead a \<and> (nt_readv w = [] \<or> (\<exists>r rs. nt_readv w = r # rs \<and> (r = None \<or> r = Some [])))"
  shows "Channel_HandleEvent get_channel put_channel (run_event user) (tc_channel c) w = Inl UseAfterFree"
proof (rule HandleEvent_ends_in_destroyed [OF assms(1,4)])
  let ?w = "put_channel (tc_channel c) (ch\<lparr>ch_event_handling := True\<rparr>) w"
  have live: "live_conn a c (ch\<lparr>ch_event_handling := True\<rparr>) ?w"
    by (rule live_put_channel [OF assms(1)]) simp
  have rd: "nt_readv ?w = nt_readv w" by (simp add: put_channel_def)
  show "\<exists>v. run_event user f ?w = Inr v \<and> get_channel (tc_channel c) v = None"
    using assms(5) HandleClose_live [OF live, of user] HandleRead_eof [OF live assms(3), of user]
    by (auto simp: HandleError_eq get_channel_def rd)
qed

theorem TcpServer_close_use_after_free_witness:
  "Channel_HandleEvent get_channel put_channel (run_event (\<lambda>_ _. Inr)) 11 (one_live (EPOLLIN OR EPOLLRDHUP) [Some []]) =
     Inl UseAfterFree"
  using TcpServer_close_use_after_free [OF one_live(1) [of "EPOLLIN OR EPOLLRDHUP" "[Some []]"],
      of "OnRead 10" "[]" "\<lambda>_ _. Inr"]
  by (simp add: one_live(2) conn_channel_def dispatched_def guarded_def conn10_def bf_invar_def)

section \<open>Accepting\<close>

text \<open>A started server on one loop; addresses from \<open>nt_fresh\<close> on are unused.\<close>

definition server_ready :: "net \<Rightarrow> bool" where
  "server_ready w \<longleftrightarrow> tp_start_flag (ts_pool (nt_server w)) \<and> tp_loops_pool (ts_pool (nt_server w)) = [] \<and>
     ts_connection_cb (nt_server w) = Some UserConnection \<and>
     map_sorted (nt_connection_map w) \<and> map_sorted (pl_channels_map (el_poller w)) \<and>
     (\<forall>k a. map_find (nt_connection_map w) k = Some a \<longrightarrow> a < nt_fresh w) \<and>
     (\<forall>k h. map_find (pl_channels_map (el_poller w)) k = Some h \<longrightarrow> h < nt_fresh w) \<and>
     (\<forall>a \<in> set (nt_stack w). a < nt_fresh w) \<and> ac_channel (nt_acceptor w) < nt_fresh w \<and>
     (\<forall>h. el_wakeup_channel w = Some h \<longrightarrow> h < nt_fresh w) \<and>
     (\<forall>h. el_timer_channel w = Some h \<longrightarrow> h < nt_fresh w) \<and>
     (\<forall>h. other_loop_owns h (nt_loops w) \<longrightarrow> h < nt_fresh w) \<and>
     tp_base_loop (ts_pool (nt_server w)) = el_thread_id w \<and> ts_event_loop (nt_server w) = el_thread_id w"

text \<open>What \<open>HandleConnection\<close> creates.\<close>

definition new_conn :: "int \<Rightarrow> sockaddr_in \<Rightarrow> net \<Rightarrow> tcp_connection" where
  "new_conn sockfd addr w =
     (let b = \<lparr>bf_buffer = replicate Buffer_kInitialSize NUL, bf_read_index = 0, bf_write_index = 0\<rparr>
      in \<lparr>tc_event_loop = el_thread_id w, tc_name = connection_name addr, tc_state = kConnected, tc_read_flag = nt_junk w,
          tc_socket = sockfd, tc_channel = nt_fresh w + 1, tc_local_addr = ts_server_addr (nt_server w),
          tc_client_addr = addr, tc_connection_cb = ts_connection_cb (nt_server w),
          tc_message_cb = ts_message_cb (nt_server w),
          tc_write_complete_cb = ts_write_complete_cb (nt_server w), tc_close_cb = Some ServerRemove,
          tc_input_buffer = b, tc_output_buffer = b\<rparr>)"

definition new_channel :: "int \<Rightarrow> nat \<Rightarrow> closure channel" where
  "new_channel sockfd a = Channel_EnableReading ((Channel_new sockfd)\<lparr>ch_read_call_back := Some (OnRead a),
     ch_write_call_back := Some (OnWrite a), ch_close_call_back := Some (OnClose a),
     ch_error_call_back := Some (OnError a), ch_run_in_loop_flag := True\<rparr>)"

lemma Buffer_new_initial: "Buffer_new Buffer_kInitialSize =
    Inr \<lparr>bf_buffer = replicate Buffer_kInitialSize NUL, bf_read_index = 0, bf_write_index = 0\<rparr>"
  by (rule bf_new(1)) (simp add: Buffer_kInitialSize_def)

lemmas connect_defs = TcpServer_HandleConnection_def EventLoopThreadPool_NextLoop_def TcpConnection_new_def
  Buffer_new_initial on_server_def Let_def hold_def on_conn_def with_conn_def put_conn_def put_channel_def
  Socket_SetKeepAlive_def sys_def EventLoop_RunInLoop_def EventLoop_isLoopThread_def
  TcpConnection_ConnectionEstablished_def on_channel_def with_channel_def get_channel_def
  register_channel_def registered_def EventLoop_AddChannel_def EpollPoller_AddChannel_def
  EpollPoller_Update_def shared_call_def

definition connect_effect :: "int \<Rightarrow> sockaddr_in \<Rightarrow> net \<Rightarrow> net \<Rightarrow> bool" where
  "connect_effect sockfd addr w w' \<longleftrightarrow>
     nt_conns w' (nt_fresh w) = Some (new_conn sockfd addr w) \<and>
     el_channels w' = (el_channels w)(nt_fresh w + 1 \<mapsto> new_channel sockfd (nt_fresh w)) \<and>
     nt_connection_map w' = map_insert (connection_name addr) (nt_fresh w) (nt_connection_map w) \<and>
     pl_channels_map (el_poller w') = map_insert sockfd (nt_fresh w + 1) (pl_channels_map (el_poller w)) \<and>
     nt_stack w' = nt_stack w \<and> nt_fresh w' = nt_fresh w + 2 \<and> nt_acceptor w' = nt_acceptor w \<and>
     nt_server w' = nt_server w \<and> nt_loops w' = nt_loops w \<and> el_thread_id w' = el_thread_id w \<and> el_wakeup_channel w' = el_wakeup_channel w \<and>
     el_timer_channel w' = el_timer_channel w \<and> nt_request w' = nt_request w \<and>
     nt_readv w' = nt_readv w \<and> nt_send w' = nt_send w \<and> nt_accept w' = nt_accept w \<and> el_quit_flag w' = el_quit_flag w \<and>
     el_pending_functors w' = el_pending_functors w \<and>
     pl_events_size (el_poller w') = pl_events_size (el_poller w)"

lemma HandleConnection_fresh:
  assumes ready: "server_ready w" and free: "map_find (nt_connection_map w) (connection_name addr) = None"
    and fd: "map_find (pl_channels_map (el_poller w)) sockfd = None"
    and user: "\<And>a w. user UserConnection a w = Inr w"
  shows "\<exists>w'. TcpServer_HandleConnection (run_task user) sockfd addr w = Inr w' \<and> connect_effect sockfd addr w w' \<and>
     nt_conns w' = (nt_conns w)(nt_fresh w \<mapsto> new_conn sockfd addr w)"
proof -
  let ?m = "map_insert (connection_name addr) (nt_fresh w) (nt_connection_map w)"
  have v: "nt_fresh w \<in> snd ` set ?m"
    using ready by (auto simp: in_values_iff map_sorted_insert map_of_map_insert server_ready_def)
  show ?thesis
    using ready free fd user v
    by (simp add: connect_defs release_channel_def server_ready_def conn_owned_def drop_hold_def collect_def connect_effect_def
        new_conn_def new_channel_def Channel_EnableReading_def Channel_new_def fun_upd_twist)
qed

lemma connect_effect_live:
  assumes ready: "server_ready w" and eff: "connect_effect sockfd addr w w'"
    and fresh_fd: "map_find (pl_channels_map (el_poller w)) sockfd = None"
  shows "live_conn (nt_fresh w) (new_conn sockfd addr w) (new_channel sockfd (nt_fresh w)) w'"
    and "server_ready w'"
  using ready eff fresh_fd
  by (fastforce simp: live_conn_def server_ready_def connect_effect_def new_conn_def new_channel_def Let_def
      get_channel_def map_of_map_insert map_sorted_insert Channel_EnableReading_def Channel_new_def
      split: if_splits)+


text \<open>A started server with no connections.\<close>

definition ready_net :: net where
  "ready_net = (net_new (EventLoop_new 1 3 4 6 False) 20 [] [] [] [] [])
     \<lparr>nt_server := \<lparr>ts_event_loop = 1, ts_server_addr = no_addr, ts_name = ''s'', ts_pool = (EventLoopThreadPool_new 1 ''s'')\<lparr>tp_start_flag := True\<rparr>,
        ts_connection_cb = Some UserConnection, ts_message_cb = Some UserMessage, ts_write_complete_cb = None,
        ts_thread_init_cb = False, ts_next_connection = 1\<rparr>\<rparr>"

lemma ready_net: "server_ready ready_net" "nt_connection_map ready_net = []" "nt_fresh ready_net = 20"
  "pl_channels_map (el_poller ready_net) = []"
  by (simp_all add: ready_net_def server_ready_def net_new_def event_loop.defs EventLoop_new_def
      EventLoopThreadPool_new_def EpollPoller_new_def)


section \<open>Connection names\<close>

lemma HandleConnection_collision:
  assumes ready: "server_ready w" and live: "live_conn b cb chb w"
    and name: "tc_name cb = connection_name addr" and reg: "map_find (pl_channels_map (el_poller w)) (ch_fd chb) = Some (tc_channel cb)"
    and fd: "map_find (pl_channels_map (el_poller w)) sockfd = None" and user: "\<And>a w. user UserConnection a w = Inr w"
    and used: "tc_channel cb < nt_fresh w"
  shows "\<exists>w'. TcpServer_HandleConnection (run_task user) sockfd addr w = Inr w' \<and> connect_effect sockfd addr w w' \<and>
     nt_conns w' b = None \<and> SysClose (tc_socket cb) \<in> set (nt_calls w')"
proof -
  note l = live [unfolded live_conn_def] and r = ready [unfolded server_ready_def]
  let ?m = "map_insert (connection_name addr) (nt_fresh w) (nt_connection_map w)"
  have lt: "b < nt_fresh w" using l r by auto
  have v: "nt_fresh w \<in> snd ` set ?m"
    using r by (auto simp: in_values_iff map_sorted_insert map_of_map_insert)
  have nb: "b \<notin> snd ` set ?m"
    using l r lt name by (auto simp: in_values_iff map_sorted_insert map_of_map_insert split: if_splits)
  have h: "tc_channel cb \<in> snd ` set (pl_channels_map (el_poller w))"
    using l reg by (auto simp: in_values_iff)
  have old: "map_find (nt_connection_map w) (connection_name addr) = Some b" using l name by simp
  have facts: "nt_conns w b = Some cb" "b \<notin> set (nt_stack w)"
    "tp_start_flag (ts_pool (nt_server w))" "tp_loops_pool (ts_pool (nt_server w)) = []"
    "ts_connection_cb (nt_server w) = Some UserConnection" "b \<noteq> nt_fresh w"
    "tp_base_loop (ts_pool (nt_server w)) = el_thread_id w"
    using l r lt by auto
  show ?thesis
    using facts v nb h old fd reg user
    by (simp add: connect_defs release_channel_def conn_owned_def drop_hold_def collect_def
        TcpConnection_destroy_def channel_owned_def Socket_destroy_def connect_effect_def new_conn_def
        new_channel_def Channel_EnableReading_def Channel_new_def fun_upd_twist)
qed

text \<open>
  Accepting on a descriptor whose old channel is still in the poller's table replaces the entry. When
  nothing else owns the old channel its destructor runs, and asserts that it is in no loop.
\<close>

lemma HandleConnection_stale_entry:
  assumes ready: "server_ready w" and free: "map_find (nt_connection_map w) (connection_name addr) = None"
    and reg: "map_find (pl_channels_map (el_poller w)) sockfd = Some h"
      "\<And>fd. map_find (pl_channels_map (el_poller w)) fd = Some h \<Longrightarrow> fd = sockfd"
    and ch: "get_channel h w = Some ch" "ch_run_in_loop_flag ch"
    and alone: "nt_conns w (h - 1) = None" "el_wakeup_channel w \<noteq> Some h" "el_timer_channel w \<noteq> Some h"
      "ac_channel (nt_acceptor w) \<noteq> h" "\<not> other_loop_owns h (nt_loops w)"
  shows "TcpServer_HandleConnection (run_task user) sockfd addr w = Inl AssertFailed"
proof -
  have lt: "h < nt_fresh w" using ready reg(1) by (auto simp: server_ready_def)
  have nh: "h \<notin> snd ` set (map_insert sockfd (Suc (nt_fresh w)) (pl_channels_map (el_poller w)))"
    using ready reg(2) lt
    by (auto simp: server_ready_def in_values_iff map_sorted_insert map_of_map_insert split: if_splits)
  have facts: "h - Suc 0 \<noteq> nt_fresh w" "h \<noteq> Suc (nt_fresh w)" "el_channels w h = Some ch"
    "nt_conns w (h - Suc 0) = None"
    using lt ch alone by (auto simp: get_channel_def)
  show ?thesis
    using ready free reg(1) facts alone(2-) ch(2) nh
    by (simp add: connect_defs server_ready_def release_channel_def channel_owned_def conn_has_channel_def
        free_channel_def Channel_destroy_def check_def Channel_EnableReading_def Channel_new_def)
qed

text \<open>C39: a client whose name is already in the table (the name is the address and the port with nothing
  between them, so 1.1.1.1 with port 23 and 1.1.1.12 with port 3 share one) destroys the connection
  stored under it: its socket is closed while its channel stays registered, bound to the destroyed
  connection, and the next event on that channel works on a freed object. A further client that is
  given the descriptor that was closed aborts the process: its channel replaces the old one in the
  poller's table, and the old one's destructor finds that it is still marked as in a loop.\<close>

theorem TcpServer_name_collision:
  assumes "server_ready w" "live_conn b cb chb w" "conn_channel b chb" "ch_run_in_loop_flag chb"
    and "tc_name cb = connection_name addr"
    and "map_find (pl_channels_map (el_poller w)) (ch_fd chb) = Some (tc_channel cb)"
    and "map_find (pl_channels_map (el_poller w)) sockfd = None" "\<And>a w. user UserConnection a w = Inr w"
    and "tc_channel cb < nt_fresh w"
  shows "\<exists>w'. TcpServer_HandleConnection (run_task user) sockfd addr w = Inr w' \<and> nt_conns w' b = None \<and>
     SysClose (tc_socket cb) \<in> set (nt_calls w') \<and>
     map_find (pl_channels_map (el_poller w')) (ch_fd chb) = Some (tc_channel cb) \<and>
     get_channel (tc_channel cb) w' = Some chb \<and>
     nt_connection_map w' = map_insert (connection_name addr) (nt_fresh w) (nt_connection_map w) \<and>
     (\<forall>f \<in> {OnRead b, OnWrite b, OnClose b, OnError b}. run_event user f w' = Inl UseAfterFree) \<and>
     (\<forall>addr'. map_find (nt_connection_map w') (connection_name addr') = None \<longrightarrow>
       TcpServer_HandleConnection (run_task user) (ch_fd chb) addr' w' = Inl AssertFailed)"
proof -
  obtain w' where w': "TcpServer_HandleConnection (run_task user) sockfd addr w = Inr w'" "nt_conns w' b = None"
    "SysClose (tc_socket cb) \<in> set (nt_calls w')" and eff: "connect_effect sockfd addr w w'"
    using HandleConnection_collision [where user = user, OF assms(1,2,5-9)] by blast
  note l = assms(2) [unfolded live_conn_def] and e = eff [unfolded connect_effect_def]
  have ready: "server_ready w'" by (rule connect_effect_live(2) [OF assms(1) eff assms(7)])
  have reg: "map_find (pl_channels_map (el_poller w')) (ch_fd chb) = Some (tc_channel cb)"
    and only: "\<And>fd. map_find (pl_channels_map (el_poller w')) fd = Some (tc_channel cb) \<Longrightarrow> fd = ch_fd chb"
    and get: "get_channel (tc_channel cb) w' = Some chb"
  proof -
    have pl: "pl_channels_map (el_poller w') = map_insert sockfd (nt_fresh w + 1) (pl_channels_map (el_poller w))"
      "el_channels w' = (el_channels w)(nt_fresh w + 1 \<mapsto> new_channel sockfd (nt_fresh w))"
      using e by blast+
    have ne: "ch_fd chb \<noteq> sockfd" "nt_fresh w + 1 \<noteq> tc_channel cb" using assms(6,7,9) by auto
    show "map_find (pl_channels_map (el_poller w')) (ch_fd chb) = Some (tc_channel cb)"
      using ne(1) assms(6) by (simp add: pl(1) map_of_map_insert)
    show "fd = ch_fd chb" if "map_find (pl_channels_map (el_poller w')) fd = Some (tc_channel cb)" for fd
      using that l ne(2) unfolding pl(1) map_of_map_insert by (cases "fd = sockfd") auto
    show "get_channel (tc_channel cb) w' = Some chb"
      using l ne(2) by (simp add: get_channel_def pl(2))
  qed
  have "nt_conns w' (tc_channel cb - 1) = None" "el_wakeup_channel w' \<noteq> Some (tc_channel cb)"
    "el_timer_channel w' \<noteq> Some (tc_channel cb)" "ac_channel (nt_acceptor w') \<noteq> tc_channel cb"
    "\<not> other_loop_owns (tc_channel cb) (nt_loops w')"
    using l e w'(2) by auto
  note stale = HandleConnection_stale_entry [OF ready _ reg only get assms(4) this]
  have "\<forall>f \<in> {OnRead b, OnWrite b, OnClose b, OnError b}. run_event user f w' = Inl UseAfterFree"
    using w'(2) by (simp add: TcpConnection_HandleRead_def TcpConnection_HandleWrite_def TcpConnection_HandleClose_def
        TcpConnection_HandleError_def on_conn_def with_conn_def)
  moreover have "nt_connection_map w' = map_insert (connection_name addr) (nt_fresh w) (nt_connection_map w)"
    using e by blast
  ultimately show ?thesis using w' reg get stale by blast
qed

theorem TcpServer_name_collision_witness:
  "let a1 = \<lparr>sin_addr = (1, 1, 1, 1), sin_port = 23\<rparr>; a2 = \<lparr>sin_addr = (1, 1, 1, 12), sin_port = 3\<rparr>;
       user = (\<lambda>_ _. Inr)
   in connection_name a1 = connection_name a2 \<and>
     (\<exists>w w'. TcpServer_HandleConnection (run_task user) 5 a1 ready_net = Inr w \<and> nt_conns w 20 \<noteq> None \<and>
       TcpServer_HandleConnection (run_task user) 6 a2 w = Inr w' \<and> nt_conns w' 20 = None \<and>
       run_event user (OnRead 20) w' = Inl UseAfterFree \<and>
       TcpServer_HandleConnection (run_task user) 5 no_addr w' = Inl AssertFailed)"
proof -
  let ?a1 = "\<lparr>sin_addr = (1, 1, 1, 1), sin_port = 23\<rparr>" and ?a2 = "\<lparr>sin_addr = (1, 1, 1, 12), sin_port = 3\<rparr>"
  let ?user = "\<lambda>_ _. Inr" and ?c = "new_conn 5 ?a1 ready_net" and ?ch = "new_channel 5 20"
  have name: "connection_name ?a1 = connection_name ?a2"
    by (simp add: connection_name_def inet_ntoa_def) code_simp
  obtain w where w: "TcpServer_HandleConnection (run_task ?user) 5 ?a1 ready_net = Inr w"
    and eff: "connect_effect 5 ?a1 ready_net w"
    using HandleConnection_fresh [OF ready_net(1), of ?a1 5 ?user] by (auto simp: ready_net)
  have live: "live_conn 20 ?c ?ch w" and ready: "server_ready w"
    using connect_effect_live [OF ready_net(1) eff] by (simp_all add: ready_net)
  have e: "nt_conns w 20 = Some ?c" "pl_channels_map (el_poller w) = [(5, 21)]" "nt_fresh w = 22"
    using eff by (simp_all add: connect_effect_def ready_net)
  have c: "tc_name ?c = connection_name ?a2" "tc_channel ?c = 21" "ch_fd ?ch = 5" "conn_channel 20 ?ch"
    "ch_run_in_loop_flag ?ch"
    using name by (simp_all add: new_conn_def Let_def ready_net new_channel_def Channel_EnableReading_def
        Channel_new_def conn_channel_def)
  obtain w' where "TcpServer_HandleConnection (run_task ?user) 6 ?a2 w = Inr w'" "nt_conns w' 20 = None"
    "run_event ?user (OnRead 20) w' = Inl UseAfterFree"
    "nt_connection_map w' = map_insert (connection_name ?a2) 22 (nt_connection_map w)"
    "\<forall>addr'. map_find (nt_connection_map w') (connection_name addr') = None \<longrightarrow>
       TcpServer_HandleConnection (run_task ?user) 5 addr' w' = Inl AssertFailed"
    using TcpServer_name_collision [OF ready live c(4,5,1), of 6 ?user] c e by auto
  moreover have "nt_connection_map w = map_insert (connection_name ?a1) 20 []"
    using eff by (simp add: connect_effect_def ready_net)
  moreover have "connection_name no_addr \<noteq> connection_name ?a1"
    unfolding connection_name_def inet_ntoa_def no_addr_def by code_simp
  ultimately have "TcpServer_HandleConnection (run_task ?user) 5 no_addr w' = Inl AssertFailed"
    using name by (simp add: map_of_map_insert map_sorted_insert)
  with \<open>TcpServer_HandleConnection (run_task ?user) 6 ?a2 w = Inr w'\<close> \<open>nt_conns w' 20 = None\<close>
    \<open>run_event ?user (OnRead 20) w' = Inl UseAfterFree\<close> w e name
  show ?thesis unfolding Let_def by blast
qed

end
