(* ===== verification/Http_Response.thy ===== *)
theory Http_Response
  imports Http_Request Text_Format
begin

text \<open>
  \<open>HttpResponse\<close> (HttpResponse.h, HttpResponse.cc): the builder of response texts. Its output is read
  back with the line reader of \<open>Buffer\<close>, the one the request parser uses.
\<close>

section \<open>The class\<close>

record http_response =
  rs_version :: string
  rs_status :: string
  rs_headers :: "(string, string) std_map"
  rs_data :: string

datatype status_code = k100 | k200 | k301 | k302 | k400 | k404 | k500

definition HttpResponse_new :: http_response where
  "HttpResponse_new = \<lparr>rs_version = [], rs_status = [], rs_headers = [], rs_data = []\<rparr>"

definition HttpResponse_set_version :: "string \<Rightarrow> http_response \<Rightarrow> http_response" where
  "HttpResponse_set_version version r = r\<lparr>rs_version := version\<rparr>"

definition HttpResponse_set_status :: "string \<Rightarrow> http_response \<Rightarrow> http_response" where
  "HttpResponse_set_status status r = r\<lparr>rs_status := status\<rparr>"

definition HttpResponse_set_header :: "string \<Rightarrow> string \<Rightarrow> http_response \<Rightarrow> http_response" where
  "HttpResponse_set_header key val r = r\<lparr>rs_headers := map_insert key val (rs_headers r)\<rparr>"

definition HttpResponse_set_data :: "string \<Rightarrow> http_response \<Rightarrow> http_response" where
  "HttpResponse_set_data data r = r\<lparr>rs_data := data\<rparr>"

text \<open>The body of \<open>Reset\<close> is empty.\<close>

definition HttpResponse_Reset :: "http_response \<Rightarrow> http_response" where
  "HttpResponse_Reset r = r"

definition HttpResponse_BuildHttpResponse :: "http_response \<Rightarrow> string" where
  "HttpResponse_BuildHttpResponse r =
     (let response = rs_version r @ '' '' @ rs_status r @ '' OK'' @ [CR, LF];
          response = fold (\<lambda>(k, v) acc. acc @ k @ '': '' @ v @ [CR, LF]) (rs_headers r) response;
          response = response @ [CR, LF]
      in response @ rs_data r)"

section \<open>Reading a response back\<close>

fun read_lines :: "nat \<Rightarrow> buffer \<Rightarrow> (string list \<times> buffer) outcome" where
  "read_lines 0 b = Inr ([], b)"
| "read_lines (Suc n) b = obind (Buffer_ReadByLine b) (\<lambda>(l, b).
     obind (read_lines n b) (\<lambda>(ls, b). Inr (l # ls, b)))"

lemma ReadByLine_found:
  assumes "bf_invar b" "bf_contents b = l @ CR # LF # rest" "CR \<notin> set l"
  shows "\<exists>b'. Buffer_ReadByLine b = Inr (l, b') \<and> bf_invar b' \<and> bf_contents b' = rest"
  using ParseLine_found [OF assms, of HttpRequest_zero]
  by (auto simp: HttpRequest_ParseLine_def outcome_simps Let_def HttpRequest_zero_def split: prod.splits)

lemma read_lines_found:
  "bf_invar b \<Longrightarrow> bf_contents b = concat (map (\<lambda>l. l @ kCRLF) ls) @ rest \<Longrightarrow> \<forall>l \<in> set ls. CR \<notin> set l \<Longrightarrow>
   \<exists>b'. read_lines (length ls) b = Inr (ls, b') \<and> bf_invar b' \<and> bf_contents b' = rest"
proof (induction ls arbitrary: b)
  case (Cons l ls)
  then have "bf_contents b = l @ CR # LF # concat (map (\<lambda>l. l @ kCRLF) ls) @ rest" by (simp add: kCRLF_def)
  from ReadByLine_found [OF Cons.prems(1) this] Cons.prems(3) obtain b1 where
    "Buffer_ReadByLine b = Inr (l, b1)" "bf_invar b1" "bf_contents b1 = concat (map (\<lambda>l. l @ kCRLF) ls) @ rest"
    by auto
  with Cons.IH [of b1] Cons.prems(3) show ?case by auto
qed auto

lemma build_lines:
  "HttpResponse_BuildHttpResponse r =
     concat (map (\<lambda>l. l @ kCRLF) ((rs_version r @ '' '' @ rs_status r @ '' OK'') # map header_line (rs_headers r) @ [[]])) @ rs_data r"
proof -
  have "fold (\<lambda>(k, v) acc. acc @ k @ '': '' @ v @ [CR, LF]) hs s = s @ concat (map (\<lambda>l. l @ kCRLF) (map header_line hs))" for hs s
    by (induction hs arbitrary: s) (auto simp: header_line_def kCRLF_def)
  then show ?thesis by (simp add: HttpResponse_BuildHttpResponse_def Let_def kCRLF_def)
qed

text \<open>Setting headers one after the other: the last value of a key wins, and keys end up in order.\<close>

definition set_headers :: "(string \<times> string) list \<Rightarrow> http_response \<Rightarrow> http_response" where
  "set_headers hs r = fold (\<lambda>(k, v). HttpResponse_set_header k v) hs r"

lemma set_headers_sorted: "map_sorted (rs_headers r) \<Longrightarrow> map_sorted (rs_headers (set_headers hs r))"
  unfolding set_headers_def
  by (induction hs arbitrary: r) (auto simp: HttpResponse_set_header_def map_sorted_insert)

lemma set_headers_lookup: "map_find (rs_headers (set_headers hs r)) k =
    (case map_of (rev hs) k of Some v \<Rightarrow> Some v | None \<Rightarrow> map_find (rs_headers r) k)"
  unfolding set_headers_def
  by (induction hs arbitrary: r) (auto simp: HttpResponse_set_header_def map_of_map_insert map_add_def split: option.splits)

text \<open>C31: a response built from any headers, none of whose parts contains a carriage return, is read back
  line by line by the buffer's reader: the status line, one line for each key with the value set
  last, in increasing order of the keys, an empty line, and what remains unread is the body.\<close>

theorem HttpResponse_build_read_lines:
  assumes "bf_invar b" and "bf_contents b = HttpResponse_BuildHttpResponse r"
    and r: "r = HttpResponse_set_data data (set_headers hs (HttpResponse_set_status st (HttpResponse_set_version v HttpResponse_new)))"
    and "CR \<notin> set v" "CR \<notin> set st" "\<forall>(k, x) \<in> set hs. CR \<notin> set k \<and> CR \<notin> set x"
  shows "\<exists>m b'. read_lines (length m + 2) b = Inr ((v @ '' '' @ st @ '' OK'') # map header_line m @ [[]], b') \<and>
     bf_contents b' = data \<and> map_sorted m \<and> map_of m = map_of (rev hs)"
proof -
  let ?r0 = "HttpResponse_set_status st (HttpResponse_set_version v HttpResponse_new)"
  let ?m = "rs_headers (set_headers hs ?r0)"
  have fields: "rs_version r = v" "rs_status r = st" "rs_headers r = ?m" "rs_data r = data"
  proof -
    have "rs_version (set_headers hs q) = rs_version q \<and> rs_status (set_headers hs q) = rs_status q" for q
      unfolding set_headers_def by (induction hs arbitrary: q) (auto simp: HttpResponse_set_header_def)
    then show "rs_version r = v" "rs_status r = st" "rs_headers r = ?m" "rs_data r = data"
      by (auto simp: r HttpResponse_set_data_def HttpResponse_set_status_def HttpResponse_set_version_def)
  qed
  have empty: "rs_headers ?r0 = []"
    by (simp add: HttpResponse_set_status_def HttpResponse_set_version_def HttpResponse_new_def)
  have sorted: "map_sorted ?m" by (rule set_headers_sorted) (simp add: empty)
  have find: "map_of ?m = map_of (rev hs)"
    by (rule ext) (simp add: set_headers_lookup empty split: option.splits)
  have "CR \<notin> set k \<and> CR \<notin> set x" if "(k, x) \<in> set ?m" for k x
  proof -
    have "distinct (map fst ?m)" using sorted by (simp add: map_sorted_def strict_sorted_iff)
    with that have "map_of (rev hs) k = Some x" by (simp flip: find)
    then have "(k, x) \<in> set hs" by (auto dest: map_of_SomeD)
    with assms(6) show ?thesis by blast
  qed
  then have "\<forall>l \<in> set ((v @ '' '' @ st @ '' OK'') # map header_line ?m @ [[]]). CR \<notin> set l"
    using assms(4,5) by (auto simp: header_line_def)
  from read_lines_found [OF assms(1) _ this, of data] assms(2) build_lines [of r] fields sorted find
  show ?thesis by (intro exI [of _ ?m]) auto
qed

theorem HttpResponse_build_read_lines_witness:
  "let r = HttpResponse_set_data ''hello'' (set_headers [(''Server'', ''a''), (''Length'', ''5''), (''Server'', ''b'')]
        (HttpResponse_set_status ''200'' (HttpResponse_set_version ''HTTP/1.1'' HttpResponse_new)));
       s = HttpResponse_BuildHttpResponse r;
       b = \<lparr>bf_buffer = s, bf_read_index = 0, bf_write_index = length s\<rparr>
   in \<exists>m b'. read_lines (length m + 2) b = Inr (''HTTP/1.1 200 OK'' # map header_line m @ [[]], b') \<and>
     bf_contents b' = ''hello'' \<and> map_of m ''Server'' = Some ''b''"
proof -
  let ?r = "HttpResponse_set_data ''hello'' (set_headers [(''Server'', ''a''), (''Length'', ''5''), (''Server'', ''b'')]
        (HttpResponse_set_status ''200'' (HttpResponse_set_version ''HTTP/1.1'' HttpResponse_new)))"
  let ?s = "HttpResponse_BuildHttpResponse ?r"
  let ?b = "\<lparr>bf_buffer = ?s, bf_read_index = 0, bf_write_index = length ?s\<rparr>"
  have "bf_invar ?b" by code_simp
  moreover have "bf_contents ?b = ?s" by (simp add: bf_contents_def slice_def)
  moreover have "CR \<notin> set ''HTTP/1.1''" "CR \<notin> set ''200''"
    "\<forall>(k, x) \<in> set [(''Server'', ''a''), (''Length'', ''5''), (''Server'', ''b'')]. CR \<notin> set k \<and> CR \<notin> set x" by code_simp+
  ultimately obtain m b' where
    1: "read_lines (length m + 2) ?b = Inr ((''HTTP/1.1'' @ '' '' @ ''200'' @ '' OK'') # map header_line m @ [[]], b')"
    and 2: "bf_contents b' = ''hello''"
    and 3: "map_of m = map_of (rev [(''Server'', ''a''), (''Length'', ''5''), (''Server'', ''b'')])"
    using HttpResponse_build_read_lines [OF _ _ refl] by blast
  have "map_of m ''Server'' = Some ''b''" unfolding 3 by code_simp
  moreover have "''HTTP/1.1'' @ '' '' @ ''200'' @ '' OK'' = ''HTTP/1.1 200 OK''" by simp
  ultimately show ?thesis using 1 2 unfolding Let_def by metis
qed

end
