(* ===== verification/Http_Server.thy ===== *)
theory Http_Server
  imports Tcp_Server Http_Response
begin

text \<open>
  The applications on the server: \<open>HttpServer\<close> (HttpServer.h, HttpServer.cc), \<open>Echo\<close> (Echo.h,
  Echo.cc) and \<open>main\<close> (main.cc). The properties follow a client from its connection to the end of
  the process's defined behaviour.
\<close>

section \<open>The fixed response\<close>

definition HttpServer_headers :: string where
  "HttpServer_headers =
     ''HTTP/1.1 200 OK'' @ kCRLF @
     ''Date: Sun, 24 Oct 2023 12:00:00 GMT'' @ kCRLF @
     ''Server: MyServer'' @ kCRLF @
     ''Content-Type: text/html'' @ kCRLF @
     ''Content-Length: 123'' @ kCRLF @
     kCRLF"

definition HttpServer_body :: string where
  "HttpServer_body =
     ''<!DOCTYPE html>'' @ kCRLF @
     ''<html>'' @ kCRLF @
     ''<head>'' @ kCRLF @
     ''    <title>Sample Response</title>'' @ kCRLF @
     ''</head>'' @ kCRLF @
     ''<body>'' @ kCRLF @
     ''    <p>This is the response body.</p>'' @ kCRLF @
     ''</body>'' @ kCRLF @
     ''</html>'' @ kCRLF"

definition HttpServer_response :: string where
  "HttpServer_response = HttpServer_headers @ HttpServer_body"

section \<open>Handlers\<close>

definition HttpServer_HandleConnection :: "nat \<Rightarrow> net \<Rightarrow> net outcome" where
  "HttpServer_HandleConnection a w = Inr w"

text \<open>The parser's result is not looked at and the request is not reset.\<close>

definition HttpServer_HandleMessage :: "nat \<Rightarrow> net \<Rightarrow> net outcome" where
  "HttpServer_HandleMessage a w = with_conn a w (\<lambda>c.
     obind (HttpRequest_ParseRequest (tc_input_buffer c) (nt_request w)) (\<lambda>(code, b, r).
     let w = (put_conn a (c\<lparr>tc_input_buffer := b\<rparr>) w)\<lparr>nt_request := r\<rparr>;
         res = HttpServer_response in
     TcpConnection_SendInLoop run_conn_task a res w))"

definition http_user :: "conn_cb \<Rightarrow> nat \<Rightarrow> net \<Rightarrow> net outcome" where
  "http_user cb a w =
     (case cb of
        UserConnection \<Rightarrow> HttpServer_HandleConnection a w
      | UserMessage \<Rightarrow> HttpServer_HandleMessage a w
      | _ \<Rightarrow> Inl BadFunctionCall)"

definition HttpServer_new :: "sockaddr_in \<Rightarrow> net \<Rightarrow> net" where
  "HttpServer_new addr w =
     (let w = TcpServer_new addr ''httpserver'' w;
          w = TcpServer_SetConnectionCallback UserConnection w
      in TcpServer_SetMessageCallback UserMessage w)"

definition HttpServer_Start :: "net \<Rightarrow> net outcome" where
  "HttpServer_Start w = TcpServer_Start (run_task http_user) w"

text \<open>\<open>Echo\<close>: both handlers only print.\<close>

definition Echo_HandleConnection :: "nat \<Rightarrow> net \<Rightarrow> net outcome" where
  "Echo_HandleConnection a w = Inr w"

definition Echo_HandleMessage :: "nat \<Rightarrow> net \<Rightarrow> net outcome" where
  "Echo_HandleMessage a w = Inr w"

definition echo_user :: "conn_cb \<Rightarrow> nat \<Rightarrow> net \<Rightarrow> net outcome" where
  "echo_user cb a w =
     (case cb of
        UserConnection \<Rightarrow> Echo_HandleConnection a w
      | UserMessage \<Rightarrow> Echo_HandleMessage a w
      | _ \<Rightarrow> Inl BadFunctionCall)"

definition Echo_new :: "sockaddr_in \<Rightarrow> net \<Rightarrow> net" where
  "Echo_new addr w =
     (let w = TcpServer_new addr ''EchoServer'' w;
          w = TcpServer_SetConnectionCallback UserConnection w
      in TcpServer_SetMessageCallback UserMessage w)"

definition Echo_Start :: "net \<Rightarrow> net outcome" where
  "Echo_Start w = TcpServer_Start (run_task echo_user) w"

text \<open>
  \<open>main\<close>: \<open>w\<close> holds the constructed loop, \<open>addr\<close> is 127.0.0.1 and port 10086, \<open>polls\<close> the results of
  \<open>epoll_wait\<close>.
\<close>

definition main_start :: "sockaddr_in \<Rightarrow> net \<Rightarrow> net outcome" where
  "main_start addr w =
     (let ta = nt_fresh w; wa = ta + 1; w = w\<lparr>nt_fresh := wa + 1\<rparr> in
      obind (EventLoop_Init None 1 ta wa OnTimer OnWakeup w) (\<lambda>(tls, w).
      let w = HttpServer_new addr w in
      HttpServer_Start w))"

definition http_main :: "sockaddr_in \<Rightarrow> poll_result list \<Rightarrow> net \<Rightarrow> net outcome" where
  "http_main addr polls w = obind (main_start addr w) (EventLoop_Loop (run_event http_user) drop_functors polls)"

section \<open>One message\<close>

lemma length_response: "length HttpServer_response = 263"
  by code_simp

lemma HandleMessage_run:
  assumes c: "nt_conns w a = Some c" and idle: "out_idle c" "length (bf_buffer (tc_output_buffer c)) = 512"
    and ch: "get_channel (tc_channel c) w = Some ch" and st: "tc_state c = kConnected" "tc_event_loop c = el_thread_id w"
    and parse: "HttpRequest_ParseRequest (tc_input_buffer c) (nt_request w) = Inr (code, b, r)"
  shows "\<exists>ob. HttpServer_HandleMessage a w = Inr (put_conn a (c\<lparr>tc_input_buffer := b, tc_output_buffer := ob\<rparr>)
      (sys (SysSend (ch_fd ch) HttpServer_response (fst (next_send w)))
        ((snd (next_send w))\<lparr>nt_request := r\<rparr>)))"
proof -
  let ?c = "c\<lparr>tc_input_buffer := b\<rparr>" and ?w = "(put_conn a (c\<lparr>tc_input_buffer := b\<rparr>) w)\<lparr>nt_request := r\<rparr>"
  have 1: "nt_conns ?w a = Some ?c" by (simp add: put_conn_def)
  have 2: "out_idle ?c" using idle(1) by (simp add: out_idle_def)
  have 3: "get_channel (tc_channel ?c) ?w = Some ch" using ch by (simp add: put_conn_def get_channel_def)
  have 4: "length HttpServer_response < length (bf_buffer (tc_output_buffer ?c))"
    "length (bf_buffer (tc_output_buffer ?c)) < 2 ^ 31" using idle(2) by (simp_all add: length_response)
  from Send_idle_total [OF 1 2 3 4] obtain ob where ob: "TcpConnection_Send a HttpServer_response ?w =
      Inr (put_conn a (?c\<lparr>tc_output_buffer := ob\<rparr>) (sys (SysSend (ch_fd ch) HttpServer_response (fst (next_send ?w))) (snd (next_send ?w))))"
    by blast
  have n: "fst (next_send ?w) = fst (next_send w)"
    "snd (next_send ?w) = (put_conn a ?c (snd (next_send w)))\<lparr>nt_request := r\<rparr>"
    by (simp_all add: next_send_def put_conn_def split: list.splits)
  have "TcpConnection_SendInLoop run_conn_task a HttpServer_response ?w = TcpConnection_Send a HttpServer_response ?w"
    using st by (simp add: TcpConnection_SendInLoop_def with_conn_Some [OF 1]) (simp add: put_conn_def)
  with ob n show ?thesis
    by (intro exI [of _ ob]) (simp add: HttpServer_HandleMessage_def with_conn_Some [OF c] parse Let_def put_conn_def sys_def)
qed

text \<open>The parser accepts a well-formed \<open>GET\<close>, whether the request object is fresh or left over.\<close>

lemma parse_either:
  assumes "bf_invar b" "bf_contents b = render_request ''GET'' p v hs" "token p" "token v" "list_all good_header hs"
    and "hr_parse_state r = PARSE_REQUESTLINE \<or> hr_parse_state r = PARSE_COMPLETE"
  shows "\<exists>code b' r'. HttpRequest_ParseRequest b r = Inr (code, b', r') \<and> hr_parse_state r' = PARSE_COMPLETE \<and>
    (hr_parse_state r = PARSE_REQUESTLINE \<longrightarrow> hr_path r' = p) \<and>
    (hr_parse_state r = PARSE_COMPLETE \<longrightarrow> hr_path r' = hr_path r)"
proof (cases "hr_parse_state r = PARSE_REQUESTLINE")
  case True
  with parse_GET [OF assms(1-5)] show ?thesis by fastforce
next
  case False
  then have st: "hr_parse_state r = PARSE_COMPLETE" using assms(6) by blast
  let ?l = "''GET'' @ '' '' @ p @ '' '' @ v"
  have "bf_contents b = ?l @ CR # LF # header_block hs @ kCRLF"
    using assms(2) by (simp add: render_request_def kCRLF_def)
  moreover have "CR \<notin> set ?l"
  proof -
    have "is_space CR" by (simp add: is_space_def)
    with assms(3,4) show ?thesis by (auto simp: token_def list_all_iff)
  qed
  ultimately obtain b1 where "HttpRequest_ParseLine b r = Inr (LINE_OK, b1, r\<lparr>hr_line_buf := ?l\<rparr>)"
    using ParseLine_found [OF assms(1), of ?l] by blast
  with st show ?thesis by (simp add: HttpRequest_ParseRequest.simps [of b r])
qed

text \<open>An HTTP connection about to be read: fresh buffers, a complete request in the socket.\<close>

definition http_input :: "tcp_connection \<Rightarrow> string \<Rightarrow> net \<Rightarrow> bool" where
  "http_input c data w \<longleftrightarrow> tc_state c = kConnected \<and> tc_message_cb c = Some UserMessage \<and>
     bf_invar (tc_input_buffer c) \<and> bf_contents (tc_input_buffer c) = [] \<and>
     length data \<le> Buffer_WriteableBytes (tc_input_buffer c) \<and> data \<noteq> [] \<and>
     out_idle c \<and> length (bf_buffer (tc_output_buffer c)) = 512 \<and>
     (\<exists>rs. nt_readv w = Some data # rs) \<and>
     (hr_parse_state (nt_request w) = PARSE_REQUESTLINE \<or> hr_parse_state (nt_request w) = PARSE_COMPLETE)"

text \<open>Reading it answers the request and goes on to close, whatever thread the connection is on.\<close>

definition answered :: "nat \<Rightarrow> tcp_connection \<Rightarrow> closure channel \<Rightarrow> net \<Rightarrow> net \<Rightarrow> bool" where
  "answered a c ch w v \<longleftrightarrow> (\<exists>ib ob. nt_conns v = (nt_conns w)(a \<mapsto> c\<lparr>tc_input_buffer := ib, tc_output_buffer := ob\<rparr>)) \<and>
     nt_calls v = nt_calls w @ [SysSend (ch_fd ch) HttpServer_response (fst (next_send w))] \<and>
     nt_connection_map v = nt_connection_map w \<and> nt_stack v = nt_stack w \<and> el_channels v = el_channels w \<and>
     el_poller v = el_poller w \<and> el_wakeup_channel v = el_wakeup_channel w \<and> el_timer_channel v = el_timer_channel w \<and>
     nt_acceptor v = nt_acceptor w \<and> nt_loops v = nt_loops w \<and> el_thread_id v = el_thread_id w \<and>
     nt_server v = nt_server w \<and> nt_fresh v = nt_fresh w \<and> el_pending_functors v = el_pending_functors w \<and>
     el_quit_flag v = el_quit_flag w"

lemma read_answers:
  assumes c: "nt_conns w a = Some c" "get_channel (tc_channel c) w = Some ch" "tc_event_loop c = el_thread_id w"
    and owned: "a \<in> snd ` set (nt_connection_map w)" and input: "http_input c data w" and data: "data = render_request ''GET'' p v hs"
    and ok: "token p" "token v" "list_all good_header hs"
  shows "\<exists>w3. TcpConnection_HandleRead (server_cbs http_user) a w = TcpConnection_HandleClose (server_cbs http_user) a w3 \<and>
     answered a c ch w w3"
proof -
  note h = input [unfolded http_input_def]
  obtain rs where rs: "nt_readv w = Some data # rs" using h by blast
  obtain b where b: "Buffer_ReadFd (Some data) (tc_input_buffer c) = Inr (int (length data), b)" "bf_invar b"
    "bf_contents b = data"
    using bf_read_fits [of "tc_input_buffer c" data] h by auto
  let ?c1 = "c\<lparr>tc_input_buffer := b\<rparr>"
  let ?w1 = "put_conn a ?c1 (w\<lparr>nt_readv := rs\<rparr>)"
  obtain code b2 r2 where parse: "HttpRequest_ParseRequest b (nt_request w) = Inr (code, b2, r2)"
    using parse_either [OF b(2) _ ok] b(3) data h by blast
  let ?h = "hold a ?w1"
  have "nt_conns ?h a = Some ?c1" "out_idle ?c1" "length (bf_buffer (tc_output_buffer ?c1)) = 512"
    "get_channel (tc_channel ?c1) ?h = Some ch" "tc_state ?c1 = kConnected" "tc_event_loop ?c1 = el_thread_id ?h"
    "HttpRequest_ParseRequest (tc_input_buffer ?c1) (nt_request ?h) = Inr (code, b2, r2)"
    using h c parse by (simp_all add: hold_def put_conn_def out_idle_def get_channel_def)
  from HandleMessage_run [OF this] obtain ob where msg: "HttpServer_HandleMessage a ?h =
      Inr (put_conn a (?c1\<lparr>tc_input_buffer := b2, tc_output_buffer := ob\<rparr>)
        (sys (SysSend (ch_fd ch) HttpServer_response (fst (next_send ?h))) ((snd (next_send ?h))\<lparr>nt_request := r2\<rparr>)))"
    (is "_ = Inr ?w2") by blast
  have n: "fst (next_send ?h) = fst (next_send w)" by (simp add: next_send_def hold_def put_conn_def split: list.splits)
  define w3 where "w3 = ?w2\<lparr>nt_stack := nt_stack w\<rparr>"
  have keep: "nt_stack ?w2 = a # nt_stack w" "nt_connection_map ?w2 = nt_connection_map w"
    using n by (simp_all add: put_conn_def sys_def) (auto simp: next_send_def hold_def put_conn_def split: list.splits)
  have "answered a c ch w w3"
    using n unfolding answered_def w3_def
    by (simp add: put_conn_def sys_def) (auto simp: next_send_def hold_def put_conn_def fun_upd_idem split: list.splits)
  moreover have call: "shared_call (server_cbs http_user) (tc_message_cb c) a ?w1 = Inr w3"
    using h msg owned keep
    by (simp add: shared_call_def conn_owned_def server_cbs_def http_user_def drop_hold_def collect_def w3_def
        put_conn_def [of a ?c1])
  then have "TcpConnection_HandleRead (server_cbs http_user) a w = TcpConnection_HandleClose (server_cbs http_user) a w3"
    using c rs b(1) h by (simp add: TcpConnection_HandleRead_def with_conn_def with_channel_def next_readv_def)
  ultimately show ?thesis by blast
qed

text \<open>The same on a live connection of the base loop.\<close>

definition http_ready :: "nat \<Rightarrow> tcp_connection \<Rightarrow> closure channel \<Rightarrow> string \<Rightarrow> net \<Rightarrow> bool" where
  "http_ready a c ch data w \<longleftrightarrow> live_conn a c ch w \<and> http_input c data w"

lemma HandleRead_GET:
  assumes ready: "http_ready a c ch data w" and data: "data = render_request ''GET'' p v hs"
    and ok: "token p" "token v" "list_all good_header hs"
  shows "\<exists>w'. TcpConnection_HandleRead (server_cbs http_user) a w = Inr w' \<and>
     nt_calls w' = nt_calls w @ [SysSend (ch_fd ch) HttpServer_response (fst (next_send w)), SysClose (tc_socket c)] \<and>
     nt_conns w' = (nt_conns w)(a := None) \<and> get_channel (tc_channel c) w' = None \<and>
     map_find (nt_connection_map w') (tc_name c) = None"
proof -
  have live: "live_conn a c ch w" and input: "http_input c data w" using ready by (simp_all add: http_ready_def)
  note l = live [unfolded live_conn_def]
  have "nt_conns w a = Some c" "get_channel (tc_channel c) w = Some ch" "tc_event_loop c = el_thread_id w"
    "a \<in> snd ` set (nt_connection_map w)"
    using l by (auto simp: in_values_iff)
  from read_answers [OF this input data ok] obtain w3 where
    w3: "TcpConnection_HandleRead (server_cbs http_user) a w = TcpConnection_HandleClose (server_cbs http_user) a w3"
    "answered a c ch w w3" by blast
  note k = w3(2) [unfolded answered_def]
  obtain c2 where c2: "nt_conns w3 = (nt_conns w)(a \<mapsto> c2)" "tc_name c2 = tc_name c" "tc_channel c2 = tc_channel c"
    "tc_close_cb c2 = tc_close_cb c" "tc_event_loop c2 = tc_event_loop c" "tc_socket c2 = tc_socket c"
    using k by fastforce
  have live3: "live_conn a c2 ch w3" using l k c2 by (simp add: live_conn_def get_channel_def)
  from HandleClose_live [OF live3, of http_user] obtain w' where w':
    "TcpConnection_HandleClose (server_cbs http_user) a w3 = Inr w'" "nt_conns w' = (nt_conns w3)(a := None)"
    "el_channels w' = (el_channels w3)(tc_channel c2 := None)"
    "nt_connection_map w' = map_erase (tc_name c2) (nt_connection_map w3)"
    "nt_calls w' = nt_calls w3 @ [SysClose (tc_socket c2)]" by blast
  have "map_sorted (nt_connection_map w)" using l by blast
  moreover have "nt_connection_map w3 = nt_connection_map w"
    "nt_calls w3 = nt_calls w @ [SysSend (ch_fd ch) HttpServer_response (fst (next_send w))]"
    using k by blast+
  ultimately show ?thesis
    using w' w3(1) by (intro exI [of _ w']) (simp add: c2 get_channel_def map_of_map_erase)
qed

section \<open>Properties\<close>

text \<open>The body the server sends with every response is 143 bytes long, while the header of the same
  response announces 123: a client that believes the header drops the last 20 bytes or takes them
  for the start of another response.\<close>

theorem HttpServer_content_length_wrong:
  "\<exists>pre. HttpServer_headers = pre @ ''Content-Length: '' @ to_string_nat 123 @ kCRLF @ kCRLF"
  "length HttpServer_body = 143"
  "HttpServer_response = HttpServer_headers @ HttpServer_body"
proof -
  have "to_string_nat 123 = ''123''" by code_simp
  then show "\<exists>pre. HttpServer_headers = pre @ ''Content-Length: '' @ to_string_nat 123 @ kCRLF @ kCRLF"
    unfolding HttpServer_headers_def
    by (intro exI [of _ "''HTTP/1.1 200 OK'' @ kCRLF @ ''Date: Sun, 24 Oct 2023 12:00:00 GMT'' @ kCRLF @
      ''Server: MyServer'' @ kCRLF @ ''Content-Type: text/html'' @ kCRLF"]) simp
  show "length HttpServer_body = 143" by code_simp
qed (rule HttpServer_response_def)

text \<open>C22: a live connection that receives a complete well-formed \<open>GET\<close> request answers it with exactly
  one \<open>send\<close> of the fixed response, then closes: the connection is gone from the table and from
  memory, its channel is destroyed and its socket closed. This holds whatever \<open>send\<close> returns: a part
  the kernel did not take is dropped.\<close>

theorem HttpServer_answers_and_closes:
  assumes "http_ready a c ch data w" "data = render_request ''GET'' p v hs"
    and "token p" "token v" "list_all good_header hs"
  shows "\<exists>w'. TcpConnection_HandleRead (server_cbs http_user) a w = Inr w' \<and>
     nt_calls w' = nt_calls w @ [SysSend (ch_fd ch) HttpServer_response (fst (next_send w)), SysClose (tc_socket c)] \<and>
     nt_conns w' = (nt_conns w)(a := None) \<and> get_channel (tc_channel c) w' = None \<and>
     map_find (nt_connection_map w') (tc_name c) = None"
  using assms by (rule HandleRead_GET)

text \<open>A client with a request, connected to a server that is ready.\<close>

definition get_request :: string where
  "get_request = render_request ''GET'' ''/'' ''HTTP/1.1'' [(''Host'', ''a'')]"

definition client_world :: "events \<Rightarrow> int list \<Rightarrow> http_request \<Rightarrow> net" where
  "client_world ev sends req = put_conn 20 (new_conn 5 no_addr ready_net)
     (put_channel 21 ((new_channel 5 20)\<lparr>ch_trigger_events := ev\<rparr>) ready_net)
     \<lparr>nt_connection_map := [(connection_name no_addr, 20)],
      el_poller := (EpollPoller_new 3)\<lparr>pl_channels_map := [(5, 21)]\<rparr>,
      nt_readv := [Some get_request], nt_send := sends, nt_request := req\<rparr>"

lemma client_world_ready:
  assumes "hr_parse_state req = PARSE_REQUESTLINE \<or> hr_parse_state req = PARSE_COMPLETE"
  shows "http_ready 20 (new_conn 5 no_addr ready_net) ((new_channel 5 20)\<lparr>ch_trigger_events := ev\<rparr>) get_request
    (client_world ev sends req)"
proof -
  have "length get_request \<le> 512" by code_simp
  moreover have "get_request \<noteq> []" by code_simp
  ultimately show ?thesis
    using assms
    by (simp add: http_ready_def http_input_def client_world_def live_conn_def new_conn_def Let_def ready_net put_conn_def
        put_channel_def get_channel_def Buffer_kInitialSize_def bf_invar_def bf_contents_def out_idle_def
        Buffer_WriteableBytes_def sz_sub_id)
      (simp add: ready_net_def net_new_def event_loop.defs EventLoop_new_def new_channel_def
        Channel_EnableReading_def Channel_new_def)
qed

lemma get_request_good: "token ''/''" "token ''HTTP/1.1''" "list_all good_header [(''Host'', ''a'')]"
  by code_simp+

theorem HttpServer_answers_and_closes_witness:
  "\<exists>w'. TcpConnection_HandleRead (server_cbs http_user) 20 (client_world EPOLLIN [100] HttpRequest_zero) = Inr w' \<and>
     nt_conns w' 20 = None \<and> SysSend 5 HttpServer_response 100 \<in> set (nt_calls w') \<and> SysClose 5 \<in> set (nt_calls w')"
proof -
  have "hr_parse_state HttpRequest_zero = PARSE_REQUESTLINE \<or> hr_parse_state HttpRequest_zero = PARSE_COMPLETE"
    by (simp add: HttpRequest_zero_def)
  from HttpServer_answers_and_closes [OF client_world_ready [OF this] get_request_def get_request_good, of EPOLLIN "[100]"]
  show ?thesis
    by (auto simp: client_world_def next_send_def new_channel_def Channel_EnableReading_def Channel_new_def
        new_conn_def Let_def)
qed

lemma request_uses_freed_channel:
  assumes "http_ready a c ch data w" "data = render_request ''GET'' p v hs"
    and "token p" "token v" "list_all good_header hs"
    and "conn_channel a ch" "ch_trigger_events ch AND EPOLLIN \<noteq> 0" "ch_trigger_events ch AND EPOLLERR = 0"
  shows "Channel_HandleEvent get_channel put_channel (run_event http_user) (tc_channel c) w = Inl UseAfterFree"
proof -
  have live: "live_conn a c ch w" using assms(1) by (simp add: http_ready_def)
  let ?w = "put_channel (tc_channel c) (ch\<lparr>ch_event_handling := True\<rparr>) w"
  have "ch_trigger_events ch AND (EPOLLIN OR EPOLLPRI OR EPOLLRDHUP) \<noteq> 0"
    using assms(7) by (simp only: and_mask_iff bit_or_iff) blast
  then have "\<exists>fs. dispatched ch = OnRead a # fs"
    using assms(6-8) by (auto simp: dispatched_def guarded_def Let_def conn_channel_def)
  then obtain fs where fs: "dispatched ch = OnRead a # fs" by blast
  have "http_ready a c (ch\<lparr>ch_event_handling := True\<rparr>) data ?w"
    using assms(1) live_put_channel [OF live, of "ch\<lparr>ch_event_handling := True\<rparr>"]
    by (simp add: http_ready_def http_input_def) (simp add: put_channel_def)
  from HandleRead_GET [OF this assms(2-5)] show ?thesis
    by (intro HandleEvent_ends_in_destroyed [OF live fs]) auto
qed

text \<open>The connection's own event is where this happens, so every answered request ends in a use of
  freed memory: for any event set that reports input and no error, \<open>HandleEvent\<close> on the channel of a
  client that has sent a well-formed \<open>GET\<close> continues with the destroyed channel.\<close>

theorem HttpServer_request_use_after_free:
  assumes "http_ready a c ch data w" "data = render_request ''GET'' p v hs"
    and "token p" "token v" "list_all good_header hs"
    and "conn_channel a ch" "ch_trigger_events ch AND EPOLLIN \<noteq> 0" "ch_trigger_events ch AND EPOLLERR = 0"
  shows "Channel_HandleEvent get_channel put_channel (run_event http_user) (tc_channel c) w = Inl UseAfterFree"
  using assms by (rule request_uses_freed_channel)

theorem HttpServer_request_use_after_free_witness:
  "Channel_HandleEvent get_channel put_channel (run_event http_user) 21 (client_world EPOLLIN [263] HttpRequest_zero) =
     Inl UseAfterFree"
proof -
  have "hr_parse_state HttpRequest_zero = PARSE_REQUESTLINE \<or> hr_parse_state HttpRequest_zero = PARSE_COMPLETE"
    by (simp add: HttpRequest_zero_def)
  from HttpServer_request_use_after_free [OF client_world_ready [OF this] get_request_def get_request_good, of EPOLLIN "[263]"]
  show ?thesis
    by (simp add: conn_channel_def new_channel_def Channel_EnableReading_def new_conn_def Let_def ready_net)
qed

text \<open>The request object is shared by all connections of the thread and never reset: once one
  request has been parsed, later well-formed \<open>GET\<close>s on other connections are answered without being
  parsed, the object still holding the path of the first.\<close>

theorem HttpServer_later_requests_not_parsed:
  assumes "nt_conns w a = Some c" "tc_state c = kConnected" "out_idle c"
    and "length (bf_buffer (tc_output_buffer c)) = 512" "get_channel (tc_channel c) w = Some ch"
    and "bf_invar (tc_input_buffer c)" "bf_contents (tc_input_buffer c) = render_request ''GET'' p v hs"
    and "token p" "token v" "list_all good_header hs" "hr_parse_state (nt_request w) = PARSE_COMPLETE"
    and "tc_event_loop c = el_thread_id w"
  shows "\<exists>w'. HttpServer_HandleMessage a w = Inr w' \<and> hr_path (nt_request w') = hr_path (nt_request w) \<and>
     hr_parse_state (nt_request w') = PARSE_COMPLETE \<and>
     nt_calls w' = nt_calls w @ [SysSend (ch_fd ch) HttpServer_response (fst (next_send w))]"
proof -
  obtain code b r where parse: "HttpRequest_ParseRequest (tc_input_buffer c) (nt_request w) = Inr (code, b, r)"
    "hr_parse_state r = PARSE_COMPLETE" "hr_path r = hr_path (nt_request w)"
    using parse_either [OF assms(6-10), of "nt_request w"] assms(11) by auto
  from HandleMessage_run [OF assms(1,3,4,5,2,12) parse(1)] parse(2,3) show ?thesis
    by (auto simp: put_conn_def sys_def next_send_def split: list.splits)
qed

theorem HttpServer_later_requests_not_parsed_witness:
  "let w = put_conn 20 ((new_conn 5 no_addr ready_net)\<lparr>tc_input_buffer :=
        \<lparr>bf_buffer = get_request @ ''.'', bf_read_index = 0, bf_write_index = length get_request\<rparr>\<rparr>)
      (client_world EPOLLIN [263] (HttpRequest_zero\<lparr>hr_parse_state := PARSE_COMPLETE, hr_path := ''/first''\<rparr>))
   in \<exists>w'. HttpServer_HandleMessage 20 w = Inr w' \<and> hr_path (nt_request w') = ''/first''"
proof -
  let ?r = "HttpRequest_zero\<lparr>hr_parse_state := PARSE_COMPLETE, hr_path := ''/first''\<rparr>"
  let ?b = "\<lparr>bf_buffer = get_request @ ''.'', bf_read_index = 0, bf_write_index = length get_request\<rparr>"
  let ?c = "(new_conn 5 no_addr ready_net)\<lparr>tc_input_buffer := ?b\<rparr>"
  let ?w = "put_conn 20 ?c (client_world EPOLLIN [263] ?r)"
  have conn: "nt_conns ?w 20 = Some ?c" "tc_state ?c = kConnected" "out_idle ?c"
    "length (bf_buffer (tc_output_buffer ?c)) = 512" "tc_input_buffer ?c = ?b"
    "get_channel (tc_channel ?c) ?w = Some ((new_channel 5 20)\<lparr>ch_trigger_events := EPOLLIN\<rparr>)"
    by (simp_all add: put_conn_def new_conn_def Let_def out_idle_def Buffer_kInitialSize_def
        client_world_def get_channel_def put_channel_def ready_net)
  have "bf_invar ?b" "bf_contents ?b = get_request" by code_simp+
  then have buf: "bf_invar (tc_input_buffer ?c)" "bf_contents (tc_input_buffer ?c) = render_request ''GET'' ''/'' ''HTTP/1.1'' [(''Host'', ''a'')]"
    unfolding conn(5) get_request_def by simp_all
  have req: "nt_request ?w = ?r" "tc_event_loop ?c = el_thread_id ?w"
    by (simp_all add: put_conn_def client_world_def new_conn_def Let_def put_channel_def)
  then have "hr_parse_state (nt_request ?w) = PARSE_COMPLETE" "hr_path (nt_request ?w) = ''/first''" by simp_all
  from HttpServer_later_requests_not_parsed [OF conn(1-4,6) buf get_request_good this(1) req(2)] this(2)
  show ?thesis unfolding Let_def by auto
qed

end
