(* ===== verification/Ownership.thy ===== *)
theory Ownership
  imports Http_Server
begin

text \<open>
  The discipline of the owning pointers. \<open>owned\<close> is the well-formedness of a world: every owning
  pointer refers to a live object of the right kind and every live object has an owner, so nothing
  that is owned has been freed and nothing has leaked. Every operation of the server keeps it, and
  under it \<open>shared_from_this\<close> cannot fail. The pointers that may dangle are therefore the plain ones:
  the \<open>this\<close> bound into the channel callbacks and the channels the poller reports.
\<close>

section \<open>Outcomes that keep a condition\<close>

definition safe :: "('a \<Rightarrow> bool) \<Rightarrow> 'a outcome \<Rightarrow> bool" where
  "safe P m \<longleftrightarrow> (case m of Inl e \<Rightarrow> e \<noteq> BadWeakPtr | Inr w \<Rightarrow> P w)"

lemma safe_Inr [simp]: "safe P (Inr w) = P w"
  by (simp add: safe_def)

lemma safe_Inl [simp]: "safe P (Inl e) = (e \<noteq> BadWeakPtr)"
  by (simp add: safe_def)

lemma safe_bind: "safe Q m \<Longrightarrow> (\<And>x. Q x \<Longrightarrow> safe P (f x)) \<Longrightarrow> safe P (obind m f)"
  by (cases m) auto

lemma safe_mono: "safe Q m \<Longrightarrow> (\<And>x. Q x \<Longrightarrow> P x) \<Longrightarrow> safe P m"
  by (auto simp: safe_def split: sum.splits)

lemma safe_check: "(c \<Longrightarrow> safe P m) \<Longrightarrow> e \<noteq> BadWeakPtr \<Longrightarrow> safe P (check c e m)"
  by (cases c) auto

lemma safe_with_conn: "(\<And>c. nt_conns w a = Some c \<Longrightarrow> safe P (k c)) \<Longrightarrow> safe P (with_conn a w k)"
  by (auto simp: with_conn_def split: option.split)

lemma safe_with_channel: "(\<And>c. get a w = Some c \<Longrightarrow> safe P (k c)) \<Longrightarrow> safe P (with_channel get a w k)"
  by (auto simp: with_channel_def split: option.split)

abbreviation safely :: "'a outcome \<Rightarrow> bool" where "safely \<equiv> safe (\<lambda>_. True)"

section \<open>Well-formed worlds\<close>

text \<open>A connection's channel follows it in memory, is bound to it and has the descriptor of its socket.\<close>

definition conn_ok :: "nat \<Rightarrow> tcp_connection \<Rightarrow> net \<Rightarrow> bool" where
  "conn_ok a c w \<longleftrightarrow> tc_channel c = Suc a \<and> Suc a < nt_fresh w \<and>
     (\<exists>ch. get_channel (Suc a) w = Some ch \<and> conn_channel a ch \<and> ch_fd ch = tc_socket c)"

text \<open>The channels that members of the loop and the acceptor point to; address 0 is null.\<close>

definition member_channel :: "nat \<Rightarrow> net \<Rightarrow> bool" where
  "member_channel h w \<longleftrightarrow> h \<noteq> 0 \<and>
     (el_wakeup_channel w = Some h \<or> el_timer_channel w = Some h \<or> ac_channel (nt_acceptor w) = h)"

text \<open>
  The other threads' loops: a parked loop's table has live channels under their descriptors, and its
  own two channels live. The connections held are those of the \<open>shared_ptr\<close>s on the stack, \<open>s\<close>, and those of
  the functors queued in some loop.
\<close>

definition parked_ok :: "closure event_loop \<Rightarrow> net \<Rightarrow> bool" where
  "parked_ok l w \<longleftrightarrow> map_sorted (pl_channels_map (el_poller l)) \<and>
     (\<forall>fd h. map_find (pl_channels_map (el_poller l)) fd = Some h \<longrightarrow>
       (\<exists>ch. get_channel h w = Some ch \<and> ch_fd ch = fd)) \<and>
     (\<forall>h. h \<noteq> 0 \<and> (el_wakeup_channel l = Some h \<or> el_timer_channel l = Some h) \<longrightarrow> get_channel h w \<noteq> None)"

abbreviation functor_conns :: "closure list \<Rightarrow> nat list" where
  "functor_conns fs \<equiv> concat (map bound_conns fs)"

definition queued :: "net \<Rightarrow> nat multiset" where
  "queued w = mset (functor_conns (el_pending_functors w)) +
     (\<Sum>x\<in>#mset (nt_loops w). mset (functor_conns (el_pending_functors (fst x))))"

definition loops_ok :: "nat list \<Rightarrow> net \<Rightarrow> bool" where
  "loops_ok s w \<longleftrightarrow> mset (nt_stack w) = mset s + queued w \<and> (\<forall>x \<in> set (nt_loops w). parked_ok (fst x) w)"

text \<open>
  \<open>X\<close> and \<open>Y\<close> are the connections and channels that may be without an owner for the moment, \<open>s\<close> is what
  \<open>shared_ptr\<close>s on the stack refer to.
\<close>

definition owned_but :: "nat set \<Rightarrow> nat set \<Rightarrow> nat list \<Rightarrow> net \<Rightarrow> bool" where
  "owned_but X Y s w \<longleftrightarrow> loops_ok s w \<and>
     map_sorted (nt_connection_map w) \<and> map_sorted (pl_channels_map (el_poller w)) \<and>
     (\<forall>a c. nt_conns w a = Some c \<longrightarrow> conn_ok a c w) \<and>
     (\<forall>a. nt_conns w a \<noteq> None \<longrightarrow> a \<in> X \<or> conn_owned a w) \<and>
     (\<forall>h ch. get_channel h w = Some ch \<longrightarrow> h < nt_fresh w) \<and>
     (\<forall>h. get_channel h w \<noteq> None \<longrightarrow> h \<in> Y \<or> channel_owned h w \<or> conn_has_channel h w) \<and>
     (\<forall>n a. map_find (nt_connection_map w) n = Some a \<longrightarrow> (\<exists>c. nt_conns w a = Some c \<and> tc_name c = n)) \<and>
     (\<forall>a \<in> set (nt_stack w). nt_conns w a \<noteq> None) \<and>
     (\<forall>fd h. map_find (pl_channels_map (el_poller w)) fd = Some h \<longrightarrow>
       (\<exists>ch. get_channel h w = Some ch \<and> ch_fd ch = fd)) \<and>
     (\<forall>h. member_channel h w \<longrightarrow> get_channel h w \<noteq> None)"

abbreviation owned :: "nat list \<Rightarrow> net \<Rightarrow> bool" where "owned \<equiv> owned_but {} {}"

text \<open>Everything else in the world is irrelevant.\<close>

lemma owned_cong:
  assumes "nt_stack w' = nt_stack w" "nt_connection_map w' = nt_connection_map w"
    "pl_channels_map (el_poller w') = pl_channels_map (el_poller w)" "nt_conns w' = nt_conns w"
    "el_channels w' = el_channels w" "nt_fresh w' = nt_fresh w" "el_wakeup_channel w' = el_wakeup_channel w"
    "el_timer_channel w' = el_timer_channel w" "ac_channel (nt_acceptor w') = ac_channel (nt_acceptor w)"
    "nt_loops w' = nt_loops w" "el_pending_functors w' = el_pending_functors w"
  shows "owned_but X Y s w' = owned_but X Y s w"
  by (simp add: owned_but_def conn_ok_def member_channel_def conn_owned_def channel_owned_def
      conn_has_channel_def get_channel_def loops_ok_def queued_def parked_ok_def assms)

lemma owned_updates [simp]:
  "owned_but X Y s (w\<lparr>nt_server := z1\<rparr>) = owned_but X Y s w"
  "owned_but X Y s (w\<lparr>nt_request := z2\<rparr>) = owned_but X Y s w"
  "owned_but X Y s (w\<lparr>nt_readv := z3\<rparr>) = owned_but X Y s w"
  "owned_but X Y s (w\<lparr>nt_write := z3'\<rparr>) = owned_but X Y s w"
  "owned_but X Y s (w\<lparr>nt_send := z4\<rparr>) = owned_but X Y s w"
  "owned_but X Y s (w\<lparr>nt_accept := z5\<rparr>) = owned_but X Y s w"
  "owned_but X Y s (w\<lparr>nt_open := z4\<rparr>) = owned_but X Y s w"
  "owned_but X Y s (w\<lparr>nt_calls := z6\<rparr>) = owned_but X Y s w"
  "owned_but X Y s (w\<lparr>el_loop_flag := b\<rparr>) = owned_but X Y s w"
  "owned_but X Y s (w\<lparr>el_quit_flag := b\<rparr>) = owned_but X Y s w"
  "owned_but X Y s (w\<lparr>el_event_handling_flag := b\<rparr>) = owned_but X Y s w"
  "owned_but X Y s (w\<lparr>el_active_channel_list := as\<rparr>) = owned_but X Y s w"
  "owned_but X Y s (w\<lparr>el_wakeup_count := n\<rparr>) = owned_but X Y s w"
  "owned_but X Y s (w\<lparr>el_timer_queue := q\<rparr>) = owned_but X Y s w"
  by (rule owned_cong; simp)+

lemma owned_sys [simp]: "owned_but X Y s (sys c w) = owned_but X Y s w"
  by (simp add: sys_def)

text \<open>The projections the proofs use.\<close>

lemma owned_conn:
  "owned_but X Y s w \<Longrightarrow> nt_conns w a = Some c \<Longrightarrow> conn_ok a c w"
  by (simp add: owned_but_def)

lemma owned_conn_owned: "owned_but X Y s w \<Longrightarrow> nt_conns w a \<noteq> None \<Longrightarrow> a \<notin> X \<Longrightarrow> conn_owned a w"
  by (auto simp: owned_but_def)

lemma owned_sorted:
  "owned_but X Y s w \<Longrightarrow> map_sorted (pl_channels_map (el_poller w))"
  "owned_but X Y s w \<Longrightarrow> map_sorted (nt_connection_map w)"
  by (simp_all add: owned_but_def)

lemma owned_registered:
  "owned_but X Y s w \<Longrightarrow> map_find (pl_channels_map (el_poller w)) fd = Some h \<Longrightarrow>
   \<exists>ch. get_channel h w = Some ch \<and> ch_fd ch = fd"
  by (simp add: owned_but_def)

lemma owned_channel:
  "owned_but X Y s w \<Longrightarrow> get_channel h w \<noteq> None \<Longrightarrow> h \<in> Y \<or> channel_owned h w \<or> conn_has_channel h w"
  by (simp add: owned_but_def)

lemma owned_stack: "owned_but X Y s w \<Longrightarrow> set s \<subseteq> set (nt_stack w)"
  by (auto simp: owned_but_def loops_ok_def simp flip: set_mset_mset)

text \<open>What the loops look at.\<close>

lemma loops_ok_cong:
  "nt_stack w' = nt_stack w \<Longrightarrow> nt_loops w' = nt_loops w \<Longrightarrow> el_pending_functors w' = el_pending_functors w \<Longrightarrow>
   el_channels w' = el_channels w \<Longrightarrow> loops_ok s w' = loops_ok s w"
  by (simp add: loops_ok_def queued_def parked_ok_def get_channel_def)

lemma loops_ok_channel:
  assumes "loops_ok s w" "nt_stack w' = nt_stack w" "nt_loops w' = nt_loops w" "el_pending_functors w' = el_pending_functors w"
    and "\<And>h ch. other_loop_owns h (nt_loops w) \<Longrightarrow> get_channel h w = Some ch \<Longrightarrow>
      \<exists>ch'. get_channel h w' = Some ch' \<and> ch_fd ch' = ch_fd ch"
  shows "loops_ok s w'"
proof -
  have "parked_ok l w'" if "(l, q) \<in> set (nt_loops w)" for l q
  proof -
    have "parked_ok l w" using assms(1) that by (auto simp: loops_ok_def)
    moreover have "other_loop_owns h (nt_loops w)"
      if "map_find (pl_channels_map (el_poller l)) fd = Some h \<or> el_wakeup_channel l = Some h \<or> el_timer_channel l = Some h" for fd h
      using that \<open>(l, q) \<in> _\<close> by (force simp: other_loop_owns_def loop_owns_def dest: map_of_SomeD)
    ultimately show ?thesis
      using assms(5) unfolding parked_ok_def by (metis not_None_eq)
  qed
  then show ?thesis using assms(1-4) by (auto simp: loops_ok_def queued_def)
qed

lemma owned_put_conn:
  assumes "owned_but X Y s w" "nt_conns w a = Some c"
    and "tc_channel c' = tc_channel c" "tc_name c' = tc_name c" "tc_socket c' = tc_socket c"
  shows "owned_but X Y s (put_conn a c' w)"
proof -
  have "conn_has_channel h (put_conn a c' w) = conn_has_channel h w" for h
    using assms(2,3) by (simp add: conn_has_channel_def put_conn_def)
  moreover have "conn_ok b d (put_conn a c' w) = conn_ok b d w" "conn_owned b (put_conn a c' w) = conn_owned b w"
    "channel_owned h (put_conn a c' w) = channel_owned h w" "member_channel h (put_conn a c' w) = member_channel h w"
    "get_channel h (put_conn a c' w) = get_channel h w" "loops_ok s (put_conn a c' w) = loops_ok s w" for b d h
    by (simp_all add: loops_ok_def queued_def parked_ok_def conn_ok_def conn_owned_def channel_owned_def member_channel_def put_conn_def get_channel_def)
  ultimately show ?thesis
    using assms unfolding owned_but_def by (simp add: put_conn_def conn_ok_def) (metis option.inject)
qed

text \<open>Changes to a channel that keep its descriptor and what it is bound to.\<close>

definition same_binding :: "closure channel \<Rightarrow> closure channel \<Rightarrow> bool" where
  "same_binding ch ch' \<longleftrightarrow> ch_fd ch' = ch_fd ch \<and> ch_read_call_back ch' = ch_read_call_back ch \<and>
     ch_write_call_back ch' = ch_write_call_back ch \<and> ch_close_call_back ch' = ch_close_call_back ch \<and>
     ch_error_call_back ch' = ch_error_call_back ch"

lemma same_binding [simp]:
  "same_binding ch (ch\<lparr>ch_event_handling := b\<rparr>)" "same_binding ch (ch\<lparr>ch_trigger_events := ev\<rparr>)"
  "same_binding ch (ch\<lparr>ch_run_in_loop_flag := b\<rparr>)"
  "same_binding ch (Channel_EnableReading ch)" "same_binding ch (Channel_DisableReading ch)"
  "same_binding ch (Channel_EnableWriting ch)" "same_binding ch (Channel_DisableWritint ch)"
  by (simp_all add: same_binding_def Channel_EnableReading_def Channel_DisableReading_def
      Channel_EnableWriting_def Channel_DisableWritint_def)

lemma owned_put_channel:
  assumes "owned_but X Y s w" "get_channel h w = Some ch" "same_binding ch ch'"
  shows "owned_but X Y s (put_channel h ch' w)"
proof -
  have get: "get_channel k (put_channel h ch' w) = (if k = h then Some ch' else get_channel k w)" for k
    by (simp add: get_channel_def put_channel_def)
  have "conn_ok b d (put_channel h ch' w) = conn_ok b d w" for b d
    using assms(2,3) by (auto simp: conn_ok_def get same_binding_def conn_channel_def) (simp_all add: put_channel_def)
  moreover have "conn_owned b (put_channel h ch' w) = conn_owned b w"
    "channel_owned k (put_channel h ch' w) = channel_owned k w" "member_channel k (put_channel h ch' w) = member_channel k w"
    "conn_has_channel k (put_channel h ch' w) = conn_has_channel k w" for b k
    by (simp_all add: conn_owned_def channel_owned_def member_channel_def conn_has_channel_def put_channel_def)
  moreover have "nt_stack (put_channel h ch' w) = nt_stack w" "nt_connection_map (put_channel h ch' w) = nt_connection_map w"
    "el_poller (put_channel h ch' w) = el_poller w" "nt_conns (put_channel h ch' w) = nt_conns w"
    "nt_fresh (put_channel h ch' w) = nt_fresh w"
    by (simp_all add: put_channel_def)
  moreover have "loops_ok s (put_channel h ch' w)"
    by (rule loops_ok_channel [of _ w]) (use assms in \<open>auto simp: get owned_but_def same_binding_def\<close>,
      simp_all add: put_channel_def)
  ultimately show ?thesis
    using assms unfolding owned_but_def get by (simp add: same_binding_def) (metis option.inject)
qed

lemma safe_on_channel:
  assumes "owned_but X Y s w" "\<And>ch. same_binding ch (g ch)"
  shows "safe (\<lambda>w'. owned_but X Y s w' \<and> nt_conns w' = nt_conns w \<and> el_poller w' = el_poller w \<and>
     (\<exists>ch. get_channel h w = Some ch \<and> get_channel h w' = Some (g ch))) (on_channel h g w)"
  unfolding on_channel_def
  by (rule safe_with_channel) (use assms in \<open>simp add: owned_put_channel\<close>, simp add: put_channel_def get_channel_def)

lemma safe_on_conn:
  assumes "owned_but X Y s w" "\<And>c. tc_channel (g c) = tc_channel c \<and> tc_name (g c) = tc_name c \<and> tc_socket (g c) = tc_socket c"
  shows "safe (\<lambda>w'. owned_but X Y s w' \<and> nt_conns w' a \<noteq> None) (on_conn a g w)"
  unfolding on_conn_def
  by (rule safe_with_conn) (use assms in \<open>auto simp: owned_put_conn\<close>, auto simp: put_conn_def)

section \<open>Letting go\<close>

text \<open>An unowned channel can be freed, unless its destructor asserts.\<close>

lemma safe_free_channel:
  assumes own: "owned_but X {h} s w" and no: "\<not> channel_owned h w" "\<not> conn_has_channel h w"
  shows "safe (\<lambda>w'. owned_but X {} s w' \<and> nt_conns w' = nt_conns w) (free_channel h w)"
proof -
  let ?w = "w\<lparr>el_channels := (el_channels w)(h := None)\<rparr>"
  have get: "get_channel k ?w = (if k = h then None else get_channel k w)" for k
    by (simp add: get_channel_def)
  have eqs: "conn_owned b ?w = conn_owned b w" "channel_owned k ?w = channel_owned k w"
    "member_channel k ?w = member_channel k w" "conn_has_channel k ?w = conn_has_channel k w" for b k
    by (simp_all add: conn_owned_def channel_owned_def member_channel_def conn_has_channel_def)
  have conns: "conn_ok a c ?w" if "nt_conns w a = Some c" for a c
  proof -
    have "conn_ok a c w" using own that by (rule owned_conn)
    moreover from this that no(2) have "Suc a \<noteq> h" by (auto simp: conn_ok_def conn_has_channel_def)
    ultimately show ?thesis by (simp add: conn_ok_def get)
  qed
  have sorted: "map_sorted (pl_channels_map (el_poller w))" using own by (simp add: owned_but_def)
  have "h \<notin> snd ` set (pl_channels_map (el_poller w))" "\<not> member_channel h w"
    using no(1) by (auto simp: channel_owned_def member_channel_def)
  moreover have "loops_ok s ?w"
    by (rule loops_ok_channel [of _ w]) (use own no(1) in \<open>auto simp: owned_but_def channel_owned_def get\<close>)
  ultimately have "owned_but X {} s ?w"
    using own conns unfolding owned_but_def eqs get by (auto simp: in_values_iff [OF sorted])
  then show ?thesis
    unfolding free_channel_def
    by (intro safe_with_channel safe_bind [where Q = "\<lambda>_. True"])
      (auto simp: Channel_destroy_def intro!: safe_check)
qed

lemma safe_release:
  assumes "owned_but X {h} s w"
  shows "safe (\<lambda>w'. owned_but X {} s w' \<and> nt_conns w' = nt_conns w) (release_channel (Some h) w)"
proof (cases "channel_owned h w \<or> conn_has_channel h w")
  case True
  then show ?thesis using assms by (auto simp: release_channel_def owned_but_def)
next
  case False
  then show ?thesis using safe_free_channel [OF assms] by (simp add: release_channel_def)
qed

text \<open>Changing an entry of the poller's table leaves at most the channel of the old entry unowned.\<close>

lemma owned_table_change:
  assumes own: "owned_but X {} s w" and sorted: "map_sorted (pl_channels_map p)"
    and new: "\<And>fd' k. map_find (pl_channels_map p) fd' = Some k \<Longrightarrow>
      map_find (pl_channels_map (el_poller w)) fd' = Some k \<or> (\<exists>ch. get_channel k w = Some ch \<and> ch_fd ch = fd')"
    and old: "\<And>fd' k. map_find (pl_channels_map (el_poller w)) fd' = Some k \<Longrightarrow>
      map_find (pl_channels_map p) fd' = Some k \<or> map_find (pl_channels_map (el_poller w)) fd = Some k"
  shows "owned_but X (set_option (map_find (pl_channels_map (el_poller w)) fd)) s (w\<lparr>el_poller := p\<rparr>)"
proof -
  let ?w = "w\<lparr>el_poller := p\<rparr>" and ?Y = "set_option (map_find (pl_channels_map (el_poller w)) fd)"
  note sorted0 = owned_sorted(1) [OF own]
  have eqs: "get_channel k ?w = get_channel k w" "conn_owned b ?w = conn_owned b w" "conn_ok b d ?w = conn_ok b d w"
    "member_channel k ?w = member_channel k w" "conn_has_channel k ?w = conn_has_channel k w"
    "nt_stack ?w = nt_stack w" "nt_connection_map ?w = nt_connection_map w" "el_poller ?w = p"
    "nt_conns ?w = nt_conns w" "nt_fresh ?w = nt_fresh w" "loops_ok s ?w = loops_ok s w" for k b d
    by (simp_all add: get_channel_def conn_owned_def conn_ok_def member_channel_def conn_has_channel_def
        loops_ok_cong [of ?w w])
  have "channel_owned k w \<Longrightarrow> k \<in> ?Y \<or> channel_owned k ?w" for k
    using old by (auto simp: channel_owned_def in_values_iff [OF sorted] in_values_iff [OF sorted0])
  then have "\<forall>k. get_channel k w \<noteq> None \<longrightarrow> k \<in> ?Y \<or> channel_owned k ?w \<or> conn_has_channel k w"
    using owned_channel [OF own] by blast
  moreover have "\<forall>fd' k. map_find (pl_channels_map p) fd' = Some k \<longrightarrow> (\<exists>ch. get_channel k w = Some ch \<and> ch_fd ch = fd')"
    using new owned_registered [OF own] by blast
  ultimately show ?thesis
    using own sorted unfolding owned_but_def eqs by (elim conjE, intro conjI) assumption+
qed

lemma safe_unregister:
  assumes own: "owned_but X {} s w"
  shows "safe (\<lambda>w'. owned_but X {} s w' \<and> nt_conns w' = nt_conns w) (unregister_channel h w)"
proof -
  let ?Y = "set_option (registered h w)"
  have "safe (\<lambda>w'. owned_but X ?Y s w' \<and> nt_conns w' = nt_conns w) (EventLoop_RemoveChannel h w)"
    unfolding EventLoop_RemoveChannel_def
  proof (rule safe_bind [OF safe_on_channel [OF own]], simp, rule safe_with_channel)
    fix w1 c
    assume w1: "owned_but X {} s w1 \<and> nt_conns w1 = nt_conns w \<and> el_poller w1 = el_poller w \<and>
        (\<exists>ch. get_channel h w = Some ch \<and> get_channel h w1 = Some (Channel_set_run_in_loop_flag False ch))"
      and c: "get_channel h w1 = Some c"
    have sorted: "map_sorted (pl_channels_map (el_poller w1))" using w1 by (blast intro: owned_sorted)
    have Y: "?Y = set_option (map_find (pl_channels_map (el_poller w1)) (ch_fd c))"
      using w1 c by (auto simp: registered_def)
    show "safe (\<lambda>w'. owned_but X ?Y s w' \<and> nt_conns w' = nt_conns w)
        (Inr (w1\<lparr>el_poller := EpollPoller_RemoveChannel h c (el_poller w1)\<rparr>))"
      unfolding Y safe_Inr
    proof
      show "owned_but X (set_option (map_find (pl_channels_map (el_poller w1)) (ch_fd c))) s
          (w1\<lparr>el_poller := EpollPoller_RemoveChannel h c (el_poller w1)\<rparr>)"
        by (rule owned_table_change)
          (use w1 sorted c in \<open>auto simp: EpollPoller_RemoveChannel_def EpollPoller_Update_def Let_def
             map_sorted_erase map_of_map_erase split: if_splits\<close>)
    qed (use w1 in simp)
  qed
  then show ?thesis
    unfolding unregister_channel_def
  proof (rule safe_bind)
    fix w1 assume w1: "owned_but X ?Y s w1 \<and> nt_conns w1 = nt_conns w"
    then show "safe (\<lambda>w'. owned_but X {} s w' \<and> nt_conns w' = nt_conns w) (release_channel (registered h w) w1)"
      using safe_release [of X _ s w1] by (cases "registered h w") (auto simp: release_channel_def)
  qed
qed

lemma safe_register:
  assumes own: "owned_but X {} s w"
  shows "safe (\<lambda>w'. owned_but X {} s w' \<and> nt_conns w' = nt_conns w) (register_channel h w)"
proof -
  let ?Y = "set_option (registered h w)"
  have "safe (\<lambda>w'. owned_but X ?Y s w' \<and> nt_conns w' = nt_conns w) (EventLoop_AddChannel h w)"
    unfolding EventLoop_AddChannel_def
  proof (rule safe_bind [OF safe_on_channel [OF own]], simp, rule safe_with_channel)
    fix w1 c
    assume w1: "owned_but X {} s w1 \<and> nt_conns w1 = nt_conns w \<and> el_poller w1 = el_poller w \<and>
        (\<exists>ch. get_channel h w = Some ch \<and> get_channel h w1 = Some (Channel_set_run_in_loop_flag True ch))"
      and c: "get_channel h w1 = Some c"
    have sorted: "map_sorted (pl_channels_map (el_poller w1))" using w1 by (blast intro: owned_sorted)
    have Y: "?Y = set_option (map_find (pl_channels_map (el_poller w1)) (ch_fd c))"
      using w1 c by (auto simp: registered_def)
    show "safe (\<lambda>w'. owned_but X ?Y s w' \<and> nt_conns w' = nt_conns w)
        (Inr (w1\<lparr>el_poller := EpollPoller_AddChannel h c (el_poller w1)\<rparr>))"
      unfolding Y safe_Inr
    proof
      show "owned_but X (set_option (map_find (pl_channels_map (el_poller w1)) (ch_fd c))) s
          (w1\<lparr>el_poller := EpollPoller_AddChannel h c (el_poller w1)\<rparr>)"
        by (rule owned_table_change)
          (use w1 sorted c in \<open>auto simp: EpollPoller_AddChannel_def EpollPoller_Update_def Let_def
             map_sorted_insert map_of_map_insert split: if_splits\<close>)
    qed (use w1 in simp)
  qed
  then show ?thesis
    unfolding register_channel_def
  proof (rule safe_bind)
    fix w1 assume w1: "owned_but X ?Y s w1 \<and> nt_conns w1 = nt_conns w"
    then show "safe (\<lambda>w'. owned_but X {} s w' \<and> nt_conns w' = nt_conns w) (release_channel (registered h w) w1)"
      using safe_release [of X _ s w1] by (cases "registered h w") (auto simp: release_channel_def)
  qed
qed

section \<open>Owners that go\<close>

lemma safe_collect:
  assumes own: "owned_but {a} {} s w"
  shows "safe (owned s) (collect a w)"
proof (cases "conn_owned a w")
  case True
  then show ?thesis using own by (auto simp: collect_def owned_but_def)
next
  case False
  have "safe (owned s) (TcpConnection_destroy a w)"
    unfolding TcpConnection_destroy_def Let_def
  proof (rule safe_with_conn)
    fix c assume c: "nt_conns w a = Some c"
    let ?w = "w\<lparr>nt_conns := (nt_conns w)(a := None)\<rparr>"
    have ch: "tc_channel c = Suc a" using owned_conn [OF own c] by (simp add: conn_ok_def)
    have eqs: "get_channel k ?w = get_channel k w" "conn_owned b ?w = conn_owned b w" "conn_ok b d ?w = conn_ok b d w"
      "member_channel k ?w = member_channel k w" "channel_owned k ?w = channel_owned k w"
      "nt_stack ?w = nt_stack w" "nt_connection_map ?w = nt_connection_map w" "el_poller ?w = el_poller w"
      "nt_fresh ?w = nt_fresh w" "loops_ok s ?w = loops_ok s w" for k b d
      by (simp_all add: get_channel_def conn_owned_def conn_ok_def member_channel_def channel_owned_def
          loops_ok_cong [of ?w w])
    have has: "conn_has_channel k w \<Longrightarrow> k \<noteq> Suc a \<Longrightarrow> conn_has_channel k ?w" for k
      using c ch by (cases k; cases a) (auto simp: conn_has_channel_def)
    have "a \<notin> set (nt_stack w)" "\<And>n. map_find (nt_connection_map w) n \<noteq> Some a"
      using False owned_sorted(2) [OF own] by (auto simp: conn_owned_def in_values_iff)
    then have own2: "owned_but {} {Suc a} s ?w"
      using own has unfolding owned_but_def eqs by auto
    have "safe (owned s) (if channel_owned (Suc a) ?w then Inr ?w else free_channel (Suc a) ?w)"
    proof (cases "channel_owned (Suc a) ?w")
      case True
      then have "owned s ?w" using own2 by (auto simp: owned_but_def)
      with True show ?thesis by simp
    next
      case False
      moreover have "\<not> conn_has_channel (Suc a) ?w" by (simp add: conn_has_channel_def)
      ultimately show ?thesis using safe_mono [OF safe_free_channel [OF own2]] by simp
    qed
    then show "safe (owned s) (obind (if channel_owned (tc_channel c) ?w then Inr ?w else free_channel (tc_channel c) ?w)
        (\<lambda>w. Inr (Socket_destroy (tc_socket c) w)))"
      unfolding ch by (rule safe_bind) (simp add: Socket_destroy_def)
  qed
  with False show ?thesis by (simp add: collect_def)
qed

text \<open>A pointer on the stack comes and goes.\<close>

lemma owned_hold:
  assumes "owned s w" "nt_conns w a \<noteq> None"
  shows "owned (a # s) (hold a w)"
proof -
  have eqs: "get_channel k (hold a w) = get_channel k w" "conn_ok b d (hold a w) = conn_ok b d w"
    "member_channel k (hold a w) = member_channel k w" "channel_owned k (hold a w) = channel_owned k w"
    "conn_has_channel k (hold a w) = conn_has_channel k w" "nt_conns (hold a w) = nt_conns w"
    "nt_stack (hold a w) = a # nt_stack w" "nt_connection_map (hold a w) = nt_connection_map w"
    "el_poller (hold a w) = el_poller w" "nt_fresh (hold a w) = nt_fresh w"
    "loops_ok (a # s) (hold a w) = loops_ok s w"
    and owned: "conn_owned b w \<Longrightarrow> conn_owned b (hold a w)" for k b d
    by (auto simp: hold_def get_channel_def conn_owned_def conn_ok_def member_channel_def channel_owned_def
        conn_has_channel_def loops_ok_def queued_def parked_ok_def)
  show ?thesis using assms owned unfolding owned_but_def eqs by auto
qed

lemma safe_drop_hold:
  assumes own: "owned (a # s) w"
  shows "safe (owned s) (drop_hold a w)"
proof -
  let ?w = "w\<lparr>nt_stack := remove1 a (nt_stack w)\<rparr>"
  have st: "mset (nt_stack w) = mset (a # s) + queued w" using own by (simp add: owned_but_def loops_ok_def)
  have eqs: "get_channel k ?w = get_channel k w" "conn_ok b d ?w = conn_ok b d w"
    "member_channel k ?w = member_channel k w" "channel_owned k ?w = channel_owned k w"
    "conn_has_channel k ?w = conn_has_channel k w" "nt_conns ?w = nt_conns w"
    "nt_stack ?w = remove1 a (nt_stack w)" "nt_connection_map ?w = nt_connection_map w"
    "el_poller ?w = el_poller w" "nt_fresh ?w = nt_fresh w"
    and owned: "conn_owned b w \<Longrightarrow> b = a \<or> conn_owned b ?w" for k b d
    by (auto simp: get_channel_def conn_owned_def conn_ok_def member_channel_def channel_owned_def
        conn_has_channel_def)
  have "loops_ok s ?w"
    using own st by (simp add: owned_but_def loops_ok_def queued_def parked_ok_def get_channel_def)
  then have "owned_but {a} {} s ?w"
    using own owned notin_set_remove1 [of _ "nt_stack w" a] unfolding owned_but_def eqs by auto
  then show ?thesis using safe_collect by (simp add: drop_hold_def)
qed

text \<open>What is asked of callbacks.\<close>

definition keeps_owned :: "(conn_cb \<Rightarrow> nat \<Rightarrow> net \<Rightarrow> net outcome) \<Rightarrow> bool" where
  "keeps_owned cbs \<longleftrightarrow> (\<forall>cb a s w. owned s w \<longrightarrow> nt_conns w a \<noteq> None \<longrightarrow> safe (owned s) (cbs cb a w))"

text \<open>On a live connection \<open>shared_from_this\<close> succeeds.\<close>

lemma safe_shared_call:
  assumes "keeps_owned cbs" "owned s w" "nt_conns w a \<noteq> None"
  shows "safe (owned s) (shared_call cbs cb a w)"
proof -
  have "conn_owned a w" using assms(2,3) by (rule owned_conn_owned) simp
  moreover have "safe (owned s) (obind (cbs f a (hold a w)) (drop_hold a))" for f
    using assms(1,3) owned_hold [OF assms(2,3)]
    by (intro safe_bind [where Q = "owned (a # s)"]) (auto simp: keeps_owned_def safe_drop_hold hold_def)
  ultimately show ?thesis by (auto simp: shared_call_def split: option.split)
qed

section \<open>Loops of other threads\<close>

text \<open>Which thread looks at the world makes no difference to who owns what.\<close>

lemma exchange_fields:
  assumes "i < length (nt_loops w)" "nt_loops w ! i = (l, q)"
  shows "el_poller (exchange i w) = el_poller l" "el_wakeup_channel (exchange i w) = el_wakeup_channel l"
    "el_timer_channel (exchange i w) = el_timer_channel l" "el_pending_functors (exchange i w) = el_pending_functors l"
    "el_thread_id (exchange i w) = el_thread_id l"
    "nt_loops (exchange i w) = (nt_loops w)[i := (park w, nt_request w)]"
  using assms by (simp_all add: exchange_def event_loop.defs)

lemma exchange_same [simp]:
  "nt_conns (exchange i w) = nt_conns w" "nt_connection_map (exchange i w) = nt_connection_map w"
  "nt_stack (exchange i w) = nt_stack w" "nt_fresh (exchange i w) = nt_fresh w" "nt_server (exchange i w) = nt_server w"
  "nt_acceptor (exchange i w) = nt_acceptor w" "get_channel h (exchange i w) = get_channel h w"
  "el_channels (exchange i w) = el_channels w" "length (nt_loops (exchange i w)) = length (nt_loops w)"
  "conn_ok a c (exchange i w) = conn_ok a c w" "conn_owned a (exchange i w) = conn_owned a w"
  "conn_has_channel h (exchange i w) = conn_has_channel h w" "parked_ok k (exchange i w) = parked_ok k w"
  by (cases w; simp add: exchange_def event_loop.defs get_channel_def conn_ok_def conn_owned_def conn_has_channel_def
      parked_ok_def split_beta)+

lemma park_fields [simp]:
  "el_poller (park w) = el_poller w" "el_wakeup_channel (park w) = el_wakeup_channel w"
  "el_timer_channel (park w) = el_timer_channel w" "el_pending_functors (park w) = el_pending_functors w"
  "el_thread_id (park w) = el_thread_id w"
  by (simp_all add: park_def event_loop.defs)

lemma channel_owned_iff:
  "channel_owned h w \<longleftrightarrow> ac_channel (nt_acceptor w) = h \<or> loop_owns h (park w) \<or> other_loop_owns h (nt_loops w)"
  by (auto simp: channel_owned_def loop_owns_def)

lemma set_swapped: "i < length xs \<Longrightarrow> x \<in> set xs \<Longrightarrow> x = xs ! i \<or> x \<in> set (xs[i := y])"
  by (metis in_set_conv_nth length_list_update nth_list_update_neq)

lemma owned_exchange:
  assumes own: "owned_but X Y s w"
  shows "owned_but X Y s (exchange i w)"
proof (cases "i < length (nt_loops w)")
  case i: True
  obtain l q where l: "nt_loops w ! i = (l, q)" by fastforce
  note f = exchange_fields [OF i l]
  have "(l, q) \<in> set (nt_loops w)" using i l by (metis nth_mem)
  then have pl: "parked_ok l w" using own by (auto simp: owned_but_def loops_ok_def)
  have "parked_ok (park w) w" using own by (auto simp: owned_but_def parked_ok_def member_channel_def)
  then have "\<forall>x \<in> set (nt_loops (exchange i w)). parked_ok (fst x) (exchange i w)"
    using own by (auto simp: f owned_but_def loops_ok_def dest!: set_update_subset_insert [THEN subsetD])
  moreover have "queued (exchange i w) = queued w"
  proof -
    obtain M where "mset (nt_loops w) = add_mset (l, q) M"
      using i l by (metis mset_add nth_mem_mset)
    then show ?thesis using i l by (simp add: queued_def f mset_update)
  qed
  ultimately have loops: "loops_ok s (exchange i w)"
    using own by (simp add: owned_but_def loops_ok_def)
  have chans: "channel_owned h (exchange i w)" if "channel_owned h w" for h
  proof -
    have "loop_owns h (park (exchange i w)) = loop_owns h l" by (simp add: loop_owns_def f)
    moreover have "(park w, nt_request w) \<in> set (nt_loops (exchange i w))" using i by (simp add: f set_update_memI)
    moreover have "x = (l, q) \<or> x \<in> set (nt_loops (exchange i w))" if "x \<in> set (nt_loops w)" for x
      using set_swapped [OF i that] by (simp add: f l)
    ultimately show ?thesis
      using that unfolding channel_owned_iff other_loop_owns_def by fastforce
  qed
  have member: "get_channel h w \<noteq> None" if "member_channel h (exchange i w)" for h
    using that own pl by (auto simp: member_channel_def f parked_ok_def owned_but_def)
  show ?thesis
    using own loops chans member pl unfolding owned_but_def f exchange_same
    by (auto simp: parked_ok_def)
qed (use own in \<open>simp add: exchange_def\<close>)

lemma safe_on_loop:
  assumes own: "owned_but X Y s w" "nt_conns w = C"
    and g: "\<And>v. owned_but X Y s v \<Longrightarrow> nt_conns v = C \<Longrightarrow>
      safe (\<lambda>w'. owned_but X' Y' s' w' \<and> nt_conns w' = C') (g v)"
  shows "safe (\<lambda>w'. owned_but X' Y' s' w' \<and> nt_conns w' = C') (on_loop l g w)"
  using own by (auto simp: on_loop_def g owned_exchange split: option.split intro!: safe_bind [OF g])

text \<open>A functor for another loop is queued, and what it has captured is held from then on.\<close>

lemma functor_conns_cases: "bound_conns f = [] \<or> (\<exists>a. bound_conns f = [a])"
  by (cases f) simp_all

lemma owned_hold_bound:
  assumes "owned s w" "\<forall>a \<in> set (bound_conns f). nt_conns w a \<noteq> None"
  shows "owned (bound_conns f @ s) (fold hold (bound_conns f) w)"
  using functor_conns_cases [of f] assms owned_hold by auto

lemma owned_queue:
  assumes own: "owned (bound_conns f @ s) w"
  shows "owned s (EventLoop_QueueInLoop tid f w)"
proof -
  let ?q = "\<lambda>w. EventLoop_QueueInLoop tid f w"
  have q: "nt_stack (?q v) = nt_stack v" "nt_connection_map (?q v) = nt_connection_map v" "el_poller (?q v) = el_poller v"
    "nt_conns (?q v) = nt_conns v" "nt_fresh (?q v) = nt_fresh v" "nt_loops (?q v) = nt_loops v"
    "get_channel h (?q v) = get_channel h v" "conn_owned a (?q v) = conn_owned a v" "conn_ok a c (?q v) = conn_ok a c v"
    "channel_owned h (?q v) = channel_owned h v" "member_channel h (?q v) = member_channel h v"
    "conn_has_channel h (?q v) = conn_has_channel h v" "parked_ok k (?q v) = parked_ok k v"
    "el_pending_functors (?q v) = el_pending_functors v @ [f]" for v :: net and h a c k
    by (simp_all add: EventLoop_QueueInLoop_def EventLoop_push_functor_def EventLoop_Wakeup_def Let_def get_channel_def
        conn_owned_def conn_ok_def channel_owned_def member_channel_def conn_has_channel_def parked_ok_def)
  have "loops_ok s (?q w) = loops_ok (bound_conns f @ s) w"
    by (simp add: loops_ok_def queued_def q ac_simps)
  then show ?thesis using own unfolding owned_but_def q by simp
qed

lemma loop_slot_Some:
  "loop_slot l xs = Some i \<Longrightarrow> i < length xs \<and> el_thread_id (fst (xs ! i)) = l"
  by (induction xs arbitrary: i) (auto split: if_splits)

lemma fold_hold_bound [simp]:
  "el_thread_id (fold hold as w) = el_thread_id w" "nt_loops (fold hold as w) = nt_loops w"
  "nt_conns (fold hold as w) = nt_conns w"
  by (induction as arbitrary: w) (simp_all add: hold_def)

text \<open>\<open>RunInLoop\<close> from another thread queues.\<close>

lemma run_in_loop_other:
  assumes "l \<noteq> el_thread_id w"
  shows "run_in_loop run l f w = (case loop_slot l (nt_loops w) of None \<Rightarrow> Inl BadAccess
     | Some i \<Rightarrow> Inr (exchange i (EventLoop_QueueInLoop (el_thread_id w) f
         (exchange i (fold hold (bound_conns f) w)))))"
proof (cases "loop_slot l (nt_loops w)")
  case (Some i)
  let ?v = "fold hold (bound_conns f) w"
  obtain k q where k: "nt_loops w ! i = (k, q)" by fastforce
  with loop_slot_Some [OF Some] have "i < length (nt_loops ?v)" "nt_loops ?v ! i = (k, q)" "el_thread_id k = l" by simp_all
  then have "el_thread_id (exchange i ?v) = l" by (simp add: exchange_fields)
  with assms Some show ?thesis
    by (simp add: run_in_loop_def on_loop_def EventLoop_RunInLoop_def EventLoop_isLoopThread_def)
qed (use assms in \<open>simp add: run_in_loop_def on_loop_def\<close>)

lemma safe_run_in_loop:
  assumes run: "owned s w \<Longrightarrow> safe (owned s) (run f w)" and own: "owned s w"
    and live: "\<forall>a \<in> set (bound_conns f). nt_conns w a \<noteq> None"
  shows "safe (owned s) (run_in_loop run l f w)"
proof (cases "l = el_thread_id w")
  case False
  then show ?thesis
    using owned_hold_bound [OF own live]
    by (auto simp: run_in_loop_other owned_exchange owned_queue split: option.split)
qed (use run own in simp)

text \<open>The functors that are taken out are on the stack until they are destroyed.\<close>

lemma owned_take:
  assumes own: "owned s w"
  shows "owned (functor_conns (el_pending_functors w) @ s) (EventLoop_take_functors w)"
proof -
  let ?q = "\<lambda>w. EventLoop_take_functors w"
  have q: "nt_stack (?q v) = nt_stack v" "nt_connection_map (?q v) = nt_connection_map v" "el_poller (?q v) = el_poller v"
    "nt_conns (?q v) = nt_conns v" "nt_fresh (?q v) = nt_fresh v" "nt_loops (?q v) = nt_loops v"
    "get_channel h (?q v) = get_channel h v" "conn_owned a (?q v) = conn_owned a v" "conn_ok a c (?q v) = conn_ok a c v"
    "channel_owned h (?q v) = channel_owned h v" "member_channel h (?q v) = member_channel h v"
    "conn_has_channel h (?q v) = conn_has_channel h v" "parked_ok k (?q v) = parked_ok k v"
    "el_pending_functors (?q v) = []" for v :: net and h a c k
    by (simp_all add: EventLoop_take_functors_def get_channel_def
        conn_owned_def conn_ok_def channel_owned_def member_channel_def conn_has_channel_def parked_ok_def)
  have "loops_ok (functor_conns (el_pending_functors w) @ s) (?q w) = loops_ok s w"
    by (simp add: loops_ok_def queued_def q ac_simps)
  then show ?thesis using own unfolding owned_but_def q by simp
qed

lemma safe_drops: "owned (as @ s) w \<Longrightarrow> safe (owned s) (run_seq drop_hold as w)"
  by (induction as arbitrary: w) (auto intro!: safe_bind [OF safe_drop_hold])

section \<open>Connections\<close>

lemma safely_buffers:
  "safely (Buffer_Append data len b)" "safely (Buffer_ReadFd rd b)" "safely (Buffer_WriteFd k b)"
  "safely (Buffer_ReadByLine b)" "safely (Buffer_new n)"
proof -
  have store: "safely (store_block pos (xs :: char list) d)" and resize: "safely (vector_resize n d)" for pos xs d n
    by (simp_all add: store_block_def vector_resize_def)
  show append: "safely (Buffer_Append data len b)" for data len b
    unfolding Buffer_Append_def
    by (intro safe_bind [where Q = "\<lambda>_. True"] safe_check) (auto simp: store resize intro!: safe_bind [OF resize])
  show "safely (Buffer_ReadFd rd b)"
    by (auto simp: Buffer_ReadFd_def Let_def split: option.split intro!: safe_bind [OF store] safe_bind [OF append])
  show "safely (Buffer_WriteFd k b)" "safely (Buffer_ReadByLine b)" "safely (Buffer_new n)"
    by (auto simp: Buffer_WriteFd_def Buffer_ReadByLine_def Buffer_new_def Let_def intro!: safe_check)
qed

text \<open>Reading an input of the world changes nothing that is owned.\<close>

lemma owned_next:
  "owned_but X Y s (snd (next_readv w)) = owned_but X Y s w" "nt_conns (snd (next_readv w)) = nt_conns w"
  "owned_but X Y s (snd (next_write w)) = owned_but X Y s w" "nt_conns (snd (next_write w)) = nt_conns w"
  "owned_but X Y s (snd (next_send w)) = owned_but X Y s w" "nt_conns (snd (next_send w)) = nt_conns w"
  "owned_but X Y s (snd (next_accept w)) = owned_but X Y s w"
  "owned_but X Y s (snd (next_open w)) = owned_but X Y s w"
  by (simp_all add: next_simps split: list.split)

lemma safe_Send:
  assumes own: "owned s w"
  shows "safe (owned s) (TcpConnection_Send a data w)"
  unfolding TcpConnection_Send_def Let_def
proof (rule safe_with_conn)
  fix c assume c: "nt_conns w a = Some c"
  have put: "owned s (put_conn a (c\<lparr>tc_output_buffer := b\<rparr>) w')" if "owned s w'" "nt_conns w' = nt_conns w" for b w'
    by (rule owned_put_conn) (use that c in simp_all)
  have "safe (owned s) (obind (if z then on_channel (tc_channel c) Channel_EnableWriting w1 else Inr w1)
      (\<lambda>w. obind (Buffer_Append d len (tc_output_buffer c)) (\<lambda>b. Inr (put_conn a (c\<lparr>tc_output_buffer := b\<rparr>) w))))"
    if w1: "owned s w1" "nt_conns w1 = nt_conns w" for z d len w1
  proof (rule safe_bind [where Q = "\<lambda>w'. owned s w' \<and> nt_conns w' = nt_conns w"])
    show "safe (\<lambda>w'. owned s w' \<and> nt_conns w' = nt_conns w) (if z then on_channel (tc_channel c) Channel_EnableWriting w1 else Inr w1)"
      using safe_mono [OF safe_on_channel [OF w1(1)]] w1 by auto
  qed (auto intro!: safe_bind [OF safely_buffers(1)] put)
  then show "safe (owned s) (if 0 < Buffer_ReadableBytes (tc_output_buffer c)
      then obind (Buffer_Append data (length data) (tc_output_buffer c)) (\<lambda>b. Inr (put_conn a (c\<lparr>tc_output_buffer := b\<rparr>) w))
      else with_channel get_channel (tc_channel c) w (\<lambda>ch. case next_send w of (n, w) \<Rightarrow>
        if to_size n < length data
        then obind (if Buffer_WriteableBytes (tc_output_buffer c) = 0
              then on_channel (tc_channel c) Channel_EnableWriting (sys (SysSend (ch_fd ch) data n) w)
              else Inr (sys (SysSend (ch_fd ch) data n) w)) (\<lambda>w.
            obind (Buffer_Append (drop (to_size n) data) (sz_sub (length data) (to_size n)) (tc_output_buffer c)) (\<lambda>b.
            Inr (put_conn a (c\<lparr>tc_output_buffer := b\<rparr>) w)))
        else Inr (sys (SysSend (ch_fd ch) data n) w)))"
    using own put
    by (auto simp: split_beta sys_def owned_next intro!: safe_bind [OF safely_buffers(1)] safe_with_channel)
qed

lemma safe_conn_task:
  assumes own: "owned s w"
  shows "safe (owned s) (run_conn_task f w)"
proof -
  have flag: "safe (owned s) (obind (on_channel (tc_channel c) g w) (\<lambda>w. Inr (put_conn a (c\<lparr>tc_read_flag := b\<rparr>) w)))"
    if "nt_conns w a = Some c" "\<And>ch. same_binding ch (g ch)" for a c g b
    by (rule safe_bind [OF safe_on_channel [OF own that(2)]]) (use that in \<open>auto intro: owned_put_conn\<close>)
  show ?thesis
  proof (cases f)
    case (DoShutdown a)
    then show ?thesis using own
      by (auto simp: TcpConnection_ShutdownInLoop_def Socket_ShutdownWrite_def intro!: safe_with_conn safe_with_channel)
  next
    case (DoStartRead a)
    then show ?thesis using own
      by (auto simp: TcpConnection_StartReadInLoop_def intro!: safe_with_conn safe_with_channel flag)
  next
    case (DoStopRead a)
    then show ?thesis using own
      by (auto simp: TcpConnection_StopReadInLoop_def intro!: safe_with_conn safe_with_channel flag)
  qed (use own in \<open>simp_all add: safe_Send TcpConnection_ConnectionDestroyed_def\<close>)
qed

lemma safe_SendInLoop: "owned s w \<Longrightarrow> safe (owned s) (TcpConnection_SendInLoop run_conn_task a data w)"
  by (auto simp: TcpConnection_SendInLoop_def intro!: safe_with_conn safe_check safe_run_in_loop safe_Send)

lemma safe_Shutdown:
  assumes "owned s w"
  shows "safe (owned s) (TcpConnection_Shutdown run_conn_task a w)"
proof -
  have "owned s (put_conn a (TcpConnection_set_state kDisconnecting c) w)" if "nt_conns w a = Some c" for c
    by (rule owned_put_conn [OF assms that]) simp_all
  then show ?thesis
    using assms by (auto simp: TcpConnection_Shutdown_def simp del: connection_setters run_conn_task.simps
        intro!: safe_with_conn safe_run_in_loop safe_conn_task)
qed

section \<open>Handlers\<close>

lemma safe_on_register:
  assumes "owned_but X {} s w" "nt_conns w = C"
  shows "safe (\<lambda>w'. owned_but X {} s w' \<and> nt_conns w' = C) (on_loop l (register_channel h) w)"
  by (rule safe_on_loop [OF assms], drule safe_register) simp

lemma safe_on_unregister:
  assumes "owned_but X {} s w" "nt_conns w = C"
  shows "safe (\<lambda>w'. owned_but X {} s w' \<and> nt_conns w' = C) (on_loop l (unregister_channel h) w)"
  by (rule safe_on_loop [OF assms], drule safe_unregister) simp

lemma safe_on_update:
  assumes "owned_but X Y s w" "nt_conns w = C"
  shows "safe (\<lambda>w'. owned_but X Y s w' \<and> nt_conns w' = C) (on_loop l (EventLoop_UpdateChannel h) w)"
proof (rule safe_on_loop [OF assms])
  fix v assume "owned_but X Y s v" "nt_conns v = C"
  moreover from this have "owned_but X Y s (v\<lparr>el_poller := EpollPoller_UpdateChannel h d (el_poller v)\<rparr>)" for d
    by (subst owned_cong [of _ v]) (simp_all add: EpollPoller_UpdateChannel_def EpollPoller_Update_def)
  ultimately show "safe (\<lambda>w'. owned_but X Y s w' \<and> nt_conns w' = C) (EventLoop_UpdateChannel h v)"
    by (auto simp: EventLoop_UpdateChannel_def intro!: safe_with_channel)
qed

lemma safe_ConnectionEstablished:
  assumes cbs: "keeps_owned cbs" and own: "owned s w"
  shows "safe (owned s) (TcpConnection_ConnectionEstablished cbs a w)"
  unfolding TcpConnection_ConnectionEstablished_def
proof (rule safe_bind [OF safe_on_conn [OF own]], simp, rule safe_with_conn)
  fix w1 c assume w1: "owned s w1 \<and> nt_conns w1 a \<noteq> None"
  show "safe (owned s) (obind (on_channel (tc_channel c) Channel_EnableReading w1) (\<lambda>w.
      obind (on_loop (tc_event_loop c) (register_channel (tc_channel c)) w) (\<lambda>w. shared_call cbs (tc_connection_cb c) a w)))"
  proof (rule safe_bind [OF safe_on_channel [OF conjunct1 [OF w1]]], simp)
    fix w2 assume w2: "owned s w2 \<and> nt_conns w2 = nt_conns w1 \<and> el_poller w2 = el_poller w1 \<and>
        (\<exists>ch. get_channel (tc_channel c) w1 = Some ch \<and> get_channel (tc_channel c) w2 = Some (Channel_EnableReading ch))"
    show "safe (owned s) (obind (on_loop (tc_event_loop c) (register_channel (tc_channel c)) w2)
        (\<lambda>w. shared_call cbs (tc_connection_cb c) a w))"
      by (rule safe_bind [OF safe_on_register]) (use w1 w2 in \<open>auto intro!: safe_shared_call cbs\<close>)
  qed
qed

lemma safe_HandleClose:
  assumes cbs: "keeps_owned cbs" and own: "owned s w"
  shows "safe (owned s) (TcpConnection_HandleClose cbs a w)"
  unfolding TcpConnection_HandleClose_def
proof (rule safe_bind [OF safe_on_conn [OF own]], simp, rule safe_with_conn)
  fix w1 c assume w1: "owned s w1 \<and> nt_conns w1 a \<noteq> None"
  have "safe (\<lambda>w'. owned s w' \<and> nt_conns w' a \<noteq> None)
      (Channel_set_event_handling get_channel put_channel (tc_channel c) False w1)"
    using w1 by (auto simp: Channel_set_event_handling_def put_channel_def [of _ _ "_ :: net"] intro!: safe_with_channel)
      (auto intro: owned_put_channel [unfolded put_channel_def])
  then show "safe (owned s) (obind (Channel_set_event_handling get_channel put_channel (tc_channel c) False w1) (\<lambda>w.
      obind (on_loop (tc_event_loop c) (unregister_channel (tc_channel c)) w) (\<lambda>w. shared_call cbs (tc_close_cb c) a w)))"
    by (rule safe_bind) (auto intro!: safe_bind [OF safe_on_unregister] safe_shared_call cbs)
qed

lemma safe_HandleRead:
  assumes cbs: "keeps_owned cbs" and own: "owned s w"
  shows "safe (owned s) (TcpConnection_HandleRead cbs a w)"
  unfolding TcpConnection_HandleRead_def
proof (intro safe_with_conn safe_with_channel)
  fix c ch assume c: "nt_conns w a = Some c"
  have "owned s (put_conn a (c\<lparr>tc_input_buffer := b\<rparr>) (snd (next_readv w)))" for b
    by (rule owned_put_conn) (use own c in \<open>simp_all add: owned_next\<close>)
  moreover have "nt_conns (put_conn a d v) a \<noteq> None" for d v by (simp add: put_conn_def)
  ultimately show "safe (owned s) (let (rd, w) = next_readv w in obind (Buffer_ReadFd rd (tc_input_buffer c)) (\<lambda>(ret, b).
      let w = put_conn a (c\<lparr>tc_input_buffer := b\<rparr>) w
      in if 0 < ret then obind (shared_call cbs (tc_message_cb c) a w) (TcpConnection_HandleClose cbs a)
         else if ret = 0 then TcpConnection_HandleClose cbs a w else TcpConnection_HandleError cbs a w))"
    by (auto simp: split_beta Let_def HandleError_eq intro!: safe_bind [OF safely_buffers(2)]
        safe_bind [OF safe_shared_call [OF cbs]] safe_HandleClose cbs)
qed

lemma safe_HandleWrite:
  assumes cbs: "keeps_owned cbs" and own: "owned s w"
  shows "safe (owned s) (TcpConnection_HandleWrite cbs a w)"
  unfolding TcpConnection_HandleWrite_def
proof (intro safe_with_conn safe_with_channel safe_check)
  fix c ch assume c: "nt_conns w a = Some c"
  have own1: "owned s (put_conn a (c\<lparr>tc_output_buffer := b\<rparr>) (snd (next_write w)))" for b
    by (rule owned_put_conn) (use own c in \<open>simp_all add: owned_next\<close>)
  have "safe (owned s) (obind (on_channel (tc_channel c) Channel_DisableWritint w1) (\<lambda>w.
      obind (on_loop (tc_event_loop c) (EventLoop_UpdateChannel (tc_channel c)) w) (\<lambda>w. shared_call cbs (tc_write_complete_cb c) a w)))"
    if "owned s w1" "nt_conns w1 a \<noteq> None" for w1
  proof (rule safe_bind [OF safe_on_channel [OF that(1)]], simp)
    fix w2 assume w2: "owned s w2 \<and> nt_conns w2 = nt_conns w1 \<and> el_poller w2 = el_poller w1 \<and>
        (\<exists>ch. get_channel (tc_channel c) w1 = Some ch \<and> get_channel (tc_channel c) w2 = Some (Channel_DisableWritint ch))"
    show "safe (owned s) (obind (on_loop (tc_event_loop c) (EventLoop_UpdateChannel (tc_channel c)) w2)
        (\<lambda>w. shared_call cbs (tc_write_complete_cb c) a w))"
      by (rule safe_bind [OF safe_on_update]) (use w2 that(2) in \<open>auto intro!: safe_shared_call cbs\<close>)
  qed
  moreover have "nt_conns (put_conn a d v) a \<noteq> None" for d v by (simp add: put_conn_def)
  ultimately show "safe (owned s) (let (n, w) = next_write w in obind (Buffer_WriteFd n (tc_output_buffer c)) (\<lambda>(n, b).
      let w = put_conn a (c\<lparr>tc_output_buffer := b\<rparr>) w
      in if 0 < n \<and> Buffer_ReadableBytes b = 0
         then obind (on_channel (tc_channel c) Channel_DisableWritint w) (\<lambda>w.
              obind (on_loop (tc_event_loop c) (EventLoop_UpdateChannel (tc_channel c)) w) (\<lambda>w. shared_call cbs (tc_write_complete_cb c) a w))
         else Inr w))"
    using own1 by (auto simp: split_beta Let_def intro!: safe_bind [OF safely_buffers(3)])
qed simp

section \<open>The server\<close>

text \<open>Changing an entry of the connection table leaves at most the connection of the old entry unowned.\<close>

lemma owned_names_change:
  assumes own: "owned s w" and sorted: "map_sorted m"
    and new: "\<And>n' k. map_find m n' = Some k \<Longrightarrow> map_find (nt_connection_map w) n' = Some k \<or>
      (\<exists>c. nt_conns w k = Some c \<and> tc_name c = n')"
    and old: "\<And>n' k. map_find (nt_connection_map w) n' = Some k \<Longrightarrow>
      map_find m n' = Some k \<or> map_find (nt_connection_map w) n = Some k"
  shows "owned_but (set_option (map_find (nt_connection_map w) n)) {} s (w\<lparr>nt_connection_map := m\<rparr>)"
proof -
  let ?w = "w\<lparr>nt_connection_map := m\<rparr>" and ?X = "set_option (map_find (nt_connection_map w) n)"
  have eqs: "get_channel k ?w = get_channel k w" "channel_owned k ?w = channel_owned k w" "conn_ok b d ?w = conn_ok b d w"
    "member_channel k ?w = member_channel k w" "conn_has_channel k ?w = conn_has_channel k w"
    "nt_stack ?w = nt_stack w" "nt_connection_map ?w = m" "el_poller ?w = el_poller w"
    "nt_conns ?w = nt_conns w" "nt_fresh ?w = nt_fresh w" "loops_ok s ?w = loops_ok s w" for k b d
    by (simp_all add: get_channel_def channel_owned_def conn_ok_def member_channel_def conn_has_channel_def
        loops_ok_cong [of ?w w])
  have names: "\<forall>n a. map_find (nt_connection_map w) n = Some a \<longrightarrow> (\<exists>c. nt_conns w a = Some c \<and> tc_name c = n)"
    using own by (simp add: owned_but_def)
  have "conn_owned k w \<Longrightarrow> k \<in> ?X \<or> conn_owned k ?w" for k
    using old by (auto simp: conn_owned_def in_values_iff [OF sorted] in_values_iff [OF owned_sorted(2) [OF own]])
  then have "\<forall>k. nt_conns w k \<noteq> None \<longrightarrow> k \<in> ?X \<or> conn_owned k ?w"
    using owned_conn_owned [OF own] by blast
  moreover have "\<forall>n' k. map_find m n' = Some k \<longrightarrow> (\<exists>c. nt_conns w k = Some c \<and> tc_name c = n')"
    using new names by blast
  ultimately show ?thesis
    using own sorted unfolding owned_but_def eqs by (elim conjE, intro conjI) assumption+
qed

lemma safe_collect_old:
  assumes "owned_but (set_option old) {} s w"
  shows "safe (owned s) (case old of None \<Rightarrow> Inr w | Some b \<Rightarrow> collect b w)"
  using assms safe_collect by (cases old) auto

lemma safe_RemoveConnectionInLoop:
  assumes own: "owned s w"
  shows "safe (owned s) (TcpServer_RemoveConnectionInLoop a w)"
  unfolding TcpServer_RemoveConnectionInLoop_def Let_def
proof (rule safe_with_conn, rule safe_bind [OF safe_collect_old])
  fix c
  show "owned_but (set_option (map_find (nt_connection_map w) (tc_name c))) {} s
      (w\<lparr>nt_connection_map := map_erase (tc_name c) (nt_connection_map w)\<rparr>)"
    by (rule owned_names_change [OF own])
      (auto simp: map_sorted_erase map_of_map_erase owned_sorted(2) [OF own] split: if_splits)
qed (simp add: TcpConnection_ConnectionDestroyed_def)

text \<open>A new connection, from its constructor to the local \<open>shared_ptr\<close>.\<close>

lemma owned_new_connection:
  assumes own: "owned s w" and a: "a = nt_fresh w"
    and c: "tc_channel c = Suc a" "tc_socket c = sockfd" and ch: "conn_channel a ch" "ch_fd ch = sockfd"
  shows "owned (a # s) (hold a (put_conn a c (put_channel (Suc a) ch (w\<lparr>nt_fresh := Suc (Suc a)\<rparr>))))" (is "owned _ ?w")
proof -
  have eqs: "nt_stack ?w = a # nt_stack w" "nt_connection_map ?w = nt_connection_map w" "el_poller ?w = el_poller w"
    "nt_conns ?w = (nt_conns w)(a \<mapsto> c)" "nt_fresh ?w = Suc (Suc a)"
    "get_channel k ?w = (if k = Suc a then Some ch else get_channel k w)"
    "member_channel k ?w = member_channel k w" "channel_owned k ?w = channel_owned k w"
    "conn_owned b ?w \<longleftrightarrow> b = a \<or> conn_owned b w" for k b
    by (auto simp: hold_def put_conn_def put_channel_def get_channel_def member_channel_def channel_owned_def conn_owned_def)
  have lt: "get_channel k w \<noteq> None \<Longrightarrow> k < a" for k using own a by (auto simp: owned_but_def)
  have ok: "conn_ok b d ?w" if "nt_conns w b = Some d" for b d
  proof -
    have "conn_ok b d w" using own that by (rule owned_conn)
    then show ?thesis unfolding conn_ok_def eqs using a by auto
  qed
  have new: "conn_ok a c ?w" using c ch unfolding conn_ok_def eqs by auto
  have fresh: "nt_conns w a = None" using owned_conn [OF own, of a] a by (cases "nt_conns w a") (auto simp: conn_ok_def)
  then have has: "conn_has_channel k w \<Longrightarrow> conn_has_channel k ?w" "conn_has_channel (Suc a) ?w" for k
    using c(1) by (auto simp: conn_has_channel_def eqs split: option.splits)
  have reg: "\<exists>ch'. (if h = Suc a then Some ch else get_channel h w) = Some ch' \<and> ch_fd ch' = fd"
    if "map_find (pl_channels_map (el_poller w)) fd = Some h" for fd h
    using owned_registered [OF own that] lt [of h] by auto
  have conns: "conn_ok b d ?w" if "((nt_conns w)(a \<mapsto> c)) b = Some d" for b d
    using that ok new by (cases "b = a") auto
  have loops: "loops_ok (a # s) ?w"
  proof -
    let ?v = "put_channel (Suc a) ch w"
    have "loops_ok s ?v"
      by (rule loops_ok_channel [of _ w]) (use own lt [of "Suc a"] in \<open>auto simp: owned_but_def get_channel_def put_channel_def\<close>)
    then show ?thesis
      by (simp add: loops_ok_def queued_def parked_ok_def get_channel_def put_channel_def put_conn_def hold_def)
  qed
  show ?thesis
    unfolding owned_but_def
  proof (intro conjI allI impI ballI)
    show "conn_ok b d ?w" if "nt_conns ?w b = Some d" for b d using that conns by (simp add: eqs)
    show "b \<in> {} \<or> conn_owned b ?w" if "nt_conns ?w b \<noteq> None" for b
      using that owned_conn_owned [OF own, of b] by (auto simp: eqs split: if_splits)
    show "h < nt_fresh ?w" if "get_channel h ?w = Some d" for h d
      using that lt [of h] by (auto simp: eqs split: if_splits)
    show "h \<in> {} \<or> channel_owned h ?w \<or> conn_has_channel h ?w" if "get_channel h ?w \<noteq> None" for h
      using that owned_channel [OF own, of h] has by (auto simp: eqs split: if_splits)
    show "\<exists>d. nt_conns ?w b = Some d \<and> tc_name d = n" if "map_find (nt_connection_map ?w) n = Some b" for n b
      using own that fresh unfolding owned_but_def eqs by (metis fun_upd_other option.distinct(1))
    show "nt_conns ?w b \<noteq> None" if "b \<in> set (nt_stack ?w)" for b
      using own that unfolding owned_but_def eqs by auto
    show "\<exists>d. get_channel h ?w = Some d \<and> ch_fd d = fd" if "map_find (pl_channels_map (el_poller ?w)) fd = Some h" for fd h
      using reg that unfolding eqs by blast
    show "get_channel h ?w \<noteq> None" if "member_channel h ?w" for h
      using own that unfolding owned_but_def eqs by auto
  qed (use own loops in \<open>simp_all add: eqs owned_but_def\<close>)
qed

lemma hold_sys: "hold a (sys c w) = sys c (hold a w)"
  by (simp add: hold_def sys_def)

lemma nt_conns_simps [simp]: "nt_conns (sys c w) = nt_conns w" "nt_conns (put_conn a d w) = (nt_conns w)(a \<mapsto> d)"
  by (simp_all add: sys_def put_conn_def)

lemma safe_TcpConnection_new:
  assumes own: "owned s w"
  shows "safe (\<lambda>(a, w'). owned (a # s) (hold a w') \<and> (\<exists>c. nt_conns w' a = Some c \<and> tc_name c = name))
     (TcpConnection_new junk loop name sockfd local_addr client_addr w)"
  unfolding TcpConnection_new_def Let_def
  by (intro safe_bind [OF safely_buffers(5)])
    (auto simp: Socket_SetKeepAlive_def hold_sys conn_channel_def Channel_new_def
      intro!: owned_new_connection [OF own refl])

lemma safe_HandleConnection:
  assumes own: "owned s w" and run: "\<And>f s w. owned s w \<Longrightarrow> safe (owned s) (run f w)"
  shows "safe (owned s) (TcpServer_HandleConnection run sockfd addr w)"
proof -
  let ?name = "connection_name addr"
  have loop: "safely (EventLoopThreadPool_NextLoop p)" for p :: "nat loop_pool"
    by (auto simp: EventLoopThreadPool_NextLoop_def intro!: safe_check)
  have rest: "safe (owned s)
      (let w = hold a w; old = map_find (nt_connection_map w) ?name;
           w = w\<lparr>nt_connection_map := map_insert ?name a (nt_connection_map w)\<rparr> in
       obind (case old of None \<Rightarrow> Inr w | Some b \<Rightarrow> collect b w) (\<lambda>w.
       obind (on_conn a (g w) w) (\<lambda>w. obind (run_in_loop run l (DoEstablished a) w) (drop_hold a))))"
    if w: "owned (a # s) (hold a w)" "nt_conns w a = Some c" "tc_name c = ?name"
      and g: "\<And>w c. tc_channel (g w c) = tc_channel c \<and> tc_name (g w c) = tc_name c \<and> tc_socket (g w c) = tc_socket c" for a c w g l
    unfolding Let_def
  proof (rule safe_bind [OF safe_collect_old])
    let ?h = "hold a w"
    show "owned_but (set_option (map_find (nt_connection_map ?h) ?name)) {} (a # s)
        (?h\<lparr>nt_connection_map := map_insert ?name a (nt_connection_map ?h)\<rparr>)"
    proof (rule owned_names_change [OF w(1)])
      have "nt_conns ?h a = Some c" using w(2) by (simp add: hold_def)
      then show "map_find (nt_connection_map ?h) n' = Some k \<or> (\<exists>c. nt_conns ?h k = Some c \<and> tc_name c = n')"
        if "map_find (map_insert ?name a (nt_connection_map ?h)) n' = Some k" for n' k
        using that w(3) by (auto simp: map_of_map_insert split: if_splits)
    qed (auto simp: map_of_map_insert map_sorted_insert owned_sorted(2) [OF w(1)])
  next
    fix w1 assume w1: "owned (a # s) w1"
    show "safe (owned s) (obind (on_conn a (g w1) w1) (\<lambda>w. obind (run_in_loop run l (DoEstablished a) w) (drop_hold a)))"
      by (rule safe_bind [OF safe_on_conn [OF w1 g]], simp, rule safe_bind [OF safe_run_in_loop safe_drop_hold])
        (auto intro: run)
  qed
  have server: "owned s (on_server g w)" for g using own by (simp add: on_server_def)
  show ?thesis
    unfolding TcpServer_HandleConnection_def
  proof (rule safe_bind [OF loop], clarify)
    fix io_loop p
    show "safe (owned s) (let w = on_server (\<lambda>s. s\<lparr>ts_pool := p\<rparr>) w; name = connection_name addr in
       obind (TcpConnection_new (nt_junk w) io_loop name sockfd (ts_server_addr (nt_server w)) addr w) (\<lambda>(a, w).
       let w = hold a w; old = map_find (nt_connection_map w) name;
           w = w\<lparr>nt_connection_map := map_insert name a (nt_connection_map w)\<rparr> in
       obind (case old of None \<Rightarrow> Inr w | Some b \<Rightarrow> collect b w) (\<lambda>w.
       obind (on_conn a (\<lambda>c. TcpConnection_set_close_cb (Some ServerRemove)
              (TcpConnection_set_write_complete_cb (ts_write_complete_cb (nt_server w))
              (TcpConnection_set_message_cb (ts_message_cb (nt_server w))
              (TcpConnection_set_connection_cb (ts_connection_cb (nt_server w)) c)))) w) (\<lambda>w.
       obind (run_in_loop run io_loop (DoEstablished a) w) (drop_hold a)))))"
      unfolding Let_def [of "on_server _ _"] Let_def [of "connection_name addr"]
      by (rule safe_bind [OF safe_TcpConnection_new [OF server]], clarify) (rule rest, simp_all)
  qed
qed

lemma safe_run_task:
  assumes "keeps_owned user" "owned s w"
  shows "safe (owned s) (run_task user f w)"
proof (cases f)
  case (DoAddChannel h)
  then show ?thesis using safe_mono [OF safe_register [OF assms(2)]] by simp
qed (use assms safe_conn_task [OF assms(2), of f] in
    \<open>simp_all add: safe_ConnectionEstablished safe_RemoveConnectionInLoop\<close>)

lemma keeps_server_cbs: "keeps_owned user \<Longrightarrow> keeps_owned (server_cbs user)"
  by (auto simp: keeps_owned_def server_cbs_def TcpServer_RemoveConnection_def safe_RemoveConnectionInLoop
      intro!: safe_run_in_loop)

lemma owned_acceptor [simp]:
  "ac_channel acc = ac_channel (nt_acceptor w) \<Longrightarrow> owned_but X Y s (w\<lparr>nt_acceptor := acc\<rparr>) = owned_but X Y s w"
  by (rule owned_cong) simp_all

lemma safe_Acceptor_HandleReadEvent:
  assumes own: "owned s w" and callback: "\<And>fd addr s w. owned s w \<Longrightarrow> safe (owned s) (callback fd addr w)"
  shows "safe (owned s) (Acceptor_HandleReadEvent callback w)"
  using own callback
  by (auto simp: Acceptor_HandleReadEvent_def Let_def split_beta owned_next split: sum.split prod.split)

text \<open>Timers may run any task, and as often as they like.\<close>

lemma safe_timer_loop:
  assumes user: "keeps_owned user"
    and run: "HandleTimerQueue_loop (timer_run (run_task user)) now q w = Some r" and own: "owned s w"
  shows "safe (\<lambda>(q, w). owned s w) r"
  using run own
proof (induction "timer_run (run_task user)" now q w r rule: HandleTimerQueue_loop.raw_induct [rotated, consumes 1])
  case (1 loop now q w r)
  have step: "safe (\<lambda>(q, w). owned s w) (Timer_HandleEvent (timer_run (run_task user)) (hd q) (q, w))"
    using 1(3) safe_run_task [OF user, of s]
    by (auto simp: Timer_HandleEvent_def timer_run_def split: option.split intro!: safe_bind [where Q = "owned s"])
  show ?case
  proof (cases "q \<noteq> [] \<and> tm_expiration (hd q) < now")
    case False
    with 1(2,3) show ?thesis by auto
  next
    case True
    show ?thesis
    proof (cases "Timer_HandleEvent (timer_run (run_task user)) (hd q) (q, w)")
      case (Inl e)
      with 1(2) True have "r = Inl e" by simp
      with step Inl show ?thesis by simp
    next
      case (Inr qw)
      with 1(2) True have "r = Inl BadAccess \<or> loop (timer_run (run_task user)) now (tl (fst qw)) (snd qw) = Some r"
        by (auto split: if_splits)
      with step Inr 1(1) show ?thesis by (cases qw) auto
    qed
  qed
qed

lemma safe_HandleTimerEvent:
  assumes "keeps_owned user" "owned s w" "EventLoop_HandleTimerEvent (run_task user) clock w = Some r"
  shows "safe (owned s) r"
  using assms(2,3) safe_timer_loop [OF assms(1)]
  by (auto simp: EventLoop_HandleTimerEvent_def TimerSchedule_HandleTimerQueue_def split: option.splits
      intro!: safe_bind [where Q = "\<lambda>(q, w). owned s w"])

lemma safe_run_event:
  assumes user: "keeps_owned user" and own: "owned s w"
  shows "safe (owned s) (run_event user f w)"
proof (cases f)
  case OnTimer
  then show ?thesis
    using safe_HandleTimerEvent [OF user own] by (auto split: option.split)
next
  case OnAccept
  then show ?thesis
    using own by (auto intro!: safe_Acceptor_HandleReadEvent safe_HandleConnection safe_run_task [OF user])
qed (use keeps_server_cbs [OF user] own safe_run_task [OF user own, of f] in
    \<open>simp_all add: safe_HandleRead safe_HandleWrite safe_HandleClose HandleError_eq EventLoop_HandleWakeUpEvent_def\<close>)

section \<open>The loop\<close>

lemma safe_set_event_handling:
  assumes "owned s w"
  shows "safe (owned s) (Channel_set_event_handling get_channel put_channel a b w)"
  using assms by (auto simp: Channel_set_event_handling_def intro!: safe_with_channel owned_put_channel)

lemma safe_HandleEvent:
  assumes run: "\<And>f w. owned s w \<Longrightarrow> safe (owned s) (run f w)" and own: "owned s w"
  shows "safe (owned s) (Channel_HandleEvent get_channel put_channel run a w)"
proof -
  have cb: "safe (owned s) (call_back run cb w)" if "owned s w" for cb w
    using that run by (auto simp: call_back_def split: option.split)
  show ?thesis
    unfolding Channel_HandleEvent_def
    by (intro safe_bind [OF safe_set_event_handling [OF own]] safe_with_channel safe_bind [where Q = "owned s"])
      (auto intro!: safe_with_channel cb safe_bind [where Q = "owned s"] safe_set_event_handling)
qed

lemma safe_dispatch:
  "(\<And>f w. owned s w \<Longrightarrow> safe (owned s) (run f w)) \<Longrightarrow> owned s w \<Longrightarrow> safe (owned s) (EventLoop_dispatch run as w)"
proof (induction as arbitrary: w)
  case (Cons a as)
  show ?case
    by (auto intro!: safe_with_channel safe_bind [OF safe_HandleEvent] Cons)
qed simp

lemma safe_run_seq:
  "(\<And>f w. owned s w \<Longrightarrow> safe (owned s) (run f w)) \<Longrightarrow> owned s w \<Longrightarrow> safe (owned s) (run_seq run fs w)"
proof (induction fs arbitrary: w)
  case (Cons f fs)
  show ?case by (auto intro!: safe_bind [OF Cons.prems(1)] Cons)
qed simp

lemma safe_Poll_loop:
  "owned s w \<Longrightarrow> safe (\<lambda>(active, w). owned s w) (EpollPoller_Poll_loop get_channel put_channel evs active w)"
proof (induction evs arbitrary: active w)
  case (Cons e evs)
  then show ?case by (cases e) (auto intro!: safe_with_channel Cons.IH owned_put_channel)
qed simp

lemma safe_handle_events:
  assumes run: "\<And>f w. owned s w \<Longrightarrow> safe (owned s) (run f w)" and own: "owned s w"
  shows "safe (owned s) (EventLoop_handle_events run r w)"
proof -
  let ?w = "w\<lparr>el_active_channel_list := []\<rparr>"
  have own': "owned s ?w" using own by simp
  have poll: "safe (\<lambda>(active, p, w'). owned s w' \<and> pl_channels_map p = pl_channels_map (el_poller w'))
      (EpollPoller_Poll get_channel put_channel r (el_active_channel_list ?w) (el_poller ?w) ?w)"
  proof -
    have "el_poller w' = el_poller v" if "EpollPoller_Poll_loop get_channel put_channel evs active v = Inr (active', w')"
      for evs active active' and v w' :: net
      using that
    proof (induction evs arbitrary: active v)
      case (Cons e evs)
      then show ?case
        by (cases e) (auto simp: with_channel_def put_channel_def split: option.splits)
    qed simp
    with safe_Poll_loop [OF own'] show ?thesis
      by (fastforce simp: EpollPoller_Poll_def safe_def own split: sum.split sum.splits
          elim!: obind.elims)
  qed
  show ?thesis
    unfolding EventLoop_handle_events_def Let_def
  proof (rule safe_bind [OF poll], clarify)
    fix active :: "nat list" and p :: poller and w1 :: net
    assume w1: "owned s w1" "pl_channels_map p = pl_channels_map (el_poller w1)"
    have "owned s (w1\<lparr>el_active_channel_list := active, el_poller := p, el_event_handling_flag := True\<rparr>)"
      using w1 by (subst owned_cong [of _ w1]) simp_all
    then show "safe (owned s) (obind (EventLoop_dispatch run
         (el_active_channel_list (w1\<lparr>el_active_channel_list := active, el_poller := p, el_event_handling_flag := True\<rparr>))
         (w1\<lparr>el_active_channel_list := active, el_poller := p, el_event_handling_flag := True\<rparr>))
        (\<lambda>w. Inr (w\<lparr>el_event_handling_flag := False\<rparr>)))"
      by (intro safe_bind [OF safe_dispatch [OF run]]) auto
  qed
qed

lemma safe_DoPendingFunctors:
  assumes run: "\<And>f s w. owned s w \<Longrightarrow> safe (owned s) (run f w)" and own: "owned s w"
  shows "safe (owned s) (EventLoop_DoPendingFunctors run drop_functors w)"
  unfolding EventLoop_DoPendingFunctors_def Let_def drop_functors_def
  by (rule safe_bind [OF safe_run_seq [OF run owned_take [OF own]] safe_drops])

lemma safe_iteration:
  assumes run: "\<And>f s w. owned s w \<Longrightarrow> safe (owned s) (run f w)" and own: "owned s w"
  shows "safe (owned s) (EventLoop_iteration run drop_functors r w)"
  unfolding EventLoop_iteration_def
  by (rule safe_bind [OF safe_handle_events [OF run own] safe_DoPendingFunctors [OF run]])

lemma safe_Loop_while:
  assumes run: "\<And>f s w. owned s w \<Longrightarrow> safe (owned s) (run f w)"
  shows "owned s w \<Longrightarrow> safe (owned s) (EventLoop_Loop_while run drop_functors rs w)"
proof (induction rs arbitrary: w)
  case Nil
  then show ?case by (subst EventLoop_Loop_while.simps) simp
next
  case (Cons r rs)
  then show ?case
    by (subst EventLoop_Loop_while.simps) (auto intro!: safe_bind [OF safe_iteration [OF run]])
qed

lemma safe_Loop:
  assumes run: "\<And>f s w. owned s w \<Longrightarrow> safe (owned s) (run f w)" and own: "owned s w"
  shows "safe (owned s) (EventLoop_Loop run drop_functors rs w)"
  unfolding EventLoop_Loop_def using own by (intro safe_Loop_while [OF run]) simp_all

section \<open>The programs\<close>

lemma safely_ParseRequest: "safely (HttpRequest_ParseRequest b r)"
proof (induction b r rule: HttpRequest_ParseRequest.induct)
  case (1 b r)
  have line: "safely (HttpRequest_ParseLine b r)" for b r
    by (auto simp: HttpRequest_ParseLine_def Let_def intro!: safe_bind [OF safely_buffers(4)])
  have headers: "safely (HttpRequest_ParseHeaders l q)" for l q
    by (auto simp: HttpRequest_ParseHeaders_def string_substr_def Let_def intro!: safe_check safe_bind [where Q = "\<lambda>_. True"])
  show ?case
  proof (cases "HttpRequest_ParseLine b r")
    case (Inl e)
    with line [of b r] show ?thesis by (subst HttpRequest_ParseRequest.simps) simp
  next
    case (Inr t)
    obtain st b1 r1 where t: "t = (st, b1, r1)" by (cases t)
    show ?thesis
    proof (cases "st = LINE_OK \<and> hr_parse_state r1 = PARSE_HEADER")
      case True
      then show ?thesis
        using Inr t 1(2) [of t st "(b1, r1)" b1 r1] headers [of "hr_line_buf r1" r1]
        by (subst HttpRequest_ParseRequest.simps) (auto split: sum.split)
    next
      case False
      then show ?thesis
        using Inr t 1(1,3) [of t st "(b1, r1)" b1 r1]
        by (subst HttpRequest_ParseRequest.simps) (auto split: line_status.split parse_state.split)
    qed
  qed
qed

lemma keeps_http_user: "keeps_owned http_user"
proof -
  have "safe (owned s) (HttpServer_HandleMessage a w)" if own: "owned s w" for a s w
    unfolding HttpServer_HandleMessage_def Let_def
  proof (rule safe_with_conn, rule safe_bind [OF safely_ParseRequest], clarify)
    fix c code b r assume c: "nt_conns w a = Some c"
    have "owned s (put_conn a (c\<lparr>tc_input_buffer := b\<rparr>) w)" by (rule owned_put_conn [OF own c]) simp_all
    then show "safe (owned s) (TcpConnection_SendInLoop run_conn_task a HttpServer_response
        ((put_conn a (c\<lparr>tc_input_buffer := b\<rparr>) w)\<lparr>nt_request := r\<rparr>))"
      by (intro safe_SendInLoop) simp
  qed
  then show ?thesis
    by (auto simp: keeps_owned_def http_user_def HttpServer_HandleConnection_def split: conn_cb.split)
qed

lemma keeps_echo_user: "keeps_owned echo_user"
  by (auto simp: keeps_owned_def echo_user_def Echo_HandleConnection_def Echo_HandleMessage_def split: conn_cb.split)

section \<open>Properties\<close>


lemma one_live_owned: "owned [] (one_live ev reads)"
proof -
  have "(map_find [(''n'', 10)] m = Some a) = (m = ''n'' \<and> a = (10 :: nat))" for m a by auto
  moreover have "(map_find [(5, 11)] fd = Some h) = (fd = (5 :: int) \<and> h = (11 :: nat))" for fd h by auto
  ultimately show ?thesis
    by (simp add: owned_but_def loops_ok_def queued_def one_live_def conn_ok_def conn_owned_def channel_owned_def conn_has_channel_def
        member_channel_def get_channel_def put_channel_def put_conn_def net_new_def event_loop.defs EventLoop_new_def
        conn10_def conn_channel_def Channel_EnableReading_def Channel_new_def EpollPoller_new_def) auto
qed


end
