(* ===== verification/Set_Up.thy ===== *)
theory Set_Up
  imports Ownership
begin

text \<open>
  Setting a server up: \<open>EventLoop::Init\<close> on a new loop and \<open>TcpServer::Start\<close>, as \<open>main\<close> (main.cc) and every other
  program on the library run them. The lemmas give the state that results and that the owning pointers in it are sound.
\<close>

section \<open>Starting a loop\<close>

definition io_channel :: "int \<Rightarrow> closure \<Rightarrow> closure channel" where
  "io_channel fd f = (Channel_new fd)\<lparr>ch_read_call_back := Some f\<rparr>"

definition wakeup_channel :: "int \<Rightarrow> closure channel" where
  "wakeup_channel fd = (Channel_EnableReading (io_channel fd OnWakeup))\<lparr>ch_run_in_loop_flag := True\<rparr>"

text \<open>The loop of a new thread, with its timer channel at \<open>ta\<close> and its wakeup channel after it.\<close>

definition fresh_loop :: "nat \<Rightarrow> int \<Rightarrow> nat \<Rightarrow> closure event_loop \<Rightarrow> bool" where
  "fresh_loop tid wakeup_fd ta l \<longleftrightarrow> el_thread_id l = tid \<and> el_quit_flag l = False \<and> el_pending_functors l = [] \<and>
     pl_events_size (el_poller l) = 16 \<and> pl_channels_map (el_poller l) = [(wakeup_fd, ta + 1)] \<and>
     el_wakeup_channel l = Some (ta + 1) \<and> el_timer_channel l = Some ta"

lemma Init_effect:
  fixes x :: net
  assumes "el_poller x = EpollPoller_new epollfd" "el_timer_fd x = timer_fd" "el_wakeup_fd x = wakeup_fd"
    and "el_pending_functors x = []" "el_thread_id x = tid"
  shows "\<exists>y. EventLoop_Init None self ta (ta + 1) OnTimer OnWakeup x = Inr (Some self, y) \<and>
     fresh_loop tid wakeup_fd ta (park (y\<lparr>el_loop_flag := True, el_quit_flag := False\<rparr>)) \<and>
     el_channels y = (el_channels x)(ta \<mapsto> io_channel timer_fd OnTimer, ta + 1 \<mapsto> wakeup_channel wakeup_fd) \<and>
     nt_loops y = nt_loops x \<and> nt_request y = nt_request x \<and> event_loop.more y = event_loop.more x \<and>
     el_quit_flag y = el_quit_flag x"
  using assms
  by (simp add: EventLoop_Init_def put_channel_def get_channel_def EventLoop_AddChannel_def on_channel_def with_channel_def
      EpollPoller_AddChannel_def EpollPoller_Update_def EpollPoller_new_def kEventInitSize_def Let_def
      Channel_EnableReading_def Channel_new_def fresh_loop_def io_channel_def wakeup_channel_def)
    (simp add: park_def event_loop.defs)

text \<open>What \<open>Init\<close> makes of the world a program starts in.\<close>

definition loop_made :: "nat \<Rightarrow> int \<Rightarrow> int \<Rightarrow> net \<Rightarrow> net \<Rightarrow> bool" where
  "loop_made tid wakeup_fd timer_fd w0 y \<longleftrightarrow>
     el_channels y = [nt_fresh w0 \<mapsto> io_channel timer_fd OnTimer, nt_fresh w0 + 1 \<mapsto> wakeup_channel wakeup_fd] \<and>
     el_thread_id y = tid \<and> el_pending_functors y = [] \<and> el_quit_flag y = False \<and> pl_events_size (el_poller y) = 16 \<and>
     pl_channels_map (el_poller y) = [(wakeup_fd, nt_fresh w0 + 1)] \<and>
     el_wakeup_channel y = Some (nt_fresh w0 + 1) \<and> el_timer_channel y = Some (nt_fresh w0) \<and>
     nt_fresh y = nt_fresh w0 + 2 \<and> nt_accept y = nt_accept w0 \<and> nt_open y = nt_open w0 \<and> nt_readv y = nt_readv w0 \<and>
     nt_loops y = [] \<and> nt_connection_map y = [] \<and> nt_conns y = Map.empty \<and> nt_stack y = [] \<and>
     nt_request y = HttpRequest_zero \<and> ac_channel (nt_acceptor y) = 0"

lemma Init_new:
  assumes w0: "w0 = net_new (EventLoop_new tid epollfd wakeup_fd timer_fd junk) fresh readvs writes sends accepts opens"
  shows "\<exists>y. EventLoop_Init None 1 fresh (fresh + 1) OnTimer OnWakeup (w0\<lparr>nt_fresh := fresh + 1 + 1\<rparr>) = Inr (Some 1, y) \<and>
     loop_made tid wakeup_fd timer_fd w0 y"
proof -
  define x where "x = w0\<lparr>nt_fresh := fresh + 1 + 1\<rparr>"
  have x: "el_poller x = EpollPoller_new epollfd" "el_timer_fd x = timer_fd" "el_wakeup_fd x = wakeup_fd"
    "el_pending_functors x = []" "el_thread_id x = tid" "el_quit_flag x = False" "nt_fresh x = fresh + 2"
    "nt_accept x = nt_accept w0" "nt_open x = nt_open w0" "nt_readv x = nt_readv w0" "nt_loops x = []"
    "nt_connection_map x = []" "nt_conns x = Map.empty" "nt_stack x = []" "el_channels x = Map.empty"
    "nt_request x = HttpRequest_zero" "ac_channel (nt_acceptor x) = 0" "nt_fresh w0 = fresh"
    by (simp_all add: x_def w0 net_new_def event_loop.defs EventLoop_new_def)
  obtain y where y: "EventLoop_Init None 1 fresh (fresh + 1) OnTimer OnWakeup x = Inr (Some 1, y)"
    "fresh_loop tid wakeup_fd fresh (park (y\<lparr>el_loop_flag := True, el_quit_flag := False\<rparr>))"
    "el_channels y = (el_channels x)(fresh \<mapsto> io_channel timer_fd OnTimer, fresh + 1 \<mapsto> wakeup_channel wakeup_fd)"
    "nt_loops y = nt_loops x" "nt_request y = nt_request x" "event_loop.more y = event_loop.more x" "el_quit_flag y = el_quit_flag x"
    using Init_effect [OF x(1-5), of 1 fresh] by blast
  have more: "nt_fresh y = nt_fresh x" "nt_accept y = nt_accept x" "nt_open y = nt_open x" "nt_readv y = nt_readv x"
    "nt_connection_map y = nt_connection_map x" "nt_conns y = nt_conns x" "nt_stack y = nt_stack x" "nt_acceptor y = nt_acceptor x"
    using y(6) by (cases x; cases y; simp)+
  have "loop_made tid wakeup_fd timer_fd w0 y"
    using y(2) unfolding loop_made_def more x y(3,4,5,7) by (simp add: fresh_loop_def)
  with y(1) show ?thesis unfolding x_def by blast
qed

section \<open>Starting a server\<close>

text \<open>A program: a loop, a server with \<open>n\<close> threads and the application's callbacks, then \<open>Start\<close>.\<close>

definition server_start :: "(conn_cb \<Rightarrow> nat \<Rightarrow> net \<Rightarrow> net outcome) \<Rightarrow> int \<Rightarrow> string \<Rightarrow> sockaddr_in \<Rightarrow> net \<Rightarrow> net outcome" where
  "server_start user n name addr w =
     (let ta = nt_fresh w; wa = ta + 1; w = w\<lparr>nt_fresh := wa + 1\<rparr> in
      obind (EventLoop_Init None 1 ta wa OnTimer OnWakeup w) (\<lambda>(tls, w).
      let w = TcpServer_new addr name w;
          w = TcpServer_SetThreadNum n w;
          w = TcpServer_SetConnectionCallback UserConnection w;
          w = TcpServer_SetMessageCallback UserMessage w
      in TcpServer_Start (run_task user) w))"

lemma SetThreadNum_new: "TcpServer_SetThreadNum 0 (TcpServer_new addr name w) = TcpServer_new addr name w"
  by (cases "nt_open w"; cases "tl (nt_open w)";
      simp add: TcpServer_new_def on_server_def TcpServer_SetThreadNum_def EventLoopThreadPool_set_thread_num_def
        EventLoopThreadPool_new_def Acceptor_new_def next_open_def sys_def Acceptor_set_connection_callback_def put_channel_def Let_def)

lemma main_start_server: "main_start addr w = server_start http_user 0 ''httpserver'' addr w"
  by (simp add: main_start_def server_start_def HttpServer_new_def HttpServer_Start_def SetThreadNum_new Let_def)

definition server_made :: "int \<Rightarrow> net \<Rightarrow> net \<Rightarrow> bool" where
  "server_made accept_fd w v \<longleftrightarrow>
     nt_fresh v = nt_fresh w + 1 \<and> el_thread_id v = el_thread_id w \<and> nt_accept v = nt_accept w \<and> nt_readv v = nt_readv w \<and>
     nt_loops v = nt_loops w \<and> nt_connection_map v = nt_connection_map w \<and> nt_stack v = nt_stack w \<and>
     nt_request v = nt_request w \<and> el_quit_flag v = el_quit_flag w \<and> el_pending_functors v = el_pending_functors w \<and>
     el_wakeup_channel v = el_wakeup_channel w \<and> el_timer_channel v = el_timer_channel w \<and>
     pl_events_size (el_poller v) = pl_events_size (el_poller w) \<and>
     pl_channels_map (el_poller v) = map_insert accept_fd (nt_fresh w) (pl_channels_map (el_poller w)) \<and>
     ac_has_callback (nt_acceptor v) \<and> ac_channel (nt_acceptor v) = nt_fresh w \<and>
     ts_connection_cb (nt_server v) = Some UserConnection \<and> ts_message_cb (nt_server v) = Some UserMessage \<and>
     ts_event_loop (nt_server v) = el_thread_id w \<and> tp_base_loop (ts_pool (nt_server v)) = el_thread_id w \<and>
     tp_start_flag (ts_pool (nt_server v)) \<and> tp_next (ts_pool (nt_server v)) = 0 \<and>
     tp_loops_pool (ts_pool (nt_server v)) = [] \<and>
     (\<exists>ch. get_channel (nt_fresh w) v = Some ch \<and> ch_fd ch = accept_fd \<and> ch_read_call_back ch = Some OnAccept \<and>
       ch_write_call_back ch = None \<and> ch_close_call_back ch = None \<and> ch_error_call_back ch = None)"

lemma Server_Start_run:
  assumes "nt_open w = [idle_fd, accept_fd]" "map_find (pl_channels_map (el_poller w)) accept_fd = None"
  shows "\<exists>v. TcpServer_Start (run_task user) (TcpServer_SetMessageCallback UserMessage
       (TcpServer_SetConnectionCallback UserConnection (TcpServer_SetThreadNum n (TcpServer_new addr name w)))) = Inr v \<and>
     server_made accept_fd w v"
proof -
  define w1 where "w1 = TcpServer_SetMessageCallback UserMessage
       (TcpServer_SetConnectionCallback UserConnection (TcpServer_SetThreadNum n (TcpServer_new addr name w)))"
  have w1: "nt_fresh w1 = nt_fresh w + 1" "el_thread_id w1 = el_thread_id w" "nt_accept w1 = nt_accept w"
    "nt_loops w1 = nt_loops w" "nt_connection_map w1 = nt_connection_map w" "el_quit_flag w1 = el_quit_flag w"
    "el_pending_functors w1 = el_pending_functors w" "el_poller w1 = el_poller w" "ac_has_callback (nt_acceptor w1)"
    "ac_channel (nt_acceptor w1) = nt_fresh w" "ts_connection_cb (nt_server w1) = Some UserConnection"
    "ts_event_loop (nt_server w1) = el_thread_id w" "tp_base_loop (ts_pool (nt_server w1)) = el_thread_id w"
    "ts_message_cb (nt_server w1) = Some UserMessage" "nt_stack w1 = nt_stack w" "nt_readv w1 = nt_readv w" "nt_request w1 = nt_request w"
    "el_wakeup_channel w1 = el_wakeup_channel w" "el_timer_channel w1 = el_timer_channel w" "\<not> ts_thread_init_cb (nt_server w1)"
    "\<not> tp_start_flag (ts_pool (nt_server w1))" "tp_next (ts_pool (nt_server w1)) = 0" "tp_loops_pool (ts_pool (nt_server w1)) = []"
    "get_channel (nt_fresh w) w1 = Some ((Channel_new accept_fd)\<lparr>ch_read_call_back := Some OnAccept\<rparr>)"
    using assms(1)
    by (simp_all add: w1_def TcpServer_new_def on_server_def TcpServer_SetThreadNum_def
      EventLoopThreadPool_set_thread_num_def EventLoopThreadPool_new_def Acceptor_new_def next_open_def sys_def
      Acceptor_set_connection_callback_def TcpServer_SetConnectionCallback_def TcpServer_SetMessageCallback_def
      Let_def put_channel_def get_channel_def)
  then show ?thesis
    unfolding w1_def [symmetric] using assms(2)
    by (simp add: server_made_def TcpServer_Start_def Acceptor_Bind_def Acceptor_Listen_def EventLoopThreadPool_Start_def sys_def
      on_channel_def with_channel_def put_channel_def get_channel_def register_channel_def registered_def release_channel_def
      EventLoop_AddChannel_def EpollPoller_AddChannel_def EpollPoller_Update_def on_server_def Let_def
      Channel_EnableReading_def Channel_new_def)
qed

lemma server_start_run:
  assumes "wakeup_fd \<noteq> accept_fd"
    and w0: "w0 = net_new (EventLoop_new tid epollfd wakeup_fd timer_fd junk) fresh readvs writes sends accepts [idle_fd, accept_fd]"
  shows "\<exists>y w. server_start user n name addr w0 = Inr w \<and> loop_made tid wakeup_fd timer_fd w0 y \<and> server_made accept_fd y w"
proof -
  obtain y where y: "EventLoop_Init None 1 fresh (fresh + 1) OnTimer OnWakeup (w0\<lparr>nt_fresh := fresh + 1 + 1\<rparr>) = Inr (Some 1, y)"
    "loop_made tid wakeup_fd timer_fd w0 y" using Init_new [OF w0] by blast
  have w0s: "nt_fresh w0 = fresh" "nt_open w0 = [idle_fd, accept_fd]" by (simp_all add: w0 net_new_def event_loop.defs)
  have "nt_open y = [idle_fd, accept_fd]" "map_find (pl_channels_map (el_poller y)) accept_fd = None"
    using y(2) assms(1) by (simp_all add: loop_made_def w0s)
  from Server_Start_run [OF this, of user n addr name] y show ?thesis
    by (auto simp: server_start_def w0s Let_def)
qed

section \<open>Ownership\<close>

lemma owned_acceptor_new:
  assumes own: "owned s w" and null: "ac_channel (nt_acceptor w) = 0" "get_channel 0 w = None"
  shows "owned s (Acceptor_new addr w)"
proof -
  define v where "v = Acceptor_new addr w"
  let ?h = "nt_fresh w"
  define c where "c = the (el_channels v ?h)"
  have fields: "el_channels v = (el_channels w)(?h \<mapsto> c)" "nt_fresh v = ?h + 1" "ac_channel (nt_acceptor v) = ?h"
    "nt_stack v = nt_stack w" "nt_connection_map v = nt_connection_map w" "el_poller v = el_poller w" "nt_conns v = nt_conns w"
    "el_wakeup_channel v = el_wakeup_channel w" "el_timer_channel v = el_timer_channel w" "nt_loops v = nt_loops w"
    "el_pending_functors v = el_pending_functors w"
    by (cases "nt_open w"; cases "tl (nt_open w)";
        simp add: c_def v_def Acceptor_new_def next_open_def sys_def put_channel_def Let_def)+
  have ch: "get_channel k v = (if k = ?h then Some c else get_channel k w)" for k
    by (simp add: get_channel_def fields)
  have lt: "get_channel k w \<noteq> None \<Longrightarrow> k < ?h" for k using own by (auto simp: owned_but_def)
  have old: "get_channel k v = get_channel k w" if "get_channel k w \<noteq> None" for k using lt [OF that] by (simp add: ch)
  have owners: "channel_owned ?h v" "channel_owned k w \<Longrightarrow> k \<noteq> 0 \<Longrightarrow> channel_owned k v" for k
    using null by (auto simp: channel_owned_def fields)
  have conn: "conn_ok a c v" if "nt_conns w a = Some c" for a c
    using owned_conn [OF own that] old [of "Suc a"] by (auto simp: conn_ok_def fields)
  have loops: "loops_ok s v"
    by (rule loops_ok_channel [of _ w]) (use own old in \<open>auto simp: owned_but_def fields\<close>)
  have same: "conn_owned a v = conn_owned a w" "conn_has_channel k v = conn_has_channel k w" for a k
    by (simp_all add: conn_owned_def conn_has_channel_def fields)
  have "owned s v"
    unfolding owned_but_def same
  proof (intro conjI allI impI ballI)
    show "h < nt_fresh v" if "get_channel h v = Some d" for h d
      using that lt [of h] by (auto simp: ch fields split: if_splits)
    show "h \<in> {} \<or> channel_owned h v \<or> conn_has_channel h w" if "get_channel h v \<noteq> None" for h
      using that owned_channel [OF own, of h] owners null by (cases "h = ?h"; cases "h = 0") (auto simp: ch)
    show "\<exists>c. get_channel h v = Some c \<and> ch_fd c = fd" if "map_find (pl_channels_map (el_poller v)) fd = Some h" for fd h
      using owned_registered [OF own, of fd h] that old [of h] by (auto simp: fields)
    show "get_channel h v \<noteq> None" if "member_channel h v" for h
      using own that old [of h] by (auto simp: owned_but_def member_channel_def fields ch)
  qed (use own loops conn in \<open>auto simp: owned_but_def fields\<close>)
  then show ?thesis by (simp add: v_def)
qed

lemma safe_Server_Start:
  assumes own: "owned s w" and null: "ac_channel (nt_acceptor w) = 0" "get_channel 0 w = None" and user: "keeps_owned user"
  shows "safe (owned s) (TcpServer_Start (run_task user) (TcpServer_SetMessageCallback UserMessage
       (TcpServer_SetConnectionCallback UserConnection (TcpServer_SetThreadNum n (TcpServer_new addr name w)))))"
proof -
  have server: "owned s (on_server g v) = owned s v" for g v by (simp add: on_server_def)
  have "owned s (Acceptor_new a (on_server g w))" for a g
    by (rule owned_acceptor_new) (use null in \<open>simp_all add: server own\<close>, simp_all add: on_server_def get_channel_def)
  then have "owned s (Acceptor_new a (on_server f (on_server g w)))" for a f g
    by (simp add: on_server_def)
  then have "owned s (TcpServer_new addr name w)"
    unfolding TcpServer_new_def Let_def TcpServer_SetThreadNum_def Acceptor_set_connection_callback_def by simp
  then have "owned s (TcpServer_SetMessageCallback UserMessage
       (TcpServer_SetConnectionCallback UserConnection (TcpServer_SetThreadNum n (TcpServer_new addr name w))))" (is "owned s ?w")
    by (simp add: server TcpServer_SetThreadNum_def TcpServer_SetConnectionCallback_def TcpServer_SetMessageCallback_def)
  moreover have "safe (owned s) (TcpServer_Start (run_task user) v)" if v: "owned s v" for v
  proof -
    have "owned s (Acceptor_Bind v)" using v by (simp add: Acceptor_Bind_def)
    then have "safe (owned s) (Acceptor_Listen (Acceptor_Bind v))"
      unfolding Acceptor_Listen_def Let_def by (intro safe_bind [OF safe_on_channel]) auto
    moreover have "safely (EventLoopThreadPool_Start b q)" for b and q :: "nat loop_pool"
      by (auto simp: EventLoopThreadPool_Start_def Let_def intro!: safe_check)
    moreover have "safe (owned s) (run_in_loop (run_task user) l (DoAddChannel h) u)" if "owned s u" for l h u
      using that by (intro safe_run_in_loop safe_run_task [OF user]) auto
    ultimately show ?thesis
      unfolding TcpServer_Start_def Let_def
      by (intro safe_bind [where Q = "owned s"] safe_bind [where Q = "\<lambda>_. True"]) (auto simp: server)
  qed
  ultimately show ?thesis by blast
qed

text \<open>What is set up is well-formed, whatever descriptors the system hands out.\<close>

lemma safe_server_start:
  assumes "0 < fresh" and user: "keeps_owned user"
    and w0: "w0 = net_new (EventLoop_new tid epollfd wakeup_fd timer_fd junk) fresh readvs writes sends accepts opens"
  shows "safe (owned []) (server_start user n name addr w0)"
proof -
  obtain y where y: "EventLoop_Init None 1 fresh (fresh + 1) OnTimer OnWakeup (w0\<lparr>nt_fresh := fresh + 1 + 1\<rparr>) = Inr (Some 1, y)"
    "loop_made tid wakeup_fd timer_fd w0 y" using Init_new [OF w0] by blast
  have w0s: "nt_fresh w0 = fresh" by (simp add: w0 net_new_def event_loop.defs)
  note l = y(2) [unfolded loop_made_def w0s]
  have "ch_fd (wakeup_channel wakeup_fd) = wakeup_fd"
    by (simp add: wakeup_channel_def io_channel_def Channel_EnableReading_def Channel_new_def)
  then have "owned [] y"
    using assms(1) l by (auto simp: owned_but_def loops_ok_def queued_def member_channel_def get_channel_def channel_owned_def
        map_sorted_def)
  moreover have "get_channel 0 y = None" using assms(1) l by (simp add: get_channel_def)
  ultimately have "safe (owned []) (TcpServer_Start (run_task user) (TcpServer_SetMessageCallback UserMessage
       (TcpServer_SetConnectionCallback UserConnection (TcpServer_SetThreadNum n (TcpServer_new addr name y)))))"
    using l by (intro safe_Server_Start user) simp_all
  with y(1) show ?thesis by (simp add: server_start_def w0s Let_def)
qed

end
