(* ===== verification/Main_Run.thy ===== *)
theory Main_Run
  imports Set_Up
begin

text \<open>
  Runs of \<open>main\<close> (main.cc): the state it has set up when it enters the loop, and what an iteration does
  that finds a client waiting at the listening socket. The properties of the whole program rest on these.
\<close>

section \<open>Setting up\<close>

text \<open>What \<open>main\<close> has set up when it enters the loop.\<close>

definition started :: "net \<Rightarrow> int \<Rightarrow> int \<Rightarrow> net \<Rightarrow> bool" where
  "started w0 wakeup_fd accept_fd w \<longleftrightarrow> server_ready w \<and> nt_fresh w = nt_fresh w0 + 3 \<and>
     nt_connection_map w = [] \<and> nt_stack w = [] \<and> el_pending_functors w = [] \<and>
     nt_request w = HttpRequest_zero \<and> ts_message_cb (nt_server w) = Some UserMessage \<and>
     nt_readv w = nt_readv w0 \<and> nt_accept w = nt_accept w0 \<and>
     map_find (pl_channels_map (el_poller w)) = [wakeup_fd \<mapsto> nt_fresh w0 + 1, accept_fd \<mapsto> nt_fresh w0 + 2] \<and>
     16 \<le> pl_events_size (el_poller w) \<and>
     ac_has_callback (nt_acceptor w) \<and>
     (\<exists>ch. get_channel (nt_fresh w0 + 2) w = Some ch \<and> ch_fd ch = accept_fd \<and>
       ch_read_call_back ch = Some OnAccept \<and> ch_write_call_back ch = None \<and>
       ch_close_call_back ch = None \<and> ch_error_call_back ch = None)"

lemma main_start_run:
  assumes "0 < fresh" "wakeup_fd \<noteq> accept_fd"
    and w0: "w0 = net_new (EventLoop_new tid epollfd wakeup_fd timer_fd junk) fresh readvs writes sends accepts [idle_fd, accept_fd]"
  shows "\<exists>w. main_start addr w0 = Inr w \<and> started w0 wakeup_fd accept_fd w"
proof -
  obtain y w where w: "server_start http_user 0 ''httpserver'' addr w0 = Inr w" "loop_made tid wakeup_fd timer_fd w0 y"
    "server_made accept_fd y w" using server_start_run [OF assms(2) w0, of http_user 0 "''httpserver''" addr] by blast
  note l = w(2) [unfolded loop_made_def] and s = w(3) [unfolded server_made_def]
  have table: "map_find (pl_channels_map (el_poller w)) = [wakeup_fd \<mapsto> nt_fresh w0 + 1, accept_fd \<mapsto> nt_fresh w0 + 2]"
    "map_sorted (pl_channels_map (el_poller w))"
    using l s by (simp_all add: map_of_map_insert map_sorted_insert fun_eq_iff map_sorted_def)
  then have "server_ready w"
    using l s by (auto simp: server_ready_def map_sorted_def split: if_splits)
  with l s table(1) have "started w0 wakeup_fd accept_fd w" by (auto simp: started_def)
  with w(1) show ?thesis by (simp add: main_start_server)
qed

section \<open>Accepting\<close>

text \<open>An event on the listening socket.\<close>

lemma accept_event:
  assumes ready: "server_ready w" and h: "get_channel h w = Some ch" "h < nt_fresh w"
    and ch: "ch_trigger_events ch = EPOLLIN" "ch_read_call_back ch = Some OnAccept"
    and acc: "ac_has_callback (nt_acceptor w)" "nt_accept w = Inr (fd, addr) # rest"
    and name: "map_find (nt_connection_map w) (connection_name addr) = None"
    and free: "map_find (pl_channels_map (el_poller w)) fd = None"
    and user: "\<And>a w. user UserConnection a w = Inr w"
  shows "\<exists>w2 w3. Channel_HandleEvent get_channel put_channel (run_event user) h w =
      Inr (put_channel h (ch\<lparr>ch_event_handling := False\<rparr>) w3) \<and>
     w2 = sys (SysAccept fd) (put_channel h (ch\<lparr>ch_event_handling := True\<rparr>) w\<lparr>nt_accept := rest\<rparr>) \<and>
     server_ready w2 \<and> connect_effect fd addr w2 w3 \<and>
     nt_conns w3 = (nt_conns w2)(nt_fresh w2 \<mapsto> new_conn fd addr w2)"
proof -
  let ?w1 = "put_channel h (ch\<lparr>ch_event_handling := True\<rparr>) w"
  define w2 where "w2 = sys (SysAccept fd) (?w1\<lparr>nt_accept := rest\<rparr>)"
  have ready2: "server_ready w2" using ready by (simp add: server_ready_def w2_def sys_def put_channel_def)
  have name2: "map_find (nt_connection_map w2) (connection_name addr) = None"
    and free2: "map_find (pl_channels_map (el_poller w2)) fd = None"
    using name free by (simp_all add: w2_def sys_def put_channel_def)
  obtain w3 where w3: "TcpServer_HandleConnection (run_task user) fd addr w2 = Inr w3" "connect_effect fd addr w2 w3"
    "nt_conns w3 = (nt_conns w2)(nt_fresh w2 \<mapsto> new_conn fd addr w2)"
    using HandleConnection_fresh [where user = user, OF ready2 name2 free2 user] by blast
  have acc1: "nt_accept ?w1 = Inr (fd, addr) # rest" "ac_has_callback (nt_acceptor w2)"
    using acc by (simp_all add: put_channel_def w2_def sys_def)
  have run: "run_event user OnAccept ?w1 = Inr w3"
    using acc1 w3(1) by (simp add: Acceptor_HandleReadEvent_def next_accept_def accepted_fd_def Let_def flip: w2_def)
  have get1: "get_channel h ?w1 = Some (ch\<lparr>ch_event_handling := True\<rparr>)"
    by (simp add: get_channel_def put_channel_def)
  have "h \<noteq> nt_fresh w2 + 1" using h(2) by (simp add: w2_def sys_def put_channel_def)
  then have get3: "get_channel h w3 = Some (ch\<lparr>ch_event_handling := True\<rparr>)"
    using w3(2) by (simp add: connect_effect_def get_channel_def w2_def sys_def put_channel_def)
  have "Channel_HandleEvent get_channel put_channel (run_event user) h w =
      Inr (put_channel h (ch\<lparr>ch_event_handling := False\<rparr>) w3)"
    using h(1) get1 get3 ch run
    by (simp add: Channel_HandleEvent_def Channel_set_event_handling_def with_channel_def call_back_def)
  with ready2 w3(2,3) show ?thesis unfolding w2_def by blast
qed

text \<open>The loop on a single event, up to the handler.\<close>

lemma handle_one:
  assumes "get_channel h w = Some ch" "1 < pl_events_size (el_poller w)"
    and "w1 = (put_channel h (ch\<lparr>ch_trigger_events := ev\<rparr>) (w\<lparr>el_active_channel_list := []\<rparr>))
       \<lparr>el_active_channel_list := [h], el_event_handling_flag := True\<rparr>"
  shows "EventLoop_handle_events run (Inr [(h, ev)]) w =
     obind (obind (Channel_HandleEvent get_channel put_channel run h w1) (\<lambda>w. with_channel get_channel h w (\<lambda>_. Inr w)))
       (\<lambda>w. Inr (w\<lparr>el_event_handling_flag := False\<rparr>))"
  using assms
  by (simp add: EventLoop_handle_events_def obind_assoc EpollPoller_Poll_def with_channel_def get_channel_def put_channel_def Let_def)

lemma iteration_one:
  assumes "get_channel h w = Some ch" "1 < pl_events_size (el_poller w)"
    and "w1 = (put_channel h (ch\<lparr>ch_trigger_events := ev\<rparr>) (w\<lparr>el_active_channel_list := []\<rparr>))
       \<lparr>el_active_channel_list := [h], el_event_handling_flag := True\<rparr>"
  shows "EventLoop_iteration run rel (Inr [(h, ev)]) w =
     obind (obind (Channel_HandleEvent get_channel put_channel run h w1) (\<lambda>w. with_channel get_channel h w (\<lambda>_. Inr w)))
       (\<lambda>w. EventLoop_DoPendingFunctors run rel (w\<lparr>el_event_handling_flag := False\<rparr>))"
  by (simp add: EventLoop_iteration_def handle_one [OF assms] obind_assoc)

lemma server_ready_updates:
  "server_ready (w\<lparr>el_active_channel_list := as\<rparr>) = server_ready w"
  "server_ready (w\<lparr>el_event_handling_flag := b\<rparr>) = server_ready w"
  "server_ready (w\<lparr>el_loop_flag := b\<rparr>) = server_ready w"
  "server_ready (w\<lparr>el_quit_flag := b\<rparr>) = server_ready w"
  "server_ready (w\<lparr>el_pending_functors := fs\<rparr>) = server_ready w"
  "server_ready (put_channel h ch w) = server_ready w"
  by (simp_all add: server_ready_def put_channel_def)

text \<open>A server in its loop, with the acceptor's channel at \<open>h\<close>.\<close>

definition accept_ready :: "nat \<Rightarrow> net \<Rightarrow> bool" where
  "accept_ready h w \<longleftrightarrow> server_ready w \<and> el_quit_flag w = False \<and> el_pending_functors w = [] \<and>
     16 \<le> pl_events_size (el_poller w) \<and> ac_has_callback (nt_acceptor w) \<and> h < nt_fresh w \<and>
     (\<exists>ch. get_channel h w = Some ch \<and> ch_read_call_back ch = Some OnAccept)"

text \<open>What an iteration of the loop changes that accepts a client.\<close>

definition accept_effect :: "nat \<Rightarrow> int \<Rightarrow> sockaddr_in \<Rightarrow> net \<Rightarrow> net \<Rightarrow> bool" where
  "accept_effect h fd addr w v \<longleftrightarrow>
     nt_conns v = (nt_conns w)(nt_fresh w \<mapsto> new_conn fd addr w) \<and>
     (\<forall>k. k \<noteq> h \<longrightarrow> get_channel k v = (if k = nt_fresh w + 1 then Some (new_channel fd (nt_fresh w)) else get_channel k w)) \<and>
     nt_connection_map v = map_insert (connection_name addr) (nt_fresh w) (nt_connection_map w) \<and>
     pl_channels_map (el_poller v) = map_insert fd (nt_fresh w + 1) (pl_channels_map (el_poller w)) \<and>
     nt_stack v = nt_stack w \<and> nt_fresh v = nt_fresh w + 2 \<and> nt_acceptor v = nt_acceptor w \<and>
     el_wakeup_channel v = el_wakeup_channel w \<and> el_timer_channel v = el_timer_channel w \<and>
     nt_server v = nt_server w \<and> nt_request v = nt_request w \<and> nt_readv v = nt_readv w \<and>
     nt_loops v = nt_loops w \<and> el_thread_id v = el_thread_id w"

lemma accept_step:
  assumes ready: "accept_ready h w" and acc: "nt_accept w = Inr (fd, addr) # rest"
    and name: "map_find (nt_connection_map w) (connection_name addr) = None"
    and free: "map_find (pl_channels_map (el_poller w)) fd = None"
    and user: "\<And>a w. user UserConnection a w = Inr w"
  shows "\<exists>v. EventLoop_iteration (run_event user) drop_functors (Inr [(h, EPOLLIN)]) w = Inr v \<and> accept_ready h v \<and>
     accept_effect h fd addr w v \<and> nt_accept v = rest"
proof -
  note s = ready [unfolded accept_ready_def]
  obtain ch where ch: "get_channel h w = Some ch" "ch_read_call_back ch = Some OnAccept" using s by blast
  let ?ch = "ch\<lparr>ch_trigger_events := EPOLLIN\<rparr>"
  define w1 where "w1 = (put_channel h ?ch (w\<lparr>el_active_channel_list := []\<rparr>))
       \<lparr>el_active_channel_list := [h], el_event_handling_flag := True\<rparr>"
  have "1 < pl_events_size (el_poller w)" using s by linarith
  note iter = iteration_one [OF ch(1) this w1_def, of "run_event user" drop_functors]
  have w1: "server_ready w1" "get_channel h w1 = Some ?ch" "h < nt_fresh w1" "ac_has_callback (nt_acceptor w1)"
    "nt_accept w1 = Inr (fd, addr) # rest" "map_find (nt_connection_map w1) (connection_name addr) = None"
    "map_find (pl_channels_map (el_poller w1)) fd = None"
    using s acc name free by (simp_all add: w1_def server_ready_updates) (simp_all add: put_channel_def get_channel_def)
  have cb: "ch_trigger_events ?ch = EPOLLIN" "ch_read_call_back ?ch = Some OnAccept" using ch(2) by simp_all
  obtain w2 w3 where ev: "Channel_HandleEvent get_channel put_channel (run_event user) h w1 =
      Inr (put_channel h (?ch\<lparr>ch_event_handling := False\<rparr>) w3)"
    and w2: "w2 = sys (SysAccept fd) (put_channel h (?ch\<lparr>ch_event_handling := True\<rparr>) w1\<lparr>nt_accept := rest\<rparr>)"
    and ready2: "server_ready w2" and eff: "connect_effect fd addr w2 w3"
    and conns: "nt_conns w3 = (nt_conns w2)(nt_fresh w2 \<mapsto> new_conn fd addr w2)"
    using accept_event [where user = user, OF w1(1-3) cb w1(4,5,6,7) user] by blast
  have same: "nt_fresh w2 = nt_fresh w" "nt_conns w2 = nt_conns w" "nt_stack w2 = nt_stack w"
    "nt_connection_map w2 = nt_connection_map w" "el_poller w2 = el_poller w" "nt_acceptor w2 = nt_acceptor w"
    "nt_server w2 = nt_server w" "nt_request w2 = nt_request w" "nt_readv w2 = nt_readv w" "nt_accept w2 = rest"
    "el_quit_flag w2 = False" "el_pending_functors w2 = []" "el_wakeup_channel w2 = el_wakeup_channel w"
    "el_timer_channel w2 = el_timer_channel w" "nt_junk w2 = nt_junk w" "nt_loops w2 = nt_loops w"
    "el_thread_id w2 = el_thread_id w"
    "k \<noteq> h \<Longrightarrow> get_channel k w2 = get_channel k w" for k
    using s by (simp_all add: w2 w1_def sys_def put_channel_def get_channel_def)
  let ?v = "(put_channel h (?ch\<lparr>ch_event_handling := False\<rparr>) w3)\<lparr>el_event_handling_flag := False, el_pending_functors := []\<rparr>"
  note e = eff [unfolded connect_effect_def same]
  have new: "new_conn fd addr w2 = new_conn fd addr w" by (simp add: new_conn_def same)
  have "server_ready w3" using connect_effect_live(2) [OF ready2 eff] free by (simp add: same)
  then have "accept_ready h ?v"
    using s e ch(2) unfolding accept_ready_def
    by (simp add: server_ready_updates) (simp add: put_channel_def get_channel_def)
  moreover have "accept_effect h fd addr w ?v"
    using e conns same(18) unfolding accept_effect_def same new
    by (simp add: put_channel_def get_channel_def)
  moreover have "nt_accept ?v = rest" using e by (simp add: put_channel_def)
  moreover have "EventLoop_iteration (run_event user) drop_functors (Inr [(h, EPOLLIN)]) w = Inr ?v"
    unfolding iter ev using e
    by (simp add: EventLoop_DoPendingFunctors_def drop_functors_def EventLoop_take_functors_def with_channel_def
        get_channel_def put_channel_def)
  ultimately show ?thesis by blast
qed

text \<open>A connection that is served: live, and registered under the descriptor of its channel.\<close>

definition served :: "nat \<Rightarrow> tcp_connection \<Rightarrow> closure channel \<Rightarrow> net \<Rightarrow> bool" where
  "served a c ch w \<longleftrightarrow> live_conn a c ch w \<and> map_find (pl_channels_map (el_poller w)) (ch_fd ch) = Some (tc_channel c)"

lemma accept_effect_new:
  assumes "server_ready w" "h < nt_fresh w" "map_find (pl_channels_map (el_poller w)) fd = None" "accept_effect h fd addr w v"
  shows "served (nt_fresh w) (new_conn fd addr w) (new_channel fd (nt_fresh w)) v"
  using assms
  by (fastforce simp: served_def live_conn_def server_ready_def accept_effect_def new_conn_def new_channel_def Let_def
      map_of_map_insert map_sorted_insert Channel_EnableReading_def Channel_new_def split: if_splits)

lemma accept_effect_old:
  assumes "served a c ch w" "tc_channel c < nt_fresh w" "tc_channel c \<noteq> h" "h < nt_fresh w" "a < nt_fresh w"
    "fd \<noteq> ch_fd ch" "connection_name addr \<noteq> tc_name c" "accept_effect h fd addr w v"
  shows "served a c ch v"
  using assms
  by (auto simp: served_def live_conn_def accept_effect_def map_of_map_insert map_sorted_insert split: if_splits)

text \<open>The fields of a connection that was accepted and not used yet.\<close>

definition accepted :: "nat \<Rightarrow> int \<Rightarrow> sockaddr_in \<Rightarrow> net \<Rightarrow> bool" where
  "accepted a fd addr w \<longleftrightarrow> (\<exists>c. served a c (new_channel fd a) w \<and> tc_channel c = a + 1 \<and> tc_state c = kConnected \<and>
     tc_socket c = fd \<and> tc_client_addr c = addr \<and> tc_name c = connection_name addr)"

lemma new_channel_fd: "ch_fd (new_channel fd a) = fd"
  by (simp add: new_channel_def Channel_EnableReading_def Channel_new_def)

lemma accepted_new:
  assumes "accept_ready h w" "map_find (pl_channels_map (el_poller w)) fd = None" "accept_effect h fd addr w v"
  shows "accepted (nt_fresh w) fd addr v"
  using accept_effect_new [OF _ _ assms(2,3)] assms(1) unfolding accepted_def accept_ready_def
  by (intro exI [of _ "new_conn fd addr w"]) (simp add: new_conn_def Let_def)

lemma accepted_old:
  assumes "accepted b fd' addr' w" "b + 1 < nt_fresh w" "b + 1 \<noteq> h" "h < nt_fresh w"
    "fd \<noteq> fd'" "connection_name addr \<noteq> connection_name addr'" "accept_effect h fd addr w v"
  shows "accepted b fd' addr' v"
proof -
  obtain c where c: "served b c (new_channel fd' b) w" "tc_channel c = b + 1" "tc_state c = kConnected"
    "tc_socket c = fd'" "tc_client_addr c = addr'" "tc_name c = connection_name addr'"
    using assms(1) unfolding accepted_def by blast
  have "served b c (new_channel fd' b) v"
    using assms c(2,6) by (intro accept_effect_old [OF c(1)]) (simp_all add: new_channel_fd)
  with c(2-6) show ?thesis unfolding accepted_def by blast
qed

text \<open>
  A row of clients, accepted by one iteration each: they are all served in the end, at consecutive
  addresses, and so are those that were served before.
\<close>

lemma accept_all:
  assumes user: "\<And>a w. user UserConnection a w = Inr w"
  shows "accept_ready h w \<Longrightarrow> nt_accept w = map Inr clients @ rest \<Longrightarrow>
    distinct (map fst clients) \<Longrightarrow> distinct (map (\<lambda>x. connection_name (snd x)) clients) \<Longrightarrow>
    \<forall>x \<in> set clients. map_find (pl_channels_map (el_poller w)) (fst x) = None \<and>
      map_find (nt_connection_map w) (connection_name (snd x)) = None \<Longrightarrow>
    \<exists>v. EventLoop_Loop_while (run_event user) drop_functors (replicate (length clients) (Inr [(h, EPOLLIN)])) w = Inr v \<and>
      (\<forall>i < length clients. accepted (nt_fresh w + 2 * i) (fst (clients ! i)) (snd (clients ! i)) v) \<and>
      (\<forall>b fd addr. accepted b fd addr w \<and> b + 1 < nt_fresh w \<and> b + 1 \<noteq> h \<and> fd \<notin> fst ` set clients \<and>
         connection_name addr \<notin> (\<lambda>x. connection_name (snd x)) ` set clients \<longrightarrow> accepted b fd addr v) \<and>
      dom (map_find (nt_connection_map v)) =
        dom (map_find (nt_connection_map w)) \<union> (\<lambda>x. connection_name (snd x)) ` set clients"
proof (induction clients arbitrary: w)
  case Nil
  then show ?case by (simp add: EventLoop_Loop_while.simps accept_ready_def)
next
  case (Cons x cs)
  obtain fd addr where x: "x = (fd, addr)" by (cases x)
  note r = Cons.prems(1) [unfolded accept_ready_def]
  have acc: "nt_accept w = Inr (fd, addr) # map Inr cs @ rest" using Cons.prems(2) x by simp
  have free: "map_find (nt_connection_map w) (connection_name addr) = None" "map_find (pl_channels_map (el_poller w)) fd = None"
    using Cons.prems(5) x by simp_all
  obtain v where v: "EventLoop_iteration (run_event user) drop_functors (Inr [(h, EPOLLIN)]) w = Inr v" "accept_ready h v"
    "accept_effect h fd addr w v" "nt_accept v = map Inr cs @ rest"
    using accept_step [where user = user, OF Cons.prems(1) acc free user] by blast
  note e = v(3) [unfolded accept_effect_def]
  have "\<forall>x \<in> set cs. map_find (pl_channels_map (el_poller v)) (fst x) = None \<and>
      map_find (nt_connection_map v) (connection_name (snd x)) = None"
    using Cons.prems(3-5) e x by (auto simp: map_of_map_insert image_iff)
  from Cons.IH [OF v(2,4) _ _ this] Cons.prems(3,4) obtain u where
    u: "EventLoop_Loop_while (run_event user) drop_functors (replicate (length cs) (Inr [(h, EPOLLIN)])) v = Inr u"
      "\<forall>i < length cs. accepted (nt_fresh v + 2 * i) (fst (cs ! i)) (snd (cs ! i)) u"
      "\<forall>b fd addr. accepted b fd addr v \<and> b + 1 < nt_fresh v \<and> b + 1 \<noteq> h \<and> fd \<notin> fst ` set cs \<and>
         connection_name addr \<notin> (\<lambda>x. connection_name (snd x)) ` set cs \<longrightarrow> accepted b fd addr u"
      "dom (map_find (nt_connection_map u)) =
        dom (map_find (nt_connection_map v)) \<union> (\<lambda>x. connection_name (snd x)) ` set cs" by auto
  have "accepted (nt_fresh w) fd addr v" by (rule accepted_new [OF Cons.prems(1) free(2) v(3)])
  moreover have "nt_fresh w + 1 < nt_fresh v" "nt_fresh w + 1 \<noteq> h" using e r by auto
  moreover have "fd \<notin> fst ` set cs" "connection_name addr \<notin> (\<lambda>x. connection_name (snd x)) ` set cs"
    using Cons.prems(3,4) x by auto
  ultimately have new: "accepted (nt_fresh w) fd addr u" using u(3) by blast
  have "accepted (nt_fresh w + 2 * i) (fst ((x # cs) ! i)) (snd ((x # cs) ! i)) u" if "i < length (x # cs)" for i
    using new u(2) that e x by (cases i) (auto simp: algebra_simps)
  moreover have "accepted b fd' addr' u" if "accepted b fd' addr' w" "b + 1 < nt_fresh w" "b + 1 \<noteq> h"
    "fd' \<notin> fst ` set (x # cs)" "connection_name addr' \<notin> (\<lambda>x. connection_name (snd x)) ` set (x # cs)" for b fd' addr'
  proof -
    have "accepted b fd' addr' v"
      using accepted_old [OF that(1-3) _ _ _ v(3)] r that(4,5) x by auto
    then show ?thesis using u(3) that e by auto
  qed
  moreover have "dom (map_find (nt_connection_map u)) =
        dom (map_find (nt_connection_map w)) \<union> (\<lambda>x. connection_name (snd x)) ` set (x # cs)"
    using u(4) e x by (auto simp: map_of_map_insert)
  moreover have "EventLoop_Loop_while (run_event user) drop_functors (replicate (length (x # cs)) (Inr [(h, EPOLLIN)])) w = Inr u"
    using v(1) u(1) r by (simp add: EventLoop_Loop_while.simps [of _ _ "_ # _"])
  ultimately show ?case by blast
qed

text \<open>The state in which the second poll finds the new client.\<close>

lemma accept_iteration:
  assumes start: "started w0 wakeup_fd accept_fd w" "el_quit_flag w = False"
    and acc: "nt_accept w0 = Inr (fd, client) # rest" and fd: "fd \<noteq> wakeup_fd" "fd \<noteq> accept_fd"
    and rd: "nt_readv w0 = Some data # reads" "data \<noteq> []" "length data \<le> 512"
  shows "\<exists>v. EventLoop_iteration (run_event http_user) drop_functors (Inr [(nt_fresh w0 + 2, EPOLLIN)]) w = Inr v \<and>
     el_quit_flag v = False \<and> 1 < pl_events_size (el_poller v) \<and>
     (\<exists>c. http_ready (nt_fresh w0 + 3) c (new_channel fd (nt_fresh w0 + 3)) data v \<and> tc_channel c = nt_fresh w0 + 4)"
proof -
  note s = start(1) [unfolded started_def]
  let ?h = "nt_fresh w0 + 2"
  have user: "http_user UserConnection a w = Inr w" for a w
    by (simp add: http_user_def HttpServer_HandleConnection_def)
  have ready: "accept_ready ?h w" using s start(2) by (auto simp: accept_ready_def)
  have w: "nt_accept w = Inr (fd, client) # rest" "map_find (nt_connection_map w) (connection_name client) = None"
    "map_find (pl_channels_map (el_poller w)) fd = None"
    using s acc fd by simp_all
  obtain v where v: "EventLoop_iteration (run_event http_user) drop_functors (Inr [(?h, EPOLLIN)]) w = Inr v" "accept_ready ?h v"
    "accept_effect ?h fd client w v"
    using accept_step [where user = http_user, OF ready w user] by blast
  let ?c = "new_conn fd client w" and ?k = "new_channel fd (nt_fresh w0 + 3)"
  have fresh: "nt_fresh w = nt_fresh w0 + 3" and "server_ready w" using s by blast+
  then have "served (nt_fresh w0 + 3) ?c ?k v"
    using accept_effect_new [OF _ _ w(3) v(3)] by simp
  moreover have "tc_state ?c = kConnected" "tc_message_cb ?c = Some UserMessage" "bf_invar (tc_input_buffer ?c)"
    "bf_contents (tc_input_buffer ?c) = []" "length data \<le> Buffer_WriteableBytes (tc_input_buffer ?c)"
    "out_idle ?c" "length (bf_buffer (tc_output_buffer ?c)) = 512" "tc_channel ?c = nt_fresh w0 + 4"
    using rd(3) s by (simp_all add: new_conn_def Let_def bf_invar_def bf_contents_def out_idle_def
        Buffer_kInitialSize_def Buffer_WriteableBytes_def sz_sub_id)
  moreover have "nt_readv v = Some data # reads" "nt_request v = HttpRequest_zero"
    using v(3) s rd(1) by (simp_all add: accept_effect_def)
  ultimately have "http_ready (nt_fresh w0 + 3) ?c ?k data v" "tc_channel ?c = nt_fresh w0 + 4"
    using rd(2) by (simp_all add: http_ready_def http_input_def HttpRequest_zero_def served_def)
  with v(1,2) show ?thesis unfolding accept_ready_def by auto
qed


end
