(* ===== verification/Threads.thy ===== *)
theory Threads
  imports Main_Run
begin

text \<open>
  The threads of a server: \<open>ThreadFunc\<close> of EventLoopThreadPool.cc, which runs one \<open>EventLoop\<close> per thread, and a run of
  the program as the turns its threads take. A turn is a round of \<open>EventLoop::Loop\<close>. The lemmas say what
  queueing in another thread's loop and starting a thread change.
\<close>

section \<open>Threads\<close>

text \<open>
  \<open>ThreadFunc\<close>, up to its loop: the thread \<open>tid\<close> makes a loop, initialises it and enters it into the
  pool. The descriptors are what the system calls returned.
\<close>

definition ThreadFunc_start :: "nat \<Rightarrow> int \<Rightarrow> int \<Rightarrow> int \<Rightarrow> bool \<Rightarrow> net \<Rightarrow> net outcome" where
  "ThreadFunc_start tid epollfd wakeup_fd timer_fd junk w =
     (let i = length (nt_loops w); ta = nt_fresh w; wa = ta + 1;
          w = w\<lparr>nt_loops := nt_loops w @ [(EventLoop_new tid epollfd wakeup_fd timer_fd junk, HttpRequest_zero)],
                nt_fresh := wa + 1\<rparr>
      in obind (EventLoop_Init None tid ta wa OnTimer OnWakeup (exchange i w)) (\<lambda>(tls, w).
         let w = exchange i (w\<lparr>el_loop_flag := True, el_quit_flag := False\<rparr>)
         in Inr (on_server (\<lambda>s. s\<lparr>ts_pool := EventLoopThreadPool_ThreadFunc tid (ts_pool s)\<rparr>) w)))"

text \<open>What the threads do next: start, or one round of the loop of thread \<open>l\<close> with what its \<open>epoll_wait\<close> returns.\<close>

datatype thread_step = Start nat int int int bool | Turn nat poll_result

definition take_turn :: "(conn_cb \<Rightarrow> nat \<Rightarrow> net \<Rightarrow> net outcome) \<Rightarrow> nat \<Rightarrow> poll_result \<Rightarrow> net \<Rightarrow> net outcome" where
  "take_turn user l r = on_loop l (EventLoop_Loop_while (run_event user) drop_functors [r])"

fun thread_run :: "(conn_cb \<Rightarrow> nat \<Rightarrow> net \<Rightarrow> net outcome) \<Rightarrow> thread_step list \<Rightarrow> net \<Rightarrow> net outcome" where
  "thread_run user [] w = Inr w"
| "thread_run user (Start tid epollfd wakeup_fd timer_fd junk # ss) w =
     obind (ThreadFunc_start tid epollfd wakeup_fd timer_fd junk w) (thread_run user ss)"
| "thread_run user (Turn l r # ss) w = obind (take_turn user l r w) (thread_run user ss)"

section \<open>Queueing in a parked loop\<close>

definition queue_at :: "nat \<Rightarrow> nat \<Rightarrow> closure \<Rightarrow> net \<Rightarrow> net" where
  "queue_at i tid f w = w\<lparr>nt_loops := (nt_loops w)[i :=
     ((EventLoop_QueueInLoop tid f (fst (nt_loops w ! i)))\<lparr>el_channels := Map.empty\<rparr>, snd (nt_loops w ! i))]\<rparr>"

lemma exchange_queue:
  assumes "i < length (nt_loops w)"
  shows "exchange i (EventLoop_QueueInLoop tid f (exchange i w)) = queue_at i tid f w"
proof -
  obtain l q where l: "nt_loops w ! i = (l, q)" by fastforce
  show ?thesis
    using assms l
    by (cases w; cases l)
      (simp add: exchange_def queue_at_def event_loop.defs park_def EventLoop_QueueInLoop_def EventLoop_push_functor_def
        EventLoop_isLoopThread_def EventLoop_Wakeup_def Let_def)
qed

lemma run_in_loop_queues:
  assumes "l \<noteq> el_thread_id w" "loop_slot l (nt_loops w) = Some i"
  shows "run_in_loop run l f w = Inr (queue_at i (el_thread_id w) f (fold hold (bound_conns f) w))"
  using assms loop_slot_Some [OF assms(2)] by (simp add: run_in_loop_other exchange_queue)

lemma queue_at_same [simp]:
  "nt_conns (queue_at i tid f w) = nt_conns w" "nt_connection_map (queue_at i tid f w) = nt_connection_map w"
  "nt_stack (queue_at i tid f w) = nt_stack w" "nt_fresh (queue_at i tid f w) = nt_fresh w"
  "nt_server (queue_at i tid f w) = nt_server w" "nt_acceptor (queue_at i tid f w) = nt_acceptor w"
  "el_channels (queue_at i tid f w) = el_channels w" "get_channel h (queue_at i tid f w) = get_channel h w"
  "el_poller (queue_at i tid f w) = el_poller w" "el_thread_id (queue_at i tid f w) = el_thread_id w"
  "el_pending_functors (queue_at i tid f w) = el_pending_functors w" "nt_calls (queue_at i tid f w) = nt_calls w"
  "length (nt_loops (queue_at i tid f w)) = length (nt_loops w)"
  by (simp_all add: queue_at_def get_channel_def)

lemma loop_slot_map: "map (\<lambda>x. el_thread_id (fst x)) xs = map (\<lambda>x. el_thread_id (fst x)) ys \<Longrightarrow> loop_slot l xs = loop_slot l ys"
proof (induction xs arbitrary: ys)
  case (Cons x xs)
  then show ?case by (cases ys) auto
qed simp

lemma queue_at_ids [simp]:
  "map (\<lambda>x. el_thread_id (fst x)) (nt_loops (queue_at i tid f w)) = map (\<lambda>x. el_thread_id (fst x)) (nt_loops w)"
proof (cases "i < length (nt_loops w)")
  case True
  have "el_thread_id (EventLoop_QueueInLoop tid f k) = el_thread_id k" for k :: "closure event_loop"
    by (simp add: EventLoop_QueueInLoop_def EventLoop_push_functor_def EventLoop_Wakeup_def Let_def)
  with True show ?thesis by (simp add: queue_at_def map_update) (simp add: list_update_same_conv)
qed (simp add: queue_at_def list_update_beyond)

text \<open>A loop apart from what is queued in it.\<close>

definition quiet :: "closure event_loop \<Rightarrow> closure event_loop" where
  "quiet l = l\<lparr>el_pending_functors := [], el_wakeup_count := 0, el_channels := Map.empty\<rparr>"

lemma quiet_updates [simp]:
  "quiet (l\<lparr>el_pending_functors := fs\<rparr>) = quiet l" "quiet (l\<lparr>el_wakeup_count := n\<rparr>) = quiet l"
  "quiet (l\<lparr>el_channels := m\<rparr>) = quiet l"
  by (simp_all add: quiet_def)

lemma queue_at_nth:
  assumes "j < length (nt_loops w)" "i < length (nt_loops w)" "el_thread_id (fst (nt_loops w ! j)) \<noteq> tid"
  shows "el_pending_functors (fst (nt_loops (queue_at j tid f w) ! i)) =
      el_pending_functors (fst (nt_loops w ! i)) @ (if i = j then [f] else [])"
    "quiet (fst (nt_loops (queue_at j tid f w) ! i)) = quiet (fst (nt_loops w ! i))"
    "snd (nt_loops (queue_at j tid f w) ! i) = snd (nt_loops w ! i)"
    "el_wakeup_count (fst (nt_loops (queue_at j tid f w) ! i)) =
      el_wakeup_count (fst (nt_loops w ! i)) + (if i = j then 1 else 0)"
proof -
  let ?q = "\<lambda>l :: closure event_loop. (EventLoop_QueueInLoop tid f l)\<lparr>el_channels := Map.empty\<rparr>"
  have nth: "nt_loops (queue_at j tid f w) ! i =
      (if i = j then (?q (fst (nt_loops w ! i)), snd (nt_loops w ! i)) else nt_loops w ! i)"
    using assms(1,2) by (simp add: queue_at_def)
  have l: "el_pending_functors (?q l) = el_pending_functors l @ [f]" "quiet (EventLoop_QueueInLoop tid f l) = quiet l"
    for l :: "closure event_loop"
    by (cases "el_thread_id l \<noteq> tid \<or> el_calling_pend_functors_flag l";
        simp add: EventLoop_QueueInLoop_def EventLoop_push_functor_def EventLoop_Wakeup_def EventLoop_isLoopThread_def Let_def)+
  have n: "el_wakeup_count (?q l) = el_wakeup_count l + 1" if "el_thread_id l \<noteq> tid" for l
    using that
    by (simp add: EventLoop_QueueInLoop_def EventLoop_push_functor_def EventLoop_Wakeup_def EventLoop_isLoopThread_def Let_def)
  show "el_pending_functors (fst (nt_loops (queue_at j tid f w) ! i)) =
      el_pending_functors (fst (nt_loops w ! i)) @ (if i = j then [f] else [])"
    by (simp add: nth l(1))
  show "quiet (fst (nt_loops (queue_at j tid f w) ! i)) = quiet (fst (nt_loops w ! i))" by (simp add: nth l(2))
  show "snd (nt_loops (queue_at j tid f w) ! i) = snd (nt_loops w ! i)" by (simp add: nth)
  show "el_wakeup_count (fst (nt_loops (queue_at j tid f w) ! i)) =
      el_wakeup_count (fst (nt_loops w ! i)) + (if i = j then 1 else 0)"
    using assms(3) by (simp add: nth n)
qed

lemma thread_run_append: "thread_run user (xs @ ys) w = obind (thread_run user xs w) (thread_run user ys)"
proof (induction xs arbitrary: w)
  case (Cons x xs)
  then have "thread_run user (xs @ ys) = (\<lambda>w. obind (thread_run user xs w) (thread_run user ys))" by (simp add: fun_eq_iff)
  then show ?case by (cases x) (simp_all add: obind_assoc)
qed simp

section \<open>A turn, seen from another thread\<close>

lemma loop_slot_nth:
  "distinct (map (\<lambda>x. el_thread_id (fst x)) xs) \<Longrightarrow> i < length xs \<Longrightarrow> loop_slot (el_thread_id (fst (xs ! i))) xs = Some i"
proof (induction xs arbitrary: i)
  case (Cons x xs)
  then show ?case by (cases i) (auto simp: image_iff dest: nth_mem)
qed simp

text \<open>Coming in and parking again leaves the base loop as it was.\<close>

lemma exchange_twice:
  assumes i: "i < length (nt_loops w)" and y: "nt_loops y = nt_loops (exchange i w)"
  shows "el_poller (exchange i y) = el_poller w" "el_thread_id (exchange i y) = el_thread_id w"
    "el_pending_functors (exchange i y) = el_pending_functors w" "el_wakeup_channel (exchange i y) = el_wakeup_channel w"
    "el_timer_channel (exchange i y) = el_timer_channel w" "el_quit_flag (exchange i y) = el_quit_flag w"
    "nt_request (exchange i y) = nt_request w" "nt_loops (exchange i y) = (nt_loops w)[i := (park y, nt_request y)]"
proof -
  obtain l q where l: "nt_loops w ! i = (l, q)" by fastforce
  have z: "nt_loops y = (nt_loops w)[i := (park w, nt_request w)]" using y exchange_fields(6) [OF i l] by simp
  then have j: "i < length (nt_loops y)" "nt_loops y ! i = (park w, nt_request w)" using i by simp_all
  note f = exchange_fields [OF j]
  show "el_poller (exchange i y) = el_poller w" "el_thread_id (exchange i y) = el_thread_id w"
    "el_pending_functors (exchange i y) = el_pending_functors w" "el_wakeup_channel (exchange i y) = el_wakeup_channel w"
    "el_timer_channel (exchange i y) = el_timer_channel w"
    by (simp_all add: f)
  show "nt_loops (exchange i y) = (nt_loops w)[i := (park y, nt_request y)]"
    using z by (simp add: f)
  show "el_quit_flag (exchange i y) = el_quit_flag w" "nt_request (exchange i y) = nt_request w"
    using j by (simp_all add: exchange_def park_def event_loop.defs)
qed

section \<open>Starting the threads\<close>

definition thread_effect :: "nat \<Rightarrow> int \<Rightarrow> int \<Rightarrow> net \<Rightarrow> net \<Rightarrow> bool" where
  "thread_effect tid wakeup_fd timer_fd w v \<longleftrightarrow>
     (\<exists>l. nt_loops v = nt_loops w @ [(l, HttpRequest_zero)] \<and> fresh_loop tid wakeup_fd (nt_fresh w) l) \<and>
     el_channels v = (el_channels w)(nt_fresh w \<mapsto> io_channel timer_fd OnTimer, nt_fresh w + 1 \<mapsto> wakeup_channel wakeup_fd) \<and>
     nt_fresh v = nt_fresh w + 2 \<and>
     nt_server v = (nt_server w)\<lparr>ts_pool := EventLoopThreadPool_ThreadFunc tid (ts_pool (nt_server w))\<rparr> \<and>
     nt_conns v = nt_conns w \<and> nt_connection_map v = nt_connection_map w \<and> nt_stack v = nt_stack w \<and>
     nt_acceptor v = nt_acceptor w \<and> nt_accept v = nt_accept w \<and> el_poller v = el_poller w \<and>
     el_thread_id v = el_thread_id w \<and> el_pending_functors v = el_pending_functors w \<and> el_quit_flag v = el_quit_flag w \<and>
     el_wakeup_channel v = el_wakeup_channel w \<and> el_timer_channel v = el_timer_channel w"

lemma ThreadFunc_start_effect:
  "\<exists>v. ThreadFunc_start tid epollfd wakeup_fd timer_fd junk w = Inr v \<and> thread_effect tid wakeup_fd timer_fd w v"
proof -
  let ?i = "length (nt_loops w)" and ?l = "EventLoop_new tid epollfd wakeup_fd timer_fd junk :: closure event_loop"
  define w1 where "w1 = w\<lparr>nt_loops := nt_loops w @ [(?l, HttpRequest_zero)], nt_fresh := nt_fresh w + 2\<rparr>"
  define x where "x = exchange ?i w1"
  have i: "?i < length (nt_loops w1)" "nt_loops w1 ! ?i = (?l, HttpRequest_zero)" by (simp_all add: w1_def)
  note f = exchange_fields [OF i, folded x_def]
  have fds: "el_timer_fd x = timer_fd" "el_wakeup_fd x = wakeup_fd" "nt_request x = HttpRequest_zero"
    unfolding x_def exchange_def using i by (simp_all add: event_loop.defs EventLoop_new_def)
  have x: "el_poller x = EpollPoller_new epollfd" "el_pending_functors x = []" "el_thread_id x = tid"
    by (simp_all add: f EventLoop_new_def)
  obtain y where y: "EventLoop_Init None tid (nt_fresh w) (nt_fresh w + 1) OnTimer OnWakeup x = Inr (Some tid, y)"
    "fresh_loop tid wakeup_fd (nt_fresh w) (park (y\<lparr>el_loop_flag := True, el_quit_flag := False\<rparr>))"
    "el_channels y = (el_channels x)(nt_fresh w \<mapsto> io_channel timer_fd OnTimer, nt_fresh w + 1 \<mapsto> wakeup_channel wakeup_fd)"
    "nt_loops y = nt_loops x" "nt_request y = nt_request x" "event_loop.more y = event_loop.more x"
    using Init_effect [OF x(1) fds(1,2) x(2,3), of tid "nt_fresh w"] by blast
  let ?y = "y\<lparr>el_loop_flag := True, el_quit_flag := False\<rparr>"
  have loops: "nt_loops ?y = nt_loops (exchange ?i w1)" using y(4) by (simp add: x_def)
  note t = exchange_twice [OF i(1) loops]
  have same: "nt_fresh y = nt_fresh w + 2" "nt_server y = nt_server w" "nt_conns y = nt_conns w"
    "nt_connection_map y = nt_connection_map w" "nt_stack y = nt_stack w" "nt_acceptor y = nt_acceptor w"
    "nt_accept y = nt_accept w"
  proof -
    have more: "nt_fresh y = nt_fresh x \<and> nt_server y = nt_server x \<and> nt_conns y = nt_conns x \<and>
      nt_connection_map y = nt_connection_map x \<and> nt_stack y = nt_stack x \<and> nt_acceptor y = nt_acceptor x \<and> nt_accept y = nt_accept x"
      using y(6) by (cases x; cases y) simp
    moreover have "nt_accept x = nt_accept w"
      unfolding x_def exchange_def using i by (cases w) (simp add: w1_def event_loop.defs)
    ultimately show "nt_fresh y = nt_fresh w + 2" "nt_server y = nt_server w" "nt_conns y = nt_conns w"
      "nt_connection_map y = nt_connection_map w" "nt_stack y = nt_stack w" "nt_acceptor y = nt_acceptor w"
      "nt_accept y = nt_accept w"
      by (simp_all add: x_def w1_def)
  qed
  have acc: "nt_accept (exchange ?i ?y) = nt_accept y"
    using loops i(1) by (cases y) (simp add: exchange_def event_loop.defs split_beta)
  have run: "ThreadFunc_start tid epollfd wakeup_fd timer_fd junk w =
      Inr (on_server (\<lambda>s. s\<lparr>ts_pool := EventLoopThreadPool_ThreadFunc tid (ts_pool s)\<rparr>) (exchange ?i ?y))"
    using y(1) by (simp add: ThreadFunc_start_def Let_def x_def w1_def)
  have last: "(nt_loops w1)[?i := z] = nt_loops w @ [z]" for z by (simp add: w1_def)
  have "el_channels x = el_channels w" "nt_request ?y = HttpRequest_zero"
    using y(5) fds(3) by (simp_all add: x_def w1_def)
  then have "thread_effect tid wakeup_fd timer_fd w
      (on_server (\<lambda>s. s\<lparr>ts_pool := EventLoopThreadPool_ThreadFunc tid (ts_pool s)\<rparr>) (exchange ?i ?y))"
    using y(2,3) same acc unfolding thread_effect_def by (simp add: on_server_def t last) (simp add: w1_def)
  with run show ?thesis by blast
qed

section \<open>Setting up a server with threads\<close>

text \<open>
  \<open>threaded_start\<close> is a program that asks for \<open>n\<close> threads: what \<open>main\<close> does, with \<open>SetThreadNum\<close> before \<open>Start\<close>.
\<close>

definition threaded_start :: "(conn_cb \<Rightarrow> nat \<Rightarrow> net \<Rightarrow> net outcome) \<Rightarrow> int \<Rightarrow> sockaddr_in \<Rightarrow> net \<Rightarrow> net outcome" where
  "threaded_start user n addr w = server_start user n ''server'' addr w"

end
