(* ===== verification/Multi_Reactor.thy ===== *)
theory Multi_Reactor
  imports Threads
begin

text \<open>
  The server on several threads: \<open>TcpServer\<close> with \<open>SetThreadNum\<close>. The base loop accepts and hands each client to a
  loop of the pool, which takes it over in its next turn.
\<close>

section \<open>Handing a client to a loop\<close>

text \<open>A server whose pool has loops, all of other threads.\<close>

definition pool_ready :: "net \<Rightarrow> bool" where
  "pool_ready w \<longleftrightarrow> pool_invar (ts_pool (nt_server w)) \<and> tp_loops_pool (ts_pool (nt_server w)) \<noteq> [] \<and>
     (\<forall>l \<in> set (tp_loops_pool (ts_pool (nt_server w))). l \<noteq> el_thread_id w \<and> loop_slot l (nt_loops w) \<noteq> None) \<and>
     distinct (map (\<lambda>x. el_thread_id (fst x)) (nt_loops w)) \<and>
     map_sorted (nt_connection_map w) \<and> (\<forall>k a. map_find (nt_connection_map w) k = Some a \<longrightarrow> a < nt_fresh w)"

definition pending_conn :: "int \<Rightarrow> sockaddr_in \<Rightarrow> nat \<Rightarrow> net \<Rightarrow> tcp_connection" where
  "pending_conn fd addr l w = (new_conn fd addr w)\<lparr>tc_event_loop := l, tc_state := kConnecting\<rparr>"

definition idle_channel :: "int \<Rightarrow> nat \<Rightarrow> closure channel" where
  "idle_channel fd a = (Channel_new fd)\<lparr>ch_read_call_back := Some (OnRead a), ch_write_call_back := Some (OnWrite a),
     ch_close_call_back := Some (OnClose a), ch_error_call_back := Some (OnError a)\<rparr>"

text \<open>The effect of accepting, where the channel at \<open>h\<close> is the one accepting changes itself.\<close>

definition handed_over :: "nat \<Rightarrow> int \<Rightarrow> sockaddr_in \<Rightarrow> nat \<Rightarrow> nat \<Rightarrow> net \<Rightarrow> net \<Rightarrow> bool" where
  "handed_over h fd addr l i w w' \<longleftrightarrow>
     nt_conns w' = (nt_conns w)(nt_fresh w \<mapsto> pending_conn fd addr l w) \<and>
     (\<forall>k. k \<noteq> h \<longrightarrow> get_channel k w' = (if k = nt_fresh w + 1 then Some (idle_channel fd (nt_fresh w)) else get_channel k w)) \<and>
     nt_connection_map w' = map_insert (connection_name addr) (nt_fresh w) (nt_connection_map w) \<and>
     nt_loops w' = nt_loops (queue_at i (el_thread_id w) (DoEstablished (nt_fresh w)) w) \<and>
     nt_stack w' = nt_fresh w # nt_stack w \<and> nt_fresh w' = nt_fresh w + 2 \<and> nt_acceptor w' = nt_acceptor w \<and>
     el_poller w' = el_poller w \<and> el_thread_id w' = el_thread_id w \<and> el_pending_functors w' = el_pending_functors w \<and>
     el_quit_flag w' = el_quit_flag w"

lemma HandleConnection_hands_over:
  assumes ready: "pool_ready w" and free: "map_find (nt_connection_map w) (connection_name addr) = None"
    and l: "EventLoopThreadPool_NextLoop (ts_pool (nt_server w)) = Inr (l, p)" and i: "loop_slot l (nt_loops w) = Some i"
  shows "\<exists>w'. TcpServer_HandleConnection run fd addr w = Inr w' \<and> handed_over h fd addr l i w w' \<and>
     el_channels w' = (el_channels w)(nt_fresh w + 1 \<mapsto> idle_channel fd (nt_fresh w)) \<and>
     nt_server w' = (nt_server w)\<lparr>ts_pool := p\<rparr> \<and> nt_accept w' = nt_accept w"
proof -
  have "l \<in> set (tp_loops_pool (ts_pool (nt_server w)))"
    using l NextLoop_step [of "ts_pool (nt_server w)"] ready by (auto simp: pool_ready_def pool_invar_def intro!: nth_mem)
  then have ne: "l \<noteq> el_thread_id w" using ready by (auto simp: pool_ready_def)
  let ?m = "map_insert (connection_name addr) (nt_fresh w) (nt_connection_map w)"
  have v: "nt_fresh w \<in> snd ` set ?m"
    using ready by (auto simp: pool_ready_def in_values_iff map_sorted_insert map_of_map_insert)
  show ?thesis
    using l free ne i v ready
    by (simp add: TcpServer_HandleConnection_def TcpConnection_new_def Buffer_new_initial on_server_def Let_def hold_def
        on_conn_def with_conn_def put_conn_def put_channel_def Socket_SetKeepAlive_def sys_def run_in_loop_queues
        drop_hold_def collect_def conn_owned_def handed_over_def queue_at_def pending_conn_def new_conn_def idle_channel_def
        pool_ready_def get_channel_def)
qed

text \<open>The base loop, accepting.\<close>

definition base_ready :: "nat \<Rightarrow> net \<Rightarrow> bool" where
  "base_ready h w \<longleftrightarrow> pool_ready w \<and> el_quit_flag w = False \<and> el_pending_functors w = [] \<and>
     16 \<le> pl_events_size (el_poller w) \<and> ac_has_callback (nt_acceptor w) \<and> h < nt_fresh w \<and>
     (\<exists>ch. get_channel h w = Some ch \<and> ch_read_call_back ch = Some OnAccept)"

lemma pool_ready_cong:
  "nt_server w' = nt_server w \<Longrightarrow> nt_loops w' = nt_loops w \<Longrightarrow> nt_connection_map w' = nt_connection_map w \<Longrightarrow>
   nt_fresh w' = nt_fresh w \<Longrightarrow> el_thread_id w' = el_thread_id w \<Longrightarrow> pool_ready w' = pool_ready w"
  by (simp add: pool_ready_def)

lemma handed_over_ready:
  assumes "pool_ready w" "handed_over h fd addr l i w w'" "nt_server w' = (nt_server w)\<lparr>ts_pool := p\<rparr>"
    "EventLoopThreadPool_NextLoop (ts_pool (nt_server w)) = Inr (l, p)"
  shows "pool_ready w'"
proof -
  note e = assms(2) [unfolded handed_over_def]
  have "map (\<lambda>x. el_thread_id (fst x)) (nt_loops w') = map (\<lambda>x. el_thread_id (fst x)) (nt_loops w)" using e by simp
  moreover from this have "loop_slot k (nt_loops w') = loop_slot k (nt_loops w)" for k by (rule loop_slot_map)
  moreover have "a < nt_fresh w'" if "map_find (nt_connection_map w') k = Some a" for k a
  proof (cases "k = connection_name addr")
    case False
    then have "a < nt_fresh w" using that e assms(1) by (simp add: pool_ready_def map_of_map_insert)
    then show ?thesis using e by simp
  qed (use that e assms(1) in \<open>simp add: pool_ready_def map_of_map_insert\<close>)
  ultimately show ?thesis
    using e assms(1,3) NextLoop_invar [OF _ assms(4)]
    by (simp add: pool_ready_def map_sorted_insert)
qed

lemma base_accepts:
  assumes ready: "base_ready h w" and acc: "nt_accept w = Inr (fd, addr) # rest"
    and free: "map_find (nt_connection_map w) (connection_name addr) = None"
    and l: "EventLoopThreadPool_NextLoop (ts_pool (nt_server w)) = Inr (l, p)" and i: "loop_slot l (nt_loops w) = Some i"
  shows "\<exists>v. EventLoop_iteration (run_event user) drop_functors (Inr [(h, EPOLLIN)]) w = Inr v \<and> base_ready h v \<and>
     handed_over h fd addr l i w v \<and> nt_server v = (nt_server w)\<lparr>ts_pool := p\<rparr> \<and> nt_accept v = rest"
proof -
  note s = ready [unfolded base_ready_def]
  obtain ch where ch: "get_channel h w = Some ch" "ch_read_call_back ch = Some OnAccept" using s by blast
  let ?ch = "ch\<lparr>ch_trigger_events := EPOLLIN\<rparr>"
  define w1 where "w1 = (put_channel h ?ch (w\<lparr>el_active_channel_list := []\<rparr>))
       \<lparr>el_active_channel_list := [h], el_event_handling_flag := True\<rparr>"
  have "1 < pl_events_size (el_poller w)" using s by linarith
  note iter = iteration_one [OF ch(1) this w1_def, of "run_event user" drop_functors]
  let ?w1 = "put_channel h (?ch\<lparr>ch_event_handling := True\<rparr>) w1"
  define w2 where "w2 = sys (SysAccept fd) (?w1\<lparr>nt_accept := rest\<rparr>)"
  have same: "nt_fresh w2 = nt_fresh w" "nt_conns w2 = nt_conns w" "nt_stack w2 = nt_stack w"
    "nt_connection_map w2 = nt_connection_map w" "el_poller w2 = el_poller w" "nt_acceptor w2 = nt_acceptor w"
    "nt_server w2 = nt_server w" "nt_accept w2 = rest" "nt_loops w2 = nt_loops w" "el_thread_id w2 = el_thread_id w"
    "el_quit_flag w2 = False" "el_pending_functors w2 = []" "nt_junk w2 = nt_junk w"
    "k \<noteq> h \<Longrightarrow> get_channel k w2 = get_channel k w"
    "get_channel h w2 = Some (?ch\<lparr>ch_event_handling := True\<rparr>)" for k
    using s by (simp_all add: w2_def w1_def sys_def put_channel_def get_channel_def)
  have ready2: "pool_ready w2" using s by (subst pool_ready_cong [of _ w]) (simp_all add: same)
  obtain w3 where w3: "TcpServer_HandleConnection (run_task user) fd addr w2 = Inr w3" "handed_over h fd addr l i w2 w3"
    "el_channels w3 = (el_channels w2)(nt_fresh w2 + 1 \<mapsto> idle_channel fd (nt_fresh w2))"
    "nt_server w3 = (nt_server w2)\<lparr>ts_pool := p\<rparr>" "nt_accept w3 = nt_accept w2"
    using HandleConnection_hands_over [OF ready2, of addr l p i "run_task user" fd h] free l i by (auto simp: same)
  have acc1: "nt_accept ?w1 = Inr (fd, addr) # rest" "ac_has_callback (nt_acceptor w2)"
    using acc s by (simp_all add: put_channel_def w1_def same)
  have run: "run_event user OnAccept ?w1 = Inr w3"
    using acc1 w3(1) by (simp add: Acceptor_HandleReadEvent_def next_accept_def accepted_fd_def Let_def flip: w2_def)
  have get1: "get_channel h w1 = Some ?ch" "get_channel h ?w1 = Some (?ch\<lparr>ch_event_handling := True\<rparr>)"
    by (simp_all add: get_channel_def put_channel_def w1_def)
  have "h \<noteq> nt_fresh w2 + 1" using s by (simp add: same)
  then have get3: "get_channel h w3 = Some (?ch\<lparr>ch_event_handling := True\<rparr>)"
    using same(15) by (simp add: get_channel_def w3(3))
  let ?v = "(put_channel h (?ch\<lparr>ch_event_handling := False\<rparr>) w3)\<lparr>el_event_handling_flag := False, el_pending_functors := []\<rparr>"
  note e = w3(2) [unfolded handed_over_def same]
  have "EventLoop_iteration (run_event user) drop_functors (Inr [(h, EPOLLIN)]) w = Inr ?v"
    unfolding iter using e get1 get3 ch run
    by (simp add: Channel_HandleEvent_def Channel_set_event_handling_def with_channel_def call_back_def
        EventLoop_DoPendingFunctors_def EventLoop_take_functors_def drop_functors_def)
      (simp add: get_channel_def put_channel_def drop_functors_def)
  moreover have "handed_over h fd addr l i w ?v"
    using e same(14) s by (simp add: handed_over_def put_channel_def get_channel_def pending_conn_def new_conn_def same queue_at_def)
  moreover have "pool_ready w3" by (rule handed_over_ready [OF ready2 w3(2,4)]) (simp add: same l)
  then have "base_ready h ?v"
    using s e ch by (simp add: base_ready_def put_channel_def get_channel_def pool_ready_def)
  ultimately show ?thesis using w3(4,5) by (intro exI [of _ ?v]) (simp add: put_channel_def same)
qed

text \<open>The loop the pool assigns to the \<open>k\<close>-th client from now on.\<close>

definition assigned_loop :: "nat loop_pool \<Rightarrow> nat \<Rightarrow> nat" where
  "assigned_loop p k = tp_loops_pool p ! ((nat (tp_next p) + k) mod length (tp_loops_pool p))"

lemma assigned_step:
  assumes "pool_invar p" "tp_loops_pool p \<noteq> []"
  obtains p' where "EventLoopThreadPool_NextLoop p = Inr (assigned_loop p 0, p')"
    "\<And>k. assigned_loop p' k = assigned_loop p (Suc k)"
proof -
  let ?n = "length (tp_loops_pool p)" and ?i = "nat (tp_next p)"
  have "?i mod ?n = ?i" using assms by (auto simp: pool_invar_def)
  define j where "j = (?i + 1) mod ?n"
  have "EventLoopThreadPool_NextLoop p = Inr (assigned_loop p 0, p\<lparr>tp_next := int j\<rparr>)"
    using NextLoop_step [OF assms] \<open>?i mod ?n = ?i\<close> by (simp add: assigned_loop_def j_def)
  moreover have "(j + k) mod ?n = (?i + Suc k) mod ?n" for k by (simp add: j_def mod_simps)
  then have "assigned_loop (p\<lparr>tp_next := int j\<rparr>) k = assigned_loop p (Suc k)" for k by (simp add: assigned_loop_def)
  ultimately show ?thesis by (rule that)
qed

lemma assigned_in: "tp_loops_pool p \<noteq> [] \<Longrightarrow> assigned_loop p k \<in> set (tp_loops_pool p)"
  by (simp add: assigned_loop_def)

text \<open>A client that is waiting for its loop.\<close>

definition waiting :: "nat \<Rightarrow> int \<Rightarrow> sockaddr_in \<Rightarrow> nat \<Rightarrow> net \<Rightarrow> bool" where
  "waiting a fd addr l w \<longleftrightarrow> (\<exists>c. nt_conns w a = Some c \<and> tc_event_loop c = l \<and> tc_state c = kConnecting \<and>
     tc_socket c = fd \<and> tc_client_addr c = addr \<and> tc_name c = connection_name addr \<and> tc_channel c = a + 1 \<and>
     tc_connection_cb c = ts_connection_cb (nt_server w) \<and> tc_close_cb c = Some ServerRemove) \<and>
     get_channel (a + 1) w = Some (idle_channel fd a) \<and> map_find (nt_connection_map w) (connection_name addr) = Some a"

lemma spread:
  "base_ready h w \<Longrightarrow> nt_accept w = map Inr clients @ rest \<Longrightarrow>
    distinct (map (\<lambda>x. connection_name (snd x)) clients) \<Longrightarrow>
    \<forall>x \<in> set clients. map_find (nt_connection_map w) (connection_name (snd x)) = None \<Longrightarrow>
    \<exists>v. thread_run user (replicate (length clients) (Turn (el_thread_id w) (Inr [(h, EPOLLIN)]))) w = Inr v \<and>
      base_ready h v \<and> nt_fresh v = nt_fresh w + 2 * length clients \<and> el_poller v = el_poller w \<and>
      el_thread_id v = el_thread_id w \<and> ts_connection_cb (nt_server v) = ts_connection_cb (nt_server w) \<and>
      (\<forall>k < length clients. waiting (nt_fresh w + 2 * k) (fst (clients ! k)) (snd (clients ! k))
        (assigned_loop (ts_pool (nt_server w)) k) v) \<and>
      (\<forall>b < nt_fresh w. nt_conns v b = nt_conns w b \<and> (b \<noteq> h \<longrightarrow> get_channel b v = get_channel b w)) \<and>
      (\<forall>n. n \<notin> (\<lambda>x. connection_name (snd x)) ` set clients \<longrightarrow>
        map_find (nt_connection_map v) n = map_find (nt_connection_map w) n) \<and>
      length (nt_loops v) = length (nt_loops w) \<and>
      (\<forall>i < length (nt_loops w). quiet (fst (nt_loops v ! i)) = quiet (fst (nt_loops w ! i)) \<and>
        snd (nt_loops v ! i) = snd (nt_loops w ! i) \<and>
        (let ks = filter (\<lambda>k. assigned_loop (ts_pool (nt_server w)) k = el_thread_id (fst (nt_loops w ! i))) [0..<length clients]
         in el_pending_functors (fst (nt_loops v ! i)) = el_pending_functors (fst (nt_loops w ! i)) @
              map (\<lambda>k. DoEstablished (nt_fresh w + 2 * k)) ks \<and>
            el_wakeup_count (fst (nt_loops v ! i)) = el_wakeup_count (fst (nt_loops w ! i)) + length ks))"
proof (induction clients arbitrary: w)
  case Nil
  then show ?case by simp
next
  case (Cons x cs)
  obtain fd addr where x: "x = (fd, addr)" by (cases x)
  note r = Cons.prems(1) [unfolded base_ready_def]
  let ?p = "ts_pool (nt_server w)" and ?l = "assigned_loop (ts_pool (nt_server w)) 0"
  have inv: "pool_invar ?p" "tp_loops_pool ?p \<noteq> []" using r by (auto simp: pool_ready_def)
  obtain p' where p': "EventLoopThreadPool_NextLoop ?p = Inr (?l, p')" "\<And>k. assigned_loop p' k = assigned_loop ?p (Suc k)"
    using assigned_step [OF inv] by blast
  obtain j where j: "loop_slot ?l (nt_loops w) = Some j" "?l \<noteq> el_thread_id w"
    using r assigned_in [OF inv(2), of 0] by (auto simp: pool_ready_def)
  have acc: "nt_accept w = Inr (fd, addr) # map Inr cs @ rest" using Cons.prems(2) x by simp
  have free: "map_find (nt_connection_map w) (connection_name addr) = None" using Cons.prems(4) x by simp
  obtain v where v: "EventLoop_iteration (run_event user) drop_functors (Inr [(h, EPOLLIN)]) w = Inr v" "base_ready h v"
    "handed_over h fd addr ?l j w v" "nt_server v = (nt_server w)\<lparr>ts_pool := p'\<rparr>" "nt_accept v = map Inr cs @ rest"
    using base_accepts [where user = user, OF Cons.prems(1) acc free p'(1) j(1)] by blast
  note e = v(3) [unfolded handed_over_def]
  have "\<forall>x \<in> set cs. map_find (nt_connection_map v) (connection_name (snd x)) = None"
    using Cons.prems(3,4) e x by (auto simp: map_of_map_insert image_iff)
  from Cons.IH [OF v(2,5) _ this] Cons.prems(3) obtain u where
    u: "thread_run user (replicate (length cs) (Turn (el_thread_id v) (Inr [(h, EPOLLIN)]))) v = Inr u"
      "base_ready h u" "nt_fresh u = nt_fresh v + 2 * length cs" "el_poller u = el_poller v"
      "el_thread_id u = el_thread_id v" "ts_connection_cb (nt_server u) = ts_connection_cb (nt_server v)"
    and wait: "\<And>k. k < length cs \<Longrightarrow> waiting (nt_fresh v + 2 * k) (fst (cs ! k)) (snd (cs ! k)) (assigned_loop p' k) u"
    and old: "\<And>b. b < nt_fresh v \<Longrightarrow> nt_conns u b = nt_conns v b \<and> (b \<noteq> h \<longrightarrow> get_channel b u = get_channel b v)"
    and names: "\<And>n. n \<notin> (\<lambda>x. connection_name (snd x)) ` set cs \<Longrightarrow> map_find (nt_connection_map u) n = map_find (nt_connection_map v) n"
    and len: "length (nt_loops u) = length (nt_loops v)"
    and loops: "\<And>i. i < length (nt_loops v) \<Longrightarrow> quiet (fst (nt_loops u ! i)) = quiet (fst (nt_loops v ! i)) \<and>
        snd (nt_loops u ! i) = snd (nt_loops v ! i) \<and>
        (let ks = filter (\<lambda>k. assigned_loop p' k = el_thread_id (fst (nt_loops v ! i))) [0..<length cs]
         in el_pending_functors (fst (nt_loops u ! i)) = el_pending_functors (fst (nt_loops v ! i)) @
              map (\<lambda>k. DoEstablished (nt_fresh v + 2 * k)) ks \<and>
            el_wakeup_count (fst (nt_loops u ! i)) = el_wakeup_count (fst (nt_loops v ! i)) + length ks)"
    unfolding v(4) by auto
  have fresh: "nt_fresh v = nt_fresh w + 2" using e by blast
  have nh: "nt_fresh w + 1 \<noteq> h" using r by auto
  have new: "waiting (nt_fresh w) fd addr ?l u"
  proof -
    have "connection_name addr \<notin> (\<lambda>x. connection_name (snd x)) ` set cs" using Cons.prems(3) x by auto
    with e nh r old [of "nt_fresh w"] old [of "nt_fresh w + 1"] names [of "connection_name addr"] show ?thesis
      by (simp add: waiting_def fresh pending_conn_def new_conn_def Let_def map_of_map_insert pool_ready_def u(6) v(4))
  qed
  have "waiting (nt_fresh w + 2 * k) (fst ((x # cs) ! k)) (snd ((x # cs) ! k)) (assigned_loop ?p k) u"
    if "k < length (x # cs)" for k
    using new wait [of "k - 1"] that x p'(2) fresh by (cases k) auto
  moreover have "nt_conns u b = nt_conns w b \<and> (b \<noteq> h \<longrightarrow> get_channel b u = get_channel b w)" if "b < nt_fresh w" for b
    using old [of b] e that fresh by auto
  moreover have "map_find (nt_connection_map u) n = map_find (nt_connection_map w) n"
    if "n \<notin> (\<lambda>x. connection_name (snd x)) ` set (x # cs)" for n
    using names [of n] that e r x by (auto simp: map_of_map_insert pool_ready_def)
  moreover have "quiet (fst (nt_loops u ! i)) = quiet (fst (nt_loops w ! i)) \<and> snd (nt_loops u ! i) = snd (nt_loops w ! i) \<and>
        (let ks = filter (\<lambda>k. assigned_loop ?p k = el_thread_id (fst (nt_loops w ! i))) [0..<length (x # cs)]
         in el_pending_functors (fst (nt_loops u ! i)) = el_pending_functors (fst (nt_loops w ! i)) @
              map (\<lambda>k. DoEstablished (nt_fresh w + 2 * k)) ks \<and>
            el_wakeup_count (fst (nt_loops u ! i)) = el_wakeup_count (fst (nt_loops w ! i)) + length ks)"
    if i: "i < length (nt_loops w)" for i
  proof -
    note js = loop_slot_Some [OF j(1)]
    have v_loops: "nt_loops v = nt_loops (queue_at j (el_thread_id w) (DoEstablished (nt_fresh w)) w)" using e by blast
    have tid: "el_thread_id (fst (nt_loops w ! j)) \<noteq> el_thread_id w" using js j(2) by simp
    note q = queue_at_nth [OF conjunct1 [OF js] i tid, of "DoEstablished (nt_fresh w)", folded v_loops]
    have id: "el_thread_id (fst (nt_loops v ! i)) = el_thread_id (fst (nt_loops w ! i))"
      using arg_cong [OF q(2), of el_thread_id] by (simp add: quiet_def)
    have same: "i = j \<longleftrightarrow> ?l = el_thread_id (fst (nt_loops w ! i))"
      using js i r nth_eq_iff_index_eq [of "map (\<lambda>x. el_thread_id (fst x)) (nt_loops w)" i j]
      by (auto simp: pool_ready_def)
    have iv: "i < length (nt_loops v)" using i by (simp add: v_loops)
    have upt: "[0..<length (x # cs)] = 0 # map Suc [0..<length cs]" by (simp add: map_Suc_upt upt_conv_Cons del: upt_Suc)
    show ?thesis
      using loops [of i] iv q same
      unfolding upt by (auto simp: id p'(2) fresh Let_def filter_map comp_def)
  qed
  moreover have "take_turn user (el_thread_id w) (Inr [(h, EPOLLIN)]) w = Inr v"
    using v(1,2) r by (simp add: take_turn_def EventLoop_Loop_while.simps base_ready_def)
  then have "thread_run user (replicate (length (x # cs)) (Turn (el_thread_id w) (Inr [(h, EPOLLIN)]))) w = Inr u"
    using u(1) e by simp
  moreover have "length (nt_loops u) = length (nt_loops w)" using len e by simp
  ultimately show ?case
    using u(2-6) e v(4) fresh by (intro exI [of _ u]) simp
qed

section \<open>The turn of a serving loop\<close>

text \<open>A client that is served by the running loop.\<close>

definition serving :: "nat \<Rightarrow> int \<Rightarrow> sockaddr_in \<Rightarrow> nat \<Rightarrow> net \<Rightarrow> bool" where
  "serving a fd addr l w \<longleftrightarrow> (\<exists>c. nt_conns w a = Some c \<and> tc_event_loop c = l \<and> tc_state c = kConnected \<and>
     tc_socket c = fd \<and> tc_client_addr c = addr \<and> tc_name c = connection_name addr \<and> tc_channel c = a + 1 \<and>
     tc_close_cb c = Some ServerRemove) \<and>
     get_channel (a + 1) w = Some (new_channel fd a) \<and> map_find (nt_connection_map w) (connection_name addr) = Some a"

lemma establish_one:
  assumes wait: "waiting a fd addr (el_thread_id w) w" and cb: "ts_connection_cb (nt_server w) = Some UserConnection"
    and free: "map_find (pl_channels_map (el_poller w)) fd = None" and user: "\<And>a w. user UserConnection a w = Inr w"
  shows "\<exists>c. run_event user (DoEstablished a) w = Inr (w\<lparr>nt_conns := (nt_conns w)(a \<mapsto> c),
      el_channels := (el_channels w)(a + 1 \<mapsto> new_channel fd a),
      el_poller := EpollPoller_AddChannel (a + 1) (new_channel fd a) (el_poller w)\<rparr>) \<and>
    serving a fd addr (el_thread_id w) (w\<lparr>nt_conns := (nt_conns w)(a \<mapsto> c),
      el_channels := (el_channels w)(a + 1 \<mapsto> new_channel fd a)\<rparr>)"
proof -
  obtain c where c: "nt_conns w a = Some c" "tc_event_loop c = el_thread_id w" "tc_channel c = a + 1"
    "tc_connection_cb c = Some UserConnection" "tc_socket c = fd" "tc_client_addr c = addr" "tc_name c = connection_name addr"
    "tc_close_cb c = Some ServerRemove"
    using wait cb by (auto simp: waiting_def)
  have ch: "get_channel (a + 1) w = Some (idle_channel fd a)" and name: "map_find (nt_connection_map w) (connection_name addr) = Some a"
    using wait by (auto simp: waiting_def)
  let ?c = "c\<lparr>tc_state := kConnected\<rparr>"
  have new: "(Channel_EnableReading (idle_channel fd a))\<lparr>ch_run_in_loop_flag := True\<rparr> = new_channel fd a"
    "ch_fd (Channel_EnableReading (idle_channel fd a)) = fd"
    by (simp_all add: new_channel_def idle_channel_def Channel_EnableReading_def Channel_new_def)
  have own: "a \<in> snd ` set (nt_connection_map w)" using map_of_SomeD [OF name] by force
  have "run_event user (DoEstablished a) w = Inr (w\<lparr>nt_conns := (nt_conns w)(a \<mapsto> ?c),
      el_channels := (el_channels w)(a + 1 \<mapsto> new_channel fd a),
      el_poller := EpollPoller_AddChannel (a + 1) (new_channel fd a) (el_poller w)\<rparr>)"
    using c ch own free user new
    by (simp add: TcpConnection_ConnectionEstablished_def on_conn_def with_conn_def put_conn_def on_channel_def
        with_channel_def get_channel_def put_channel_def register_channel_def registered_def release_channel_def
        EventLoop_AddChannel_def shared_call_def conn_owned_def hold_def drop_hold_def collect_def)
  moreover have "serving a fd addr (el_thread_id w) (w\<lparr>nt_conns := (nt_conns w)(a \<mapsto> ?c),
      el_channels := (el_channels w)(a + 1 \<mapsto> new_channel fd a)\<rparr>)"
    using c name by (simp add: serving_def get_channel_def)
  ultimately show ?thesis by blast
qed

text \<open>The clients a loop has been given, as address, descriptor and peer.\<close>

type_synonym client = "nat \<times> int \<times> sockaddr_in"
definition same_rest :: "net \<Rightarrow> net \<Rightarrow> bool" where
  "same_rest w v \<longleftrightarrow> nt_connection_map v = nt_connection_map w \<and> nt_stack v = nt_stack w \<and> nt_loops v = nt_loops w \<and>
     nt_server v = nt_server w \<and> nt_acceptor v = nt_acceptor w \<and> nt_fresh v = nt_fresh w \<and> nt_request v = nt_request w \<and>
     el_thread_id v = el_thread_id w \<and> el_pending_functors v = el_pending_functors w \<and> el_quit_flag v = el_quit_flag w \<and>
     el_wakeup_channel v = el_wakeup_channel w \<and> el_timer_channel v = el_timer_channel w \<and>
     nt_calls v = nt_calls w \<and> el_wakeup_count v = el_wakeup_count w \<and> pl_events_size (el_poller v) = pl_events_size (el_poller w)"

definition establishes :: "client list \<Rightarrow> net \<Rightarrow> net \<Rightarrow> bool" where
  "establishes cs w v \<longleftrightarrow>
     (\<forall>(a, fd, addr) \<in> set cs. serving a fd addr (el_thread_id w) v \<and>
       map_find (pl_channels_map (el_poller v)) fd = Some (a + 1)) \<and>
     (\<forall>b. b \<notin> fst ` set cs \<longrightarrow> nt_conns v b = nt_conns w b) \<and>
     (\<forall>h. h \<notin> Suc ` fst ` set cs \<longrightarrow> get_channel h v = get_channel h w) \<and>
     (\<forall>fd. fd \<notin> (fst \<circ> snd) ` set cs \<longrightarrow>
       map_find (pl_channels_map (el_poller v)) fd = map_find (pl_channels_map (el_poller w)) fd)"

lemma establish_all:
  assumes user: "\<And>a w. user UserConnection a w = Inr w"
  shows "\<forall>(a, fd, addr) \<in> set cs. waiting a fd addr (el_thread_id w) w \<and>
      map_find (pl_channels_map (el_poller w)) fd = None \<Longrightarrow>
    distinct (map fst cs) \<Longrightarrow> distinct (map (fst \<circ> snd) cs) \<Longrightarrow>
    ts_connection_cb (nt_server w) = Some UserConnection \<Longrightarrow> map_sorted (pl_channels_map (el_poller w)) \<Longrightarrow>
    \<exists>v. run_seq (run_event user) (map (\<lambda>x. DoEstablished (fst x)) cs) w = Inr v \<and> establishes cs w v \<and>
      same_rest w v \<and> map_sorted (pl_channels_map (el_poller v))"
proof (induction cs arbitrary: w)
  case Nil
  then show ?case by (simp add: establishes_def same_rest_def)
next
  case (Cons x cs)
  obtain a fd addr where x: "x = (a, fd, addr)" by (cases x)
  have wait: "waiting a fd addr (el_thread_id w) w" "map_find (pl_channels_map (el_poller w)) fd = None"
    using Cons.prems(1) x by auto
  obtain c where c: "run_event user (DoEstablished a) w = Inr (w\<lparr>nt_conns := (nt_conns w)(a \<mapsto> c),
      el_channels := (el_channels w)(a + 1 \<mapsto> new_channel fd a),
      el_poller := EpollPoller_AddChannel (a + 1) (new_channel fd a) (el_poller w)\<rparr>)" (is "_ = Inr ?v")
    and serve: "serving a fd addr (el_thread_id w) (w\<lparr>nt_conns := (nt_conns w)(a \<mapsto> c),
      el_channels := (el_channels w)(a + 1 \<mapsto> new_channel fd a)\<rparr>)"
    using establish_one [where user = user, OF wait(1) Cons.prems(4) wait(2) user] by blast
  have table: "pl_channels_map (el_poller ?v) = map_insert fd (a + 1) (pl_channels_map (el_poller w))"
    and rest: "same_rest w ?v"
    by (simp_all add: EpollPoller_AddChannel_def EpollPoller_Update_def new_channel_fd Let_def same_rest_def)
  have keep: "waiting b fd' addr' (el_thread_id ?v) ?v \<and> map_find (pl_channels_map (el_poller ?v)) fd' = None"
    if "(b, fd', addr') \<in> set cs" for b fd' addr'
  proof -
    have "b \<noteq> a" "fd' \<noteq> fd" "waiting b fd' addr' (el_thread_id w) w" "map_find (pl_channels_map (el_poller w)) fd' = None"
      using that Cons.prems(1-3) x by force+
    then show ?thesis
      using Cons.prems(5) unfolding table(1) by (simp add: waiting_def get_channel_def map_of_map_insert)
  qed
  have sorted: "map_sorted (pl_channels_map (el_poller ?v))"
    using Cons.prems(5) unfolding table(1) by (simp add: map_sorted_insert)
  have "\<forall>(b, fd', addr') \<in> set cs. waiting b fd' addr' (el_thread_id ?v) ?v \<and>
      map_find (pl_channels_map (el_poller ?v)) fd' = None" using keep by blast
  from Cons.IH [OF this _ _ _ sorted] Cons.prems(2-4) obtain u where
    u: "run_seq (run_event user) (map (\<lambda>x. DoEstablished (fst x)) cs) ?v = Inr u" "establishes cs ?v u"
      "same_rest ?v u" "map_sorted (pl_channels_map (el_poller u))" by auto
  note e = u(2) [unfolded establishes_def]
  have a: "a \<notin> fst ` set cs" "a + 1 \<notin> Suc ` fst ` set cs" "fd \<notin> (fst \<circ> snd) ` set cs" using Cons.prems(2,3) x by auto
  have v: "nt_conns ?v = (nt_conns w)(a \<mapsto> c)" "get_channel h ?v = (if h = a + 1 then Some (new_channel fd a) else get_channel h w)"
    "nt_connection_map ?v = nt_connection_map w" "el_thread_id ?v = el_thread_id w" for h
    by (simp_all add: get_channel_def)
  have "serving a fd addr (el_thread_id w) u"
    using serve e a u(3) by (simp add: serving_def v same_rest_def) (simp add: get_channel_def)
  moreover have "map_find (pl_channels_map (el_poller u)) fd = Some (a + 1)"
    using e a(3) Cons.prems(5) unfolding table by (simp add: map_of_map_insert)
  ultimately have "establishes (x # cs) w u"
    using e Cons.prems(5) unfolding establishes_def v table by (auto simp: x map_of_map_insert)
  moreover have "same_rest w u" using u(3) rest unfolding same_rest_def by metis
  moreover have "run_seq (run_event user) (map (\<lambda>x. DoEstablished (fst x)) (x # cs)) w = Inr u"
    using c u(1) x by simp
  ultimately show ?case using u(4) by blast
qed

text \<open>What the functors held is released, and the table still owns the connections.\<close>

lemma drops_owned:
  "\<forall>a \<in> set as. a \<in> snd ` set (nt_connection_map w) \<Longrightarrow>
   run_seq drop_hold as w = Inr (w\<lparr>nt_stack := fold remove1 as (nt_stack w)\<rparr>)"
  by (induction as arbitrary: w) (auto simp: drop_hold_def collect_def conn_owned_def)

text \<open>The round of a loop that was woken up with clients to take over. \<open>wa\<close> is its wakeup channel.\<close>

definition takes_over :: "nat \<Rightarrow> client list \<Rightarrow> net \<Rightarrow> net \<Rightarrow> bool" where
  "takes_over wa cs w v \<longleftrightarrow>
     (\<forall>(a, fd, addr) \<in> set cs. serving a fd addr (el_thread_id w) v \<and>
       map_find (pl_channels_map (el_poller v)) fd = Some (a + 1)) \<and>
     (\<forall>b. b \<notin> fst ` set cs \<longrightarrow> nt_conns v b = nt_conns w b) \<and>
     (\<forall>h. h \<noteq> wa \<and> h \<notin> Suc ` fst ` set cs \<longrightarrow> get_channel h v = get_channel h w) \<and>
     nt_connection_map v = nt_connection_map w \<and> nt_server v = nt_server w \<and> nt_loops v = nt_loops w \<and>
     nt_acceptor v = nt_acceptor w \<and> nt_fresh v = nt_fresh w \<and> nt_request v = nt_request w \<and>
     el_thread_id v = el_thread_id w \<and> el_pending_functors v = [] \<and> el_wakeup_count v = 0 \<and> el_quit_flag v = False \<and>
     nt_stack v = fold remove1 (map fst cs) (nt_stack w)"

text \<open>What the wakeup event changes; \<open>wa\<close> is the wakeup channel.\<close>

definition woken :: "nat \<Rightarrow> net \<Rightarrow> net \<Rightarrow> bool" where
  "woken wa w v \<longleftrightarrow> (\<forall>h. h \<noteq> wa \<longrightarrow> get_channel h v = get_channel h w) \<and> el_wakeup_count v = 0 \<and>
     nt_conns v = nt_conns w \<and> nt_connection_map v = nt_connection_map w \<and> nt_server v = nt_server w \<and>
     nt_loops v = nt_loops w \<and> nt_acceptor v = nt_acceptor w \<and> nt_fresh v = nt_fresh w \<and> nt_request v = nt_request w \<and>
     nt_stack v = nt_stack w \<and> nt_calls v = nt_calls w \<and> el_thread_id v = el_thread_id w \<and> el_quit_flag v = el_quit_flag w \<and>
     el_poller v = el_poller w \<and> el_pending_functors v = el_pending_functors w \<and>
     el_wakeup_channel v = el_wakeup_channel w \<and> el_timer_channel v = el_timer_channel w"

lemma wakeup_handled:
  assumes "get_channel wa w = Some ch" "ch_read_call_back ch = Some OnWakeup" "1 < pl_events_size (el_poller w)"
  shows "\<exists>v. EventLoop_handle_events (run_event user) (Inr [(wa, EPOLLIN)]) w = Inr v \<and> woken wa w v"
proof -
  let ?ch = "ch\<lparr>ch_trigger_events := EPOLLIN\<rparr>"
  define w1 where "w1 = (put_channel wa ?ch (w\<lparr>el_active_channel_list := []\<rparr>))
       \<lparr>el_active_channel_list := [wa], el_event_handling_flag := True\<rparr>"
  define v where "v = (put_channel wa (?ch\<lparr>ch_event_handling := False\<rparr>) (w1\<lparr>el_wakeup_count := 0\<rparr>))\<lparr>el_event_handling_flag := False\<rparr>"
  have "Channel_HandleEvent get_channel put_channel (run_event user) wa w1 =
      Inr (put_channel wa (?ch\<lparr>ch_event_handling := False\<rparr>) (w1\<lparr>el_wakeup_count := 0\<rparr>))"
    using assms by (simp add: Channel_HandleEvent_def Channel_set_event_handling_def with_channel_def call_back_def w1_def
        get_channel_def put_channel_def EventLoop_HandleWakeUpEvent_def)
  then have "EventLoop_handle_events (run_event user) (Inr [(wa, EPOLLIN)]) w = Inr v"
    using handle_one [OF assms(1,3) w1_def, of "run_event user"]
    by (simp add: v_def with_channel_def) (simp add: get_channel_def put_channel_def)
  moreover have "woken wa w v" by (simp add: woken_def v_def w1_def put_channel_def get_channel_def)
  ultimately show ?thesis by blast
qed

lemma wakeup_round:
  assumes user: "\<And>a w. user UserConnection a w = Inr w"
    and wch: "get_channel wa w = Some ch" "ch_read_call_back ch = Some OnWakeup" "wa \<notin> Suc ` fst ` set cs"
    and loop: "el_quit_flag w = False" "1 < pl_events_size (el_poller w)" "map_sorted (pl_channels_map (el_poller w))"
    and fs: "el_pending_functors w = map (\<lambda>x. DoEstablished (fst x)) cs"
    and cs: "\<forall>(a, fd, addr) \<in> set cs. waiting a fd addr (el_thread_id w) w \<and>
      map_find (pl_channels_map (el_poller w)) fd = None" "distinct (map fst cs)" "distinct (map (fst \<circ> snd) cs)"
    and cb: "ts_connection_cb (nt_server w) = Some UserConnection"
  shows "\<exists>v. EventLoop_Loop_while (run_event user) drop_functors [Inr [(wa, EPOLLIN)]] w = Inr v \<and> takes_over wa cs w v"
proof -
  obtain x where x: "EventLoop_handle_events (run_event user) (Inr [(wa, EPOLLIN)]) w = Inr x" "woken wa w x"
    using wakeup_handled [where user = user, OF wch(1,2) loop(2)] by blast
  note k = x(2) [unfolded woken_def]
  define w2 where "w2 = x\<lparr>el_pending_functors := []\<rparr>"
  have w2: "nt_conns w2 = nt_conns w" "nt_connection_map w2 = nt_connection_map w" "nt_server w2 = nt_server w"
    "nt_loops w2 = nt_loops w" "nt_acceptor w2 = nt_acceptor w" "nt_fresh w2 = nt_fresh w" "nt_request w2 = nt_request w"
    "el_thread_id w2 = el_thread_id w" "el_pending_functors w2 = []" "el_quit_flag w2 = el_quit_flag w"
    "nt_stack w2 = nt_stack w" "el_poller w2 = el_poller w" "el_wakeup_count w2 = 0"
    "h \<noteq> wa \<Longrightarrow> get_channel h w2 = get_channel h w" for h
    using k by (simp_all add: w2_def) (simp add: get_channel_def)
  have keep: "waiting a fd addr (el_thread_id w2) w2 \<and> map_find (pl_channels_map (el_poller w2)) fd = None"
    if "(a, fd, addr) \<in> set cs" for a fd addr
  proof -
    have "a + 1 \<noteq> wa" using that wch(3) by force
    moreover have "waiting a fd addr (el_thread_id w) w" "map_find (pl_channels_map (el_poller w)) fd = None"
      using cs(1) that by fast+
    ultimately show ?thesis by (simp add: waiting_def w2)
  qed
  then have keeps: "\<forall>(a, fd, addr) \<in> set cs. waiting a fd addr (el_thread_id w2) w2 \<and>
      map_find (pl_channels_map (el_poller w2)) fd = None" by blast
  have sorted: "map_sorted (pl_channels_map (el_poller w2))" and cb2: "ts_connection_cb (nt_server w2) = Some UserConnection"
    using loop(3) cb by (simp_all add: w2)
  obtain v where v: "run_seq (run_event user) (map (\<lambda>x. DoEstablished (fst x)) cs) w2 = Inr v" "establishes cs w2 v"
    "same_rest w2 v" "map_sorted (pl_channels_map (el_poller v))"
    using establish_all [where user = user, OF user keeps cs(2,3) cb2 sorted] by blast
  note e = v(2) [unfolded establishes_def w2] and r = v(3) [unfolded same_rest_def w2]
  have "\<forall>a \<in> set (map fst cs). a \<in> snd ` set (nt_connection_map v)"
  proof
    fix a assume "a \<in> set (map fst cs)"
    then obtain fd addr where "(a, fd, addr) \<in> set cs" by force
    then have "map_find (nt_connection_map w) (connection_name addr) = Some a" using cs(1) by (force simp: waiting_def)
    from map_of_SomeD [OF this] show "a \<in> snd ` set (nt_connection_map v)" using r by force
  qed
  from drops_owned [OF this] have drops: "drop_functors (map (\<lambda>x. DoEstablished (fst x)) cs) v =
      Inr (v\<lparr>nt_stack := fold remove1 (map fst cs) (nt_stack v)\<rparr>)" (is "_ = Inr ?v")
    by (simp add: drop_functors_def comp_def)
  have "EventLoop_iteration (run_event user) drop_functors (Inr [(wa, EPOLLIN)]) w = Inr ?v"
    using x(1) v(1) drops fs k
    by (simp add: EventLoop_iteration_def EventLoop_DoPendingFunctors_def EventLoop_take_functors_def w2_def)
  then have "EventLoop_Loop_while (run_event user) drop_functors [Inr [(wa, EPOLLIN)]] w = Inr ?v"
    using loop(1) r by (simp add: EventLoop_Loop_while.simps)
  moreover have "takes_over wa cs w ?v"
    using e r loop(1) w2(14) unfolding takes_over_def by (auto simp: serving_def get_channel_def)
  ultimately show ?thesis by blast
qed

section \<open>A turn, seen from the base loop\<close>

definition turn_effect :: "nat \<Rightarrow> nat \<Rightarrow> client list \<Rightarrow> net \<Rightarrow> net \<Rightarrow> bool" where
  "turn_effect i wa cs v u \<longleftrightarrow>
     (\<forall>(a, fd, addr) \<in> set cs. serving a fd addr (el_thread_id (fst (nt_loops v ! i))) u \<and>
       map_find (pl_channels_map (el_poller (fst (nt_loops u ! i)))) fd = Some (a + 1)) \<and>
     (\<forall>b. b \<notin> fst ` set cs \<longrightarrow> nt_conns u b = nt_conns v b) \<and>
     (\<forall>h. h \<noteq> wa \<and> h \<notin> Suc ` fst ` set cs \<longrightarrow> get_channel h u = get_channel h v) \<and>
     nt_connection_map u = nt_connection_map v \<and> nt_server u = nt_server v \<and>
     nt_acceptor u = nt_acceptor v \<and> nt_fresh u = nt_fresh v \<and> nt_request u = nt_request v \<and>
     el_thread_id u = el_thread_id v \<and> el_pending_functors u = el_pending_functors v \<and> el_poller u = el_poller v \<and>
     el_quit_flag u = el_quit_flag v \<and>
     length (nt_loops u) = length (nt_loops v) \<and> (\<forall>j. j \<noteq> i \<longrightarrow> nt_loops u ! j = nt_loops v ! j) \<and>
     el_thread_id (fst (nt_loops u ! i)) = el_thread_id (fst (nt_loops v ! i)) \<and>
     el_pending_functors (fst (nt_loops u ! i)) = [] \<and> el_wakeup_count (fst (nt_loops u ! i)) = 0 \<and>
     nt_stack u = fold remove1 (map fst cs) (nt_stack v)"

lemma turn_takes_over:
  assumes user: "\<And>a w. user UserConnection a w = Inr w"
    and i: "i < length (nt_loops v)" "distinct (map (\<lambda>x. el_thread_id (fst x)) (nt_loops v))" "nt_loops v ! i = (l, q)"
      "el_thread_id l \<noteq> el_thread_id v"
    and wch: "get_channel wa v = Some ch" "ch_read_call_back ch = Some OnWakeup" "wa \<notin> Suc ` fst ` set cs"
    and loop: "el_quit_flag l = False" "1 < pl_events_size (el_poller l)" "map_sorted (pl_channels_map (el_poller l))"
    and fs: "el_pending_functors l = map (\<lambda>x. DoEstablished (fst x)) cs"
    and cs: "\<forall>(a, fd, addr) \<in> set cs. waiting a fd addr (el_thread_id l) v \<and>
      map_find (pl_channels_map (el_poller l)) fd = None" "distinct (map fst cs)" "distinct (map (fst \<circ> snd) cs)"
    and cb: "ts_connection_cb (nt_server v) = Some UserConnection"
  shows "\<exists>u. take_turn user (el_thread_id l) (Inr [(wa, EPOLLIN)]) v = Inr u \<and> turn_effect i wa cs v u"
proof -
  let ?x = "exchange i v"
  note f = exchange_fields [OF i(1,3)]
  have quit: "el_quit_flag ?x = False" using i(1,3) loop(1) by (simp add: exchange_def event_loop.defs)
  have cs': "\<forall>(a, fd, addr) \<in> set cs. waiting a fd addr (el_thread_id ?x) ?x \<and>
      map_find (pl_channels_map (el_poller ?x)) fd = None"
    using cs(1) by (simp add: waiting_def f)
  obtain y where y: "EventLoop_Loop_while (run_event user) drop_functors [Inr [(wa, EPOLLIN)]] ?x = Inr y"
    "takes_over wa cs ?x y"
    using wakeup_round [where user = user, OF user _ wch(2,3) quit _ _ _ cs' cs(2,3)] wch(1) loop fs cb
    by (auto simp: f)
  note e = y(2) [unfolded takes_over_def]
  have loops: "nt_loops y = nt_loops ?x" using e by blast
  note t = exchange_twice [OF i(1) loops]
  have "loop_slot (el_thread_id l) (nt_loops v) = Some i" using loop_slot_nth [OF i(2,1)] i(3) by simp
  then have "take_turn user (el_thread_id l) (Inr [(wa, EPOLLIN)]) v = Inr (exchange i y)"
    using i(4) y(1) by (simp add: take_turn_def on_loop_def)
  moreover have "nt_loops (exchange i y) ! i = (park y, nt_request y)" using i(1) by (simp add: t)
  moreover have "el_wakeup_count (park y) = el_wakeup_count y" by (simp add: park_def event_loop.defs)
  moreover have "serving a fd addr k (exchange i y) = serving a fd addr k y" for a fd addr k by (simp add: serving_def)
  ultimately show ?thesis
    using e i(3) unfolding turn_effect_def by (intro exI [of _ "exchange i y"]) (auto simp: t f)
qed

section \<open>All the loops\<close>

definition served_in :: "nat \<Rightarrow> client \<Rightarrow> net \<Rightarrow> bool" where
  "served_in i x w \<longleftrightarrow> (case x of (a, fd, addr) \<Rightarrow> serving a fd addr (el_thread_id (fst (nt_loops w ! i))) w \<and>
     map_find (pl_channels_map (el_poller (fst (nt_loops w ! i)))) fd = Some (a + 1))"

text \<open>A loop that can be woken, and one that has clients waiting.\<close>

definition loop_sleeps :: "nat \<Rightarrow> nat \<Rightarrow> net \<Rightarrow> bool" where
  "loop_sleeps i wa w \<longleftrightarrow> (let l = fst (nt_loops w ! i) in
     el_thread_id l \<noteq> el_thread_id w \<and> el_quit_flag l = False \<and> 1 < pl_events_size (el_poller l) \<and>
     map_sorted (pl_channels_map (el_poller l)) \<and>
     (\<exists>ch. get_channel wa w = Some ch \<and> ch_read_call_back ch = Some OnWakeup))"

definition loop_waits :: "nat \<Rightarrow> nat \<Rightarrow> client list \<Rightarrow> net \<Rightarrow> bool" where
  "loop_waits i wa cs w \<longleftrightarrow> loop_sleeps i wa w \<and> (let l = fst (nt_loops w ! i) in
     el_pending_functors l = map (\<lambda>x. DoEstablished (fst x)) cs \<and>
     (\<forall>(a, fd, addr) \<in> set cs. waiting a fd addr (el_thread_id l) w \<and> map_find (pl_channels_map (el_poller l)) fd = None) \<and>
     distinct (map fst cs) \<and> distinct (map (fst \<circ> snd) cs))"

lemma turn_effect_keeps:
  assumes eff: "turn_effect i wa cs v u" and "j \<noteq> i"
  shows "served_in j x v \<Longrightarrow> fst x \<notin> fst ` set cs \<Longrightarrow> fst x + 1 \<noteq> wa \<Longrightarrow> served_in j x u"
    and "loop_waits j wb ds v \<Longrightarrow> wb \<noteq> wa \<Longrightarrow> wb \<notin> Suc ` fst ` set cs \<Longrightarrow> wa \<notin> Suc ` fst ` set ds \<Longrightarrow>
      fst ` set cs \<inter> fst ` set ds = {} \<Longrightarrow> loop_waits j wb ds u"
proof -
  note e = eff [unfolded turn_effect_def]
  have loop: "nt_loops u ! j = nt_loops v ! j" using e assms(2) by blast
  show "served_in j x u" if "served_in j x v" "fst x \<notin> fst ` set cs" "fst x + 1 \<noteq> wa"
    using e loop that by (cases x) (auto simp: served_in_def serving_def)
  show "loop_waits j wb ds u" if w: "loop_waits j wb ds v" "wb \<noteq> wa" "wb \<notin> Suc ` fst ` set cs" "wa \<notin> Suc ` fst ` set ds"
    "fst ` set cs \<inter> fst ` set ds = {}"
  proof -
    have "waiting a fd addr k u" if d: "(a, fd, addr) \<in> set ds" "waiting a fd addr k v" for a fd addr k
    proof -
      have "a \<in> fst ` set ds" using d(1) by force
      then have "a \<notin> fst ` set cs" "a + 1 \<noteq> wa" "a + 1 \<notin> Suc ` fst ` set cs" using w(4,5) by auto
      then show ?thesis using d(2) e by (simp add: waiting_def)
    qed
    moreover have "get_channel wb u = get_channel wb v" using e w(2,3) by blast
    moreover have "el_thread_id u = el_thread_id v" using e by blast
    ultimately show ?thesis
      using w(1) unfolding loop_waits_def loop_sleeps_def loop Let_def by fastforce
  qed
qed

lemma all_turns:
  assumes user: "\<And>a w. user UserConnection a w = Inr w"
  shows "distinct js \<Longrightarrow> \<forall>j \<in> set js. j < length (nt_loops v) \<and> loop_waits j (wa j) (cs j) v \<Longrightarrow>
    distinct (map (\<lambda>x. el_thread_id (fst x)) (nt_loops v)) \<Longrightarrow> ts_connection_cb (nt_server v) = Some UserConnection \<Longrightarrow>
    inj_on wa (set js) \<Longrightarrow> \<forall>i \<in> set js. \<forall>j \<in> set js. wa i \<notin> Suc ` fst ` set (cs j) \<Longrightarrow>
    \<forall>i \<in> set js. \<forall>j \<in> set js. i \<noteq> j \<longrightarrow> fst ` set (cs i) \<inter> fst ` set (cs j) = {} \<Longrightarrow>
    \<exists>u. thread_run user (map (\<lambda>j. Turn (el_thread_id (fst (nt_loops v ! j))) (Inr [(wa j, EPOLLIN)])) js) v = Inr u \<and>
      (\<forall>j \<in> set js. \<forall>x \<in> set (cs j). served_in j x u) \<and>
      (\<forall>i x. i \<notin> set js \<and> served_in i x v \<and> (\<forall>j \<in> set js. fst x \<notin> fst ` set (cs j)) \<and> fst x + 1 \<notin> wa ` set js \<longrightarrow>
        served_in i x u) \<and>
      length (nt_loops u) = length (nt_loops v)"
proof (induction js arbitrary: v)
  case Nil
  then show ?case by simp
next
  case (Cons i js)
  obtain l q where l: "nt_loops v ! i = (l, q)" by fastforce
  have i: "i < length (nt_loops v)" "loop_waits i (wa i) (cs i) v" using Cons.prems(2) by auto
  have w: "el_thread_id l \<noteq> el_thread_id v" "el_quit_flag l = False" "1 < pl_events_size (el_poller l)"
    "map_sorted (pl_channels_map (el_poller l))" "el_pending_functors l = map (\<lambda>x. DoEstablished (fst x)) (cs i)"
    "\<forall>(a, fd, addr) \<in> set (cs i). waiting a fd addr (el_thread_id l) v \<and> map_find (pl_channels_map (el_poller l)) fd = None"
    "distinct (map fst (cs i))" "distinct (map (fst \<circ> snd) (cs i))"
    using i(2) by (simp_all add: loop_waits_def loop_sleeps_def l)
  obtain ch where ch: "get_channel (wa i) v = Some ch" "ch_read_call_back ch = Some OnWakeup"
    using i(2) by (auto simp: loop_waits_def loop_sleeps_def l Let_def)
  have "wa i \<notin> Suc ` fst ` set (cs i)" using Cons.prems(6) by simp
  then obtain u where u: "take_turn user (el_thread_id l) (Inr [(wa i, EPOLLIN)]) v = Inr u" "turn_effect i (wa i) (cs i) v u"
    using turn_takes_over [where user = user, OF user i(1) Cons.prems(3) l w(1) ch _ w(2-8) Cons.prems(4)] by blast
  note e = u(2) [unfolded turn_effect_def]
  have ids: "el_thread_id (fst (nt_loops u ! j)) = el_thread_id (fst (nt_loops v ! j))" for j
    using e by (cases "j = i") auto
  then have map_ids: "map (\<lambda>x. el_thread_id (fst x)) (nt_loops u) = map (\<lambda>x. el_thread_id (fst x)) (nt_loops v)"
    using e by (intro nth_equalityI) auto
  have "j < length (nt_loops u) \<and> loop_waits j (wa j) (cs j) u" if j: "j \<in> set js" for j
  proof -
    have "j \<noteq> i" using Cons.prems(1) j by auto
    moreover have "wa j \<noteq> wa i" using Cons.prems(5) j \<open>j \<noteq> i\<close> by (auto simp: inj_on_def)
    moreover have "fst ` set (cs i) \<inter> fst ` set (cs j) = {}"
      using Cons.prems(7) j \<open>j \<noteq> i\<close> by (metis list.set_intros)
    moreover have "wa j \<notin> Suc ` fst ` set (cs i)" "wa i \<notin> Suc ` fst ` set (cs j)" using Cons.prems(6) j by simp_all
    ultimately show ?thesis
      using turn_effect_keeps(2) [OF u(2), of j "wa j" "cs j"] Cons.prems(2) e j by simp
  qed
  then have prem: "\<forall>j \<in> set js. j < length (nt_loops u) \<and> loop_waits j (wa j) (cs j) u" by blast
  have more: "distinct js" "distinct (map (\<lambda>x. el_thread_id (fst x)) (nt_loops u))"
    "ts_connection_cb (nt_server u) = Some UserConnection" "inj_on wa (set js)"
    "\<forall>i \<in> set js. \<forall>j \<in> set js. wa i \<notin> Suc ` fst ` set (cs j)"
    "\<forall>i \<in> set js. \<forall>j \<in> set js. i \<noteq> j \<longrightarrow> fst ` set (cs i) \<inter> fst ` set (cs j) = {}"
    using Cons.prems(1,3,4,6,7) e unfolding map_ids by simp_all (use Cons.prems(5) in \<open>simp add: inj_on_def\<close>)
  from Cons.IH [OF more(1) prem more(2-6)] obtain t where
    t: "thread_run user (map (\<lambda>j. Turn (el_thread_id (fst (nt_loops u ! j))) (Inr [(wa j, EPOLLIN)])) js) u = Inr t"
    and served: "\<And>j x. j \<in> set js \<Longrightarrow> x \<in> set (cs j) \<Longrightarrow> served_in j x t"
    and keeps: "\<And>i x. i \<notin> set js \<Longrightarrow> served_in i x u \<Longrightarrow> \<forall>j \<in> set js. fst x \<notin> fst ` set (cs j) \<Longrightarrow>
        fst x + 1 \<notin> wa ` set js \<Longrightarrow> served_in i x t"
    and len: "length (nt_loops t) = length (nt_loops u)" by blast
  have "served_in i x t" if x: "x \<in> set (cs i)" for x
  proof (rule keeps)
    show "i \<notin> set js" using Cons.prems(1) by simp
    show "served_in i x u" using e x ids [of i] by (cases x) (auto simp: served_in_def)
    show "\<forall>j \<in> set js. fst x \<notin> fst ` set (cs j)" using Cons.prems(1,7) x by fastforce
    have "wa j \<notin> Suc ` fst ` set (cs i)" if "j \<in> set js" for j using Cons.prems(6) that by simp
    moreover have "fst x + 1 \<in> Suc ` fst ` set (cs i)" using x by simp
    ultimately show "fst x + 1 \<notin> wa ` set js" by (metis imageE)
  qed
  moreover have "served_in j x t" if "j \<notin> set (i # js)" "served_in j x v" "\<forall>j \<in> set (i # js). fst x \<notin> fst ` set (cs j)"
    "fst x + 1 \<notin> wa ` set (i # js)" for j x
    using turn_effect_keeps(1) [OF u(2), of j x] that keeps [of j x] by auto
  ultimately show ?case
    using u(1) t served len e l by (intro exI [of _ t]) (auto simp: ids)
qed

section \<open>Starting the threads\<close>

text \<open>
  A server whose threads have started: the loops of the pool in the order of their registration, loop \<open>i\<close> with
  its wakeup channel at \<open>A + 2 * i\<close>, registered under the descriptor \<open>wfds ! i\<close>.
\<close>

definition pool_started :: "nat \<Rightarrow> nat \<Rightarrow> int list \<Rightarrow> net \<Rightarrow> bool" where
  "pool_started A h wfds w \<longleftrightarrow>
     (let p = ts_pool (nt_server w); ids = map (\<lambda>x. el_thread_id (fst x)) (nt_loops w) in
      tp_start_flag p \<and> tp_next p = 0 \<and> tp_loops_pool p = ids \<and> distinct (el_thread_id w # ids) \<and>
      length wfds = length (nt_loops w) \<and> nt_fresh w + 1 = A + 2 * length (nt_loops w) \<and> h + 1 < A \<and>
      (\<forall>i < length (nt_loops w). loop_sleeps i (A + 2 * i) w \<and> el_pending_functors (fst (nt_loops w ! i)) = [] \<and>
        pl_channels_map (el_poller (fst (nt_loops w ! i))) = [(wfds ! i, A + 2 * i)]) \<and>
      nt_connection_map w = [] \<and> ts_connection_cb (nt_server w) = Some UserConnection \<and>
      el_quit_flag w = False \<and> el_pending_functors w = [] \<and> 16 \<le> pl_events_size (el_poller w) \<and>
      ac_has_callback (nt_acceptor w) \<and> (\<exists>ch. get_channel h w = Some ch \<and> ch_read_call_back ch = Some OnAccept))"

fun start_step :: "nat \<times> int \<times> int \<times> int \<times> bool \<Rightarrow> thread_step" where
  "start_step (tid, epollfd, wakeup_fd, timer_fd, junk) = Start tid epollfd wakeup_fd timer_fd junk"

abbreviation thread_wakeup_fd :: "nat \<times> int \<times> int \<times> int \<times> bool \<Rightarrow> int" where
  "thread_wakeup_fd t \<equiv> fst (snd (snd t))"

lemma pool_started_step:
  assumes p: "pool_started A h wfds w" and tid: "tid \<noteq> el_thread_id w" "tid \<notin> set (tp_loops_pool (ts_pool (nt_server w)))"
    and eff: "thread_effect tid wakeup_fd timer_fd w v"
  shows "pool_started A h (wfds @ [wakeup_fd]) v"
proof -
  note p' = p [unfolded pool_started_def Let_def] and e = eff [unfolded thread_effect_def]
  let ?n = "length (nt_loops w)"
  obtain l where l: "nt_loops v = nt_loops w @ [(l, HttpRequest_zero)]" "fresh_loop tid wakeup_fd (nt_fresh w) l"
    using e by blast
  have A: "nt_fresh w + 1 = A + 2 * ?n" "length wfds = ?n" "h + 1 < A" using p' by auto
  have ch: "get_channel k v = (if k = nt_fresh w + 1 then Some (wakeup_channel wakeup_fd)
      else if k = nt_fresh w then Some (io_channel timer_fd OnTimer) else get_channel k w)" for k
    using e by (simp add: get_channel_def)
  have cb: "ch_read_call_back (wakeup_channel wakeup_fd) = Some OnWakeup"
    by (simp add: wakeup_channel_def io_channel_def Channel_EnableReading_def)
  have loops: "loop_sleeps i (A + 2 * i) v \<and> el_pending_functors (fst (nt_loops v ! i)) = [] \<and>
      pl_channels_map (el_poller (fst (nt_loops v ! i))) = [((wfds @ [wakeup_fd]) ! i, A + 2 * i)]"
    if i: "i < length (nt_loops v)" for i
  proof (cases "i < ?n")
    case True
    then have "A + 2 * i < nt_fresh w" using A by linarith
    with True p' A l show ?thesis
      using ch [of "A + 2 * i"] e by (simp add: loop_sleeps_def nth_append Let_def)
  next
    case False
    then have "i = ?n" using i l by simp
    then show ?thesis
      using l A e ch [of "A + 2 * i"] cb tid(1)
      by (simp add: loop_sleeps_def nth_append fresh_loop_def Let_def map_sorted_def)
  qed
  have "h < nt_fresh w" using A by linarith
  then have "\<exists>ch. get_channel h v = Some ch \<and> ch_read_call_back ch = Some OnAccept" using p' ch [of h] by auto
  moreover have "distinct (el_thread_id v # map (\<lambda>x. el_thread_id (fst x)) (nt_loops v))"
    using p' tid l e by (auto simp: fresh_loop_def)
  moreover have "nt_fresh v + 1 = A + 2 * length (nt_loops v)" using A e l by simp
  moreover have "tp_loops_pool (ts_pool (nt_server v)) = map (\<lambda>x. el_thread_id (fst x)) (nt_loops v)"
    using p' e l by (simp add: EventLoopThreadPool_ThreadFunc_def fresh_loop_def)
  ultimately show ?thesis
    unfolding pool_started_def Let_def using p' e loops A l by (simp add: EventLoopThreadPool_ThreadFunc_def)
qed

lemma threads_start:
  "pool_started A h wfds w \<Longrightarrow> distinct (map fst ts) \<Longrightarrow> el_thread_id w \<notin> fst ` set ts \<Longrightarrow>
   set (tp_loops_pool (ts_pool (nt_server w))) \<inter> fst ` set ts = {} \<Longrightarrow>
   \<exists>v. thread_run user (map start_step ts) w = Inr v \<and> pool_started A h (wfds @ map thread_wakeup_fd ts) v \<and>
     tp_loops_pool (ts_pool (nt_server v)) = tp_loops_pool (ts_pool (nt_server w)) @ map fst ts \<and>
     el_thread_id v = el_thread_id w \<and> nt_accept v = nt_accept w"
proof (induction ts arbitrary: w wfds)
  case Nil
  then show ?case by simp
next
  case (Cons t ts)
  obtain tid epollfd wakeup_fd timer_fd junk where t: "t = (tid, epollfd, wakeup_fd, timer_fd, junk)" by (cases t)
  obtain v where v: "ThreadFunc_start tid epollfd wakeup_fd timer_fd junk w = Inr v" "thread_effect tid wakeup_fd timer_fd w v"
    using ThreadFunc_start_effect by blast
  note e = v(2) [unfolded thread_effect_def]
  have "pool_started A h (wfds @ [wakeup_fd]) v"
    using Cons.prems(3,4) t by (intro pool_started_step [OF Cons.prems(1) _ _ v(2)]) auto
  moreover have "tp_loops_pool (ts_pool (nt_server v)) = tp_loops_pool (ts_pool (nt_server w)) @ [tid]"
    using e by (simp add: EventLoopThreadPool_ThreadFunc_def)
  moreover have "el_thread_id v = el_thread_id w" "nt_accept v = nt_accept w" using e by blast+
  ultimately show ?case
    using Cons.IH [of "wfds @ [wakeup_fd]" v] Cons.prems(2-4) v(1) t by auto
qed

lemma threaded_start_run:
  assumes "0 < fresh" "wakeup_fd \<noteq> accept_fd"
    and w0: "w0 = net_new (EventLoop_new tid epollfd wakeup_fd timer_fd junk) fresh readvs writes sends accepts [idle_fd, accept_fd]"
  shows "\<exists>w. threaded_start user n addr w0 = Inr w \<and> pool_started (fresh + 4) (fresh + 2) [] w \<and>
     tp_loops_pool (ts_pool (nt_server w)) = [] \<and> el_thread_id w = tid \<and> nt_accept w = accepts"
proof -
  obtain y w where w: "server_start user n ''server'' addr w0 = Inr w" "loop_made tid wakeup_fd timer_fd w0 y"
    "server_made accept_fd y w" using server_start_run [OF assms(2) w0, of user n "''server''" addr] by blast
  have w0s: "nt_fresh w0 = fresh" "nt_accept w0 = accepts" by (simp_all add: w0 net_new_def event_loop.defs)
  note l = w(2) [unfolded loop_made_def w0s] and s = w(3) [unfolded server_made_def]
  have "pool_started (fresh + 4) (fresh + 2) [] w" using l s by (auto simp: pool_started_def Let_def)
  with w(1) l s show ?thesis by (simp add: threaded_start_def)
qed

section \<open>All together\<close>

lemma pool_started_ready:
  assumes "pool_started A h wfds w" "nt_loops w \<noteq> []" "length (nt_loops w) < 2 ^ 31"
  shows "base_ready h w"
proof -
  note p = assms(1) [unfolded pool_started_def Let_def]
  let ?ids = "map (\<lambda>x. el_thread_id (fst x)) (nt_loops w)"
  have "loop_slot l (nt_loops w) \<noteq> None" if l: "l \<in> set ?ids" for l
  proof -
    obtain i where "i < length (nt_loops w)" "l = el_thread_id (fst (nt_loops w ! i))" using l by (auto simp: in_set_conv_nth)
    moreover have "distinct ?ids" using p by simp
    ultimately show ?thesis using loop_slot_nth [of "nt_loops w" i] by simp
  qed
  moreover have "l \<noteq> el_thread_id w" if "l \<in> set ?ids" for l
    using that p by (metis distinct.simps(2))
  ultimately have "pool_ready w" using p assms(2,3) by (simp add: pool_ready_def pool_invar_def map_sorted_def)
  then show ?thesis using p by (auto simp: base_ready_def)
qed

text \<open>The clients of the loop at position \<open>i\<close> of \<open>m\<close>, the first one at address \<open>F\<close>.\<close>

definition clients_of :: "nat \<Rightarrow> nat \<Rightarrow> nat \<Rightarrow> (int \<times> sockaddr_in) list \<Rightarrow> client list" where
  "clients_of F m i clients =
     map (\<lambda>k. (F + 2 * k, clients ! k)) (filter (\<lambda>k. k mod m = i) [0..<length clients])"

lemma clients_of:
  "(a, x) \<in> set (clients_of F m i clients) \<longleftrightarrow> (\<exists>k < length clients. k mod m = i \<and> a = F + 2 * k \<and> x = clients ! k)"
  "fst ` set (clients_of F m i clients) = {F + 2 * k | k. k < length clients \<and> k mod m = i}"
  "distinct (map fst (clients_of F m i clients))"
  "distinct (map fst clients) \<Longrightarrow> distinct (map (fst \<circ> snd) (clients_of F m i clients))"
proof -
  show "(a, x) \<in> set (clients_of F m i clients) \<longleftrightarrow> (\<exists>k < length clients. k mod m = i \<and> a = F + 2 * k \<and> x = clients ! k)"
    by (auto simp: clients_of_def)
  show "fst ` set (clients_of F m i clients) = {F + 2 * k | k. k < length clients \<and> k mod m = i}"
    by (force simp: clients_of_def)
  show "distinct (map fst (clients_of F m i clients))"
    by (simp add: clients_of_def comp_def distinct_map inj_on_def)
  show "distinct (map (fst \<circ> snd) (clients_of F m i clients))" if "distinct (map fst clients)"
    using that nth_eq_iff_index_eq [of "map fst clients"] by (simp add: clients_of_def comp_def distinct_map inj_on_def)
qed

text \<open>After accepting, every loop has exactly its clients waiting.\<close>

lemma clients_wait:
  assumes p: "pool_started A h (map thread_wakeup_fd ts) v" and ids: "tp_loops_pool (ts_pool (nt_server v)) = map fst ts"
    and ts: "ts \<noteq> []" "length ts < 2 ^ 31" and acc: "nt_accept v = map Inr clients @ accepts"
    and cs: "distinct (map fst clients)" "distinct (map (\<lambda>x. connection_name (snd x)) clients)"
      "fst ` set clients \<inter> thread_wakeup_fd ` set ts = {}"
  shows "\<exists>t. thread_run user (replicate (length clients) (Turn (el_thread_id v) (Inr [(h, EPOLLIN)]))) v = Inr t \<and>
     ts_connection_cb (nt_server t) = Some UserConnection \<and>
     map (\<lambda>x. el_thread_id (fst x)) (nt_loops t) = map fst ts \<and>
     (\<forall>i < length ts. loop_waits i (A + 2 * i) (clients_of (nt_fresh v) (length ts) i clients) t)"
proof -
  note p' = p [unfolded pool_started_def Let_def]
  let ?m = "length ts" and ?F = "nt_fresh v" and ?p = "ts_pool (nt_server v)"
  let ?cs = "\<lambda>i. clients_of ?F ?m i clients" and ?wa = "\<lambda>i. A + 2 * i"
  have map_ids: "map (\<lambda>x. el_thread_id (fst x)) (nt_loops v) = map fst ts" and m: "length (nt_loops v) = ?m"
    and F: "?F + 1 = A + 2 * ?m" "h + 1 < A" and tid: "distinct (map fst ts)" and nx: "tp_next ?p = 0"
    using p' ids by auto
  have id: "el_thread_id (fst (nt_loops v ! i)) = fst (ts ! i)" if "i < ?m" for i
    using arg_cong [OF map_ids, of "\<lambda>xs. xs ! i"] that m by simp
  have "nt_loops v \<noteq> []" "length (nt_loops v) < 2 ^ 31" using ts m by auto
  then have ready: "base_ready h v" by (rule pool_started_ready [OF p])
  have "\<forall>x \<in> set clients. map_find (nt_connection_map v) (connection_name (snd x)) = None" using p' by simp
  from spread [where user = user, OF ready acc cs(2) this] obtain t where
    t: "thread_run user (replicate (length clients) (Turn (el_thread_id v) (Inr [(h, EPOLLIN)]))) v = Inr t"
      "el_thread_id t = el_thread_id v" "ts_connection_cb (nt_server t) = Some UserConnection" "length (nt_loops t) = ?m"
    and wait: "\<And>k. k < length clients \<Longrightarrow> waiting (?F + 2 * k) (fst (clients ! k)) (snd (clients ! k)) (assigned_loop ?p k) t"
    and old: "\<And>b. b < ?F \<Longrightarrow> b \<noteq> h \<Longrightarrow> get_channel b t = get_channel b v"
    and loops: "\<And>i. i < ?m \<Longrightarrow> quiet (fst (nt_loops t ! i)) = quiet (fst (nt_loops v ! i)) \<and>
        el_pending_functors (fst (nt_loops t ! i)) = el_pending_functors (fst (nt_loops v ! i)) @
          map (\<lambda>k. DoEstablished (?F + 2 * k)) (filter (\<lambda>k. assigned_loop ?p k = el_thread_id (fst (nt_loops v ! i))) [0..<length clients])"
    using p' m by (auto simp: Let_def)
  have assigned: "assigned_loop ?p k = fst (ts ! (k mod ?m))" for k
    using ts(1) by (simp add: assigned_loop_def ids nx)
  have assigned_iff: "assigned_loop ?p k = fst (ts ! i) \<longleftrightarrow> k mod ?m = i" if "i < ?m" for k i
    using that ts(1) tid nth_eq_iff_index_eq [of "map fst ts" "k mod ?m" i] by (simp add: assigned)
  have same: "el_thread_id (fst (nt_loops t ! i)) = fst (ts ! i)" "el_quit_flag (fst (nt_loops t ! i)) = el_quit_flag (fst (nt_loops v ! i))"
    "el_poller (fst (nt_loops t ! i)) = el_poller (fst (nt_loops v ! i))" if "i < ?m" for i
    using loops [OF that] id [OF that]
    by (auto simp: quiet_def dest: arg_cong [of _ _ el_thread_id] arg_cong [of _ _ el_quit_flag] arg_cong [of _ _ el_poller])
  have "loop_waits i (?wa i) (?cs i) t" if i: "i < ?m" for i
  proof -
    have "loop_sleeps i (?wa i) v" and none: "el_pending_functors (fst (nt_loops v ! i)) = []"
      and table: "pl_channels_map (el_poller (fst (nt_loops v ! i))) = [(thread_wakeup_fd (ts ! i), ?wa i)]"
      using p' i m by auto
    moreover have "get_channel (?wa i) t = get_channel (?wa i) v" using i F by (intro old) simp_all
    ultimately have sleeps: "loop_sleeps i (?wa i) t"
      using same [OF i] id [OF i] t(2) by (simp add: loop_sleeps_def Let_def)
    have "el_pending_functors (fst (nt_loops t ! i)) = map (\<lambda>x. DoEstablished (fst x)) (?cs i)"
      using loops [OF i] none i by (simp add: clients_of_def comp_def id assigned_iff)
    moreover have "waiting a fd addr (fst (ts ! i)) t \<and> map_find (pl_channels_map (el_poller (fst (nt_loops t ! i)))) fd = None"
      if c: "(a, fd, addr) \<in> set (?cs i)" for a fd addr
    proof -
      obtain k where k: "k < length clients" "k mod ?m = i" "a = ?F + 2 * k" "(fd, addr) = clients ! k"
        using c by (auto simp: clients_of(1))
      have "fd \<in> fst ` set clients" using k(1,4) by (metis fst_conv image_eqI nth_mem)
      moreover have "thread_wakeup_fd (ts ! i) \<in> thread_wakeup_fd ` set ts" using i by simp
      ultimately have "fd \<noteq> thread_wakeup_fd (ts ! i)" using cs(3) by blast
      moreover have "waiting a fd addr (fst (ts ! i)) t"
        using wait [OF k(1)] k(2,3) by (simp add: assigned flip: k(4))
      ultimately show ?thesis using i by (simp add: same table)
    qed
    ultimately show ?thesis
      using sleeps i same(1) [OF i] clients_of(3,4) cs(1) unfolding loop_waits_def Let_def by auto
  qed
  moreover have "map (\<lambda>x. el_thread_id (fst x)) (nt_loops t) = map fst ts"
    using same(1) t(4) by (intro nth_equalityI) simp_all
  ultimately show ?thesis using t(1,3) by blast
qed

lemma threads_serve_all:
  assumes "0 < fresh" "wakeup_fd \<noteq> accept_fd"
    and w0: "w0 = net_new (EventLoop_new tid epollfd wakeup_fd timer_fd junk) fresh readvs writes sends
      (map Inr clients @ accepts) [idle_fd, accept_fd]"
    and ts: "ts \<noteq> []" "length ts < 2 ^ 31" "distinct (map fst ts)" "tid \<notin> fst ` set ts"
    and order: "distinct order" "set order = {..<length ts}"
    and cs: "distinct (map fst clients)" "distinct (map (\<lambda>x. connection_name (snd x)) clients)"
      "fst ` set clients \<inter> thread_wakeup_fd ` set ts = {}"
    and user: "\<And>a w. user UserConnection a w = Inr w"
  shows "\<exists>w u. threaded_start user (int (length ts)) addr w0 = Inr w \<and>
     thread_run user (map start_step ts @ replicate (length clients) (Turn tid (Inr [(fresh + 2, EPOLLIN)])) @
       map (\<lambda>i. Turn (fst (ts ! i)) (Inr [(fresh + 4 + 2 * i, EPOLLIN)])) order) w = Inr u \<and>
     (\<forall>k < length clients. served_in (k mod length ts) (fresh + 3 + 2 * length ts + 2 * k, clients ! k) u)"
proof -
  obtain w where w: "threaded_start user (int (length ts)) addr w0 = Inr w" "pool_started (fresh + 4) (fresh + 2) [] w"
    "tp_loops_pool (ts_pool (nt_server w)) = []" "el_thread_id w = tid" "nt_accept w = map Inr clients @ accepts"
    using threaded_start_run [where user = user and n = "int (length ts)" and addr = addr, OF assms(1,2) w0] by blast
  obtain v where v: "thread_run user (map start_step ts) w = Inr v" "pool_started (fresh + 4) (fresh + 2) (map thread_wakeup_fd ts) v"
    "tp_loops_pool (ts_pool (nt_server v)) = map fst ts" "el_thread_id v = tid" "nt_accept v = map Inr clients @ accepts"
    using threads_start [where user = user, OF w(2) ts(3)] ts(4) w(3-5) by auto
  let ?m = "length ts" and ?wa = "\<lambda>i. fresh + 4 + 2 * i"
  have "length (tp_loops_pool (ts_pool (nt_server v))) = length (nt_loops v)"
    using v(2) by (simp add: pool_started_def Let_def)
  then have F: "nt_fresh v = fresh + 3 + 2 * ?m" using v(2,3) by (simp add: pool_started_def Let_def)
  let ?cs = "\<lambda>i. clients_of (nt_fresh v) ?m i clients"
  obtain t where t: "thread_run user (replicate (length clients) (Turn tid (Inr [(fresh + 2, EPOLLIN)]))) v = Inr t"
    "ts_connection_cb (nt_server t) = Some UserConnection" "map (\<lambda>x. el_thread_id (fst x)) (nt_loops t) = map fst ts"
    and waits: "\<And>i. i < ?m \<Longrightarrow> loop_waits i (?wa i) (?cs i) t"
    using clients_wait [where user = user, OF v(2,3) ts(1,2) v(5) cs] v(4) by blast
  have m: "length (nt_loops t) = ?m" using t(3) by (metis length_map)
  then have prem: "\<forall>i \<in> set order. i < length (nt_loops t) \<and> loop_waits i (?wa i) (?cs i) t"
    using order(2) waits by simp
  have dist: "distinct (map (\<lambda>x. el_thread_id (fst x)) (nt_loops t))" using t(3) ts(3) by simp
  have inj: "inj_on ?wa (set order)" by (simp add: inj_on_def)
  have apart: "\<forall>i \<in> set order. \<forall>j \<in> set order. ?wa i \<notin> Suc ` fst ` set (?cs j)"
  proof (intro ballI notI)
    fix i j assume "i \<in> set order" "?wa i \<in> Suc ` fst ` set (?cs j)"
    then obtain k where "?wa i = Suc (nt_fresh v + 2 * k)" "i < ?m" using order(2) unfolding clients_of(2) by blast
    then show False using F by linarith
  qed
  have disj: "\<forall>i \<in> set order. \<forall>j \<in> set order. i \<noteq> j \<longrightarrow> fst ` set (?cs i) \<inter> fst ` set (?cs j) = {}"
    by (auto simp: clients_of(2))
  obtain u where u: "thread_run user (map (\<lambda>j. Turn (el_thread_id (fst (nt_loops t ! j))) (Inr [(?wa j, EPOLLIN)])) order) t = Inr u"
    "\<And>j x. j \<in> set order \<Longrightarrow> x \<in> set (?cs j) \<Longrightarrow> served_in j x u"
    using all_turns [where user = user, OF user order(1) prem dist t(2) inj apart disj] by blast
  have "el_thread_id (fst (nt_loops t ! i)) = fst (ts ! i)" if "i < ?m" for i
    using arg_cong [OF t(3), of "\<lambda>xs. xs ! i"] that m by simp
  then have turns: "map (\<lambda>j. Turn (el_thread_id (fst (nt_loops t ! j))) (Inr [(?wa j, EPOLLIN)])) order =
      map (\<lambda>i. Turn (fst (ts ! i)) (Inr [(?wa i, EPOLLIN)])) order"
    using order(2) by simp
  have "served_in (k mod ?m) (fresh + 3 + 2 * ?m + 2 * k, clients ! k) u" if "k < length clients" for k
    using that ts(1) order(2) by (intro u(2)) (auto simp: F clients_of(1))
  moreover have "thread_run user (map start_step ts @ replicate (length clients) (Turn tid (Inr [(fresh + 2, EPOLLIN)])) @
       map (\<lambda>i. Turn (fst (ts ! i)) (Inr [(fresh + 4 + 2 * i, EPOLLIN)])) order) w = Inr u"
    using v(1) t(1) u(1) unfolding turns by (simp add: thread_run_append)
  ultimately show ?thesis using w(1) by blast
qed

section \<open>Properties\<close>



end
