(* ===== verification/Multi_Owners.thy ===== *)
theory Multi_Owners
  imports Multi_Reactor
begin

text \<open>
  The owning pointers of the server on several threads: \<open>owned\<close> of \<open>Ownership\<close> speaks of all loops, so the
  lemmas about the operations hold on every thread. Here the threads themselves are added.
\<close>

section \<open>Threads keep the owners\<close>

lemma owned_thread_effect:
  assumes own: "owned s w" and eff: "thread_effect tid wakeup_fd timer_fd w v"
  shows "owned s v"
proof -
  note e = eff [unfolded thread_effect_def]
  obtain l where l: "nt_loops v = nt_loops w @ [(l, HttpRequest_zero)]" "fresh_loop tid wakeup_fd (nt_fresh w) l"
    using e by blast
  have lt: "get_channel k w \<noteq> None \<Longrightarrow> k < nt_fresh w" for k using own by (auto simp: owned_but_def)
  have ch: "get_channel k v = (if k = nt_fresh w + 1 then Some (wakeup_channel wakeup_fd)
      else if k = nt_fresh w then Some (io_channel timer_fd OnTimer) else get_channel k w)" for k
    using e by (simp add: get_channel_def)
  have old: "get_channel k v = get_channel k w" if "get_channel k w \<noteq> None" for k
    using lt [OF that] by (simp add: ch)
  have fd: "ch_fd (wakeup_channel wakeup_fd) = wakeup_fd"
    by (simp add: wakeup_channel_def io_channel_def Channel_EnableReading_def Channel_new_def)
  have "other_loop_owns k (nt_loops v) \<longleftrightarrow> other_loop_owns k (nt_loops w) \<or> k = nt_fresh w \<or> k = nt_fresh w + 1" for k
    using l by (auto simp: other_loop_owns_def loop_owns_def fresh_loop_def)
  then have own_ch: "channel_owned k v \<longleftrightarrow> channel_owned k w \<or> k = nt_fresh w \<or> k = nt_fresh w + 1" for k
    using e by (auto simp: channel_owned_def)
  have conn: "conn_ok a c v" if "nt_conns w a = Some c" for a c
    using owned_conn [OF own that] old [of "Suc a"] e by (auto simp: conn_ok_def)
  have parked: "parked_ok k v" if "parked_ok k w" for k
    using that old unfolding parked_ok_def by (metis option.distinct(1))
  have "parked_ok l v"
    using l(2) by (auto simp: parked_ok_def fresh_loop_def ch fd map_sorted_def)
  moreover have "queued v = queued w" using l e by (simp add: queued_def fresh_loop_def)
  ultimately have loops: "loops_ok s v"
    using own e l(1) parked unfolding loops_ok_def owned_but_def by auto
  have same: "conn_owned a v = conn_owned a w" "conn_has_channel k v = conn_has_channel k w"
    "member_channel k v = member_channel k w" for a k
    using e by (simp_all add: conn_owned_def conn_has_channel_def member_channel_def)
  show ?thesis
    unfolding owned_but_def same
  proof (intro conjI allI impI ballI)
    show "h < nt_fresh v" if "get_channel h v = Some c" for h c
      using that lt [of h] e by (auto simp: ch split: if_splits)
    show "h \<in> {} \<or> channel_owned h v \<or> conn_has_channel h w" if "get_channel h v \<noteq> None" for h
      using that owned_channel [OF own, of h] by (auto simp: ch own_ch split: if_splits)
    show "\<exists>c. get_channel h v = Some c \<and> ch_fd c = fd" if "map_find (pl_channels_map (el_poller v)) fd = Some h" for fd h
      using owned_registered [OF own, of fd h] that old [of h] e by auto
    show "get_channel h v \<noteq> None" if "member_channel h w" for h
      using own that old [of h] by (auto simp: owned_but_def)
  qed (use own e loops conn in \<open>auto simp: owned_but_def\<close>)
qed

lemma safe_take_turn:
  assumes "keeps_owned user" "owned s w"
  shows "safe (owned s) (take_turn user l r w)"
proof -
  have loop: "safe (owned s) (EventLoop_Loop_while (run_event user) drop_functors [r] v)" if "owned s v" for v
    by (rule safe_Loop_while [OF safe_run_event [OF assms(1)] that])
  then show ?thesis
    using assms(2) owned_exchange
    by (auto simp: take_turn_def on_loop_def split: option.split intro!: safe_bind [OF loop] owned_exchange)
qed

lemma safe_thread_run:
  assumes user: "keeps_owned user"
  shows "owned s w \<Longrightarrow> safe (owned s) (thread_run user ss w)"
proof (induction ss arbitrary: w)
  case (Cons x ss)
  show ?case
  proof (cases x)
    case (Start tid epollfd wakeup_fd timer_fd junk)
    obtain v where "ThreadFunc_start tid epollfd wakeup_fd timer_fd junk w = Inr v" "thread_effect tid wakeup_fd timer_fd w v"
      using ThreadFunc_start_effect by blast
    with Start Cons owned_thread_effect [OF Cons.prems] show ?thesis by simp
  next
    case (Turn l r)
    then show ?thesis using safe_bind [OF safe_take_turn [OF user Cons.prems] Cons.IH] by simp
  qed
qed simp

section \<open>Properties\<close>



end
