(* ===== verification/Multi_Closing.thy ===== *)
theory Multi_Closing
  imports Multi_Reactor
begin

text \<open>
  The end of a connection that another thread's loop serves. Its callback queues the removal in the base loop, which
  releases the connection in its next turn: after the round of the serving loop, or in the middle of it.
\<close>

section \<open>A connection of another loop\<close>

text \<open>Loop \<open>i\<close> serves connection \<open>a\<close>, and nothing but the connection and that loop's poller owns its channel.\<close>

definition served_elsewhere :: "nat \<Rightarrow> nat \<Rightarrow> tcp_connection \<Rightarrow> closure channel \<Rightarrow> net \<Rightarrow> bool" where
  "served_elsewhere i a c ch v \<longleftrightarrow>
     i < length (nt_loops v) \<and> distinct (el_thread_id v # map (\<lambda>x. el_thread_id (fst x)) (nt_loops v)) \<and>
     ts_event_loop (nt_server v) = el_thread_id v \<and>
     nt_conns v a = Some c \<and> tc_event_loop c = el_thread_id (fst (nt_loops v ! i)) \<and> tc_channel c = a + 1 \<and>
     tc_close_cb c = Some ServerRemove \<and> get_channel (a + 1) v = Some ch \<and> a \<notin> set (nt_stack v) \<and>
     map_sorted (nt_connection_map v) \<and> (\<forall>n. map_find (nt_connection_map v) n = Some a \<longleftrightarrow> n = tc_name c) \<and>
     map_sorted (pl_channels_map (el_poller (fst (nt_loops v ! i)))) \<and>
     (\<forall>fd. map_find (pl_channels_map (el_poller (fst (nt_loops v ! i)))) fd = Some (a + 1) \<longleftrightarrow> fd = ch_fd ch) \<and>
     el_wakeup_channel (fst (nt_loops v ! i)) \<noteq> Some (a + 1) \<and> el_timer_channel (fst (nt_loops v ! i)) \<noteq> Some (a + 1) \<and>
     ac_channel (nt_acceptor v) \<noteq> a + 1 \<and> \<not> loop_owns (a + 1) (park v) \<and>
     (\<forall>j < length (nt_loops v). j \<noteq> i \<longrightarrow> \<not> loop_owns (a + 1) (fst (nt_loops v ! j)))"

text \<open>The same seen from the serving thread.\<close>

definition serves :: "nat \<Rightarrow> nat \<Rightarrow> tcp_connection \<Rightarrow> closure channel \<Rightarrow> net \<Rightarrow> bool" where
  "serves i a c ch w \<longleftrightarrow> loop_slot (ts_event_loop (nt_server w)) (nt_loops w) = Some i \<and>
     ts_event_loop (nt_server w) \<noteq> el_thread_id w \<and>
     nt_conns w a = Some c \<and> tc_event_loop c = el_thread_id w \<and> tc_channel c = a + 1 \<and>
     tc_close_cb c = Some ServerRemove \<and> get_channel (a + 1) w = Some ch \<and> a \<in> snd ` set (nt_connection_map w) \<and>
     map_find (pl_channels_map (el_poller w)) (ch_fd ch) = Some (a + 1)"

lemma loop_slot_swap:
  "i < length xs \<Longrightarrow> el_thread_id (fst y) \<notin> (\<lambda>x. el_thread_id (fst x)) ` set xs \<Longrightarrow>
   loop_slot (el_thread_id (fst y)) (xs[i := y]) = Some i"
proof (induction xs arbitrary: i)
  case (Cons x xs)
  then show ?case by (cases i) auto
qed simp

lemma serves_elsewhere:
  assumes "served_elsewhere i a c ch v"
  shows "serves i a c ch (exchange i v)"
proof -
  note s = assms [unfolded served_elsewhere_def]
  obtain l q where l: "nt_loops v ! i = (l, q)" by fastforce
  have i: "i < length (nt_loops v)" and server: "ts_event_loop (nt_server v) = el_thread_id v"
    and ids: "el_thread_id v \<notin> (\<lambda>x. el_thread_id (fst x)) ` set (nt_loops v)" using s by auto
  note f = exchange_fields [OF i l]
  have slot: "loop_slot (el_thread_id v) ((nt_loops v)[i := (park v, nt_request v)]) = Some i"
    using loop_slot_swap [OF i, of "(park v, nt_request v)"] ids by simp
  have ne: "el_thread_id v \<noteq> el_thread_id l" using ids nth_mem [OF i] l by force
  have "map_find (nt_connection_map v) (tc_name c) = Some a" using s by blast
  from map_of_SomeD [OF this] have own: "a \<in> snd ` set (nt_connection_map v)" by force
  have conn: "nt_conns v a = Some c" "tc_event_loop c = el_thread_id l" "tc_channel c = a + 1" "tc_close_cb c = Some ServerRemove"
    "get_channel (a + 1) v = Some ch"
    using s l by simp_all
  have "map_find (pl_channels_map (el_poller l)) (ch_fd ch) = Some (a + 1)" using s l by simp
  then show ?thesis unfolding serves_def exchange_same f server using slot ne own conn by blast
qed

text \<open>What closing leaves in the serving thread: everything lives on, the removal is queued.\<close>

definition closing :: "nat \<Rightarrow> nat \<Rightarrow> tcp_connection \<Rightarrow> closure channel \<Rightarrow> net \<Rightarrow> net \<Rightarrow> bool" where
  "closing i a c ch w v \<longleftrightarrow>
     nt_conns v = (nt_conns w)(a \<mapsto> c\<lparr>tc_state := kDisconnected\<rparr>) \<and>
     (\<forall>h. get_channel h v = (if h = a + 1 then Some (ch\<lparr>ch_event_handling := False, ch_run_in_loop_flag := False\<rparr>) else get_channel h w)) \<and>
     pl_channels_map (el_poller v) = map_erase (ch_fd ch) (pl_channels_map (el_poller w)) \<and>
     nt_loops v = nt_loops (queue_at i (el_thread_id w) (DoRemove a) w) \<and> nt_stack v = a # nt_stack w \<and>
     nt_connection_map v = nt_connection_map w \<and> nt_calls v = nt_calls w \<and> nt_server v = nt_server w \<and>
     nt_acceptor v = nt_acceptor w \<and> el_pending_functors v = el_pending_functors w \<and>
     el_wakeup_channel v = el_wakeup_channel w \<and> el_timer_channel v = el_timer_channel w \<and>
     el_thread_id v = el_thread_id w \<and> el_quit_flag v = el_quit_flag w"

lemma HandleClose_queues:
  assumes "serves i a c ch w"
  shows "\<exists>v. TcpConnection_HandleClose (server_cbs user) a w = Inr v \<and> closing i a c ch w v"
proof -
  note s = assms [unfolded serves_def]
  show ?thesis
    using s
    by (simp add: TcpConnection_HandleClose_def on_conn_def with_conn_def put_conn_def
        Channel_set_event_handling_def with_channel_def get_channel_def put_channel_def
        unregister_own registered_def conn_has_channel_def
        EventLoop_RemoveChannel_def on_channel_def EpollPoller_RemoveChannel_def EpollPoller_Update_def Let_def
        shared_call_def conn_owned_def server_cbs_def TcpServer_RemoveConnection_def run_in_loop_queues hold_def
        collect_def drop_hold_def closing_def queue_at_def)
qed

text \<open>Reading a complete request: it is answered, then the connection is closed.\<close>

definition answered_closing :: "nat \<Rightarrow> nat \<Rightarrow> tcp_connection \<Rightarrow> closure channel \<Rightarrow> net \<Rightarrow> net \<Rightarrow> bool" where
  "answered_closing i a c ch w v \<longleftrightarrow>
     (\<exists>ib ob. nt_conns v = (nt_conns w)(a \<mapsto> c\<lparr>tc_input_buffer := ib, tc_output_buffer := ob, tc_state := kDisconnected\<rparr>)) \<and>
     (\<exists>ch'. get_channel (a + 1) v = Some ch' \<and> ch_trigger_events ch' = ch_trigger_events ch \<and>
       \<not> ch_event_handling ch' \<and> \<not> ch_run_in_loop_flag ch') \<and>
     (\<forall>h. h \<noteq> a + 1 \<longrightarrow> get_channel h v = get_channel h w) \<and>
     pl_channels_map (el_poller v) = map_erase (ch_fd ch) (pl_channels_map (el_poller w)) \<and>
     nt_loops v = nt_loops (queue_at i (el_thread_id w) (DoRemove a) w) \<and> nt_stack v = a # nt_stack w \<and>
     nt_connection_map v = nt_connection_map w \<and>
     nt_calls v = nt_calls w @ [SysSend (ch_fd ch) HttpServer_response (fst (next_send w))] \<and> nt_server v = nt_server w \<and>
     nt_acceptor v = nt_acceptor w \<and> el_pending_functors v = el_pending_functors w \<and>
     el_wakeup_channel v = el_wakeup_channel w \<and> el_timer_channel v = el_timer_channel w \<and>
     el_thread_id v = el_thread_id w \<and> el_quit_flag v = el_quit_flag w"

lemma read_closes:
  assumes serves: "serves i a c ch w" and input: "http_input c data w" and data: "data = render_request ''GET'' p v hs"
    and ok: "token p" "token v" "list_all good_header hs"
  shows "\<exists>u. run_event http_user (OnRead a) w = Inr u \<and> answered_closing i a c ch w u"
proof -
  note s = serves [unfolded serves_def]
  have "nt_conns w a = Some c" "get_channel (tc_channel c) w = Some ch" "tc_event_loop c = el_thread_id w"
    "a \<in> snd ` set (nt_connection_map w)" using s by simp_all
  from read_answers [OF this input data ok] obtain w3 where
    w3: "TcpConnection_HandleRead (server_cbs http_user) a w = TcpConnection_HandleClose (server_cbs http_user) a w3"
    "answered a c ch w w3" by blast
  note k = w3(2) [unfolded answered_def]
  obtain ib ob where c2: "nt_conns w3 = (nt_conns w)(a \<mapsto> c\<lparr>tc_input_buffer := ib, tc_output_buffer := ob\<rparr>)"
    (is "_ = (nt_conns w)(a \<mapsto> ?c2)") using k by blast
  have "serves i a ?c2 ch w3" using s k by (simp add: serves_def c2 get_channel_def)
  from HandleClose_queues [OF this, of http_user] obtain u where
    u: "TcpConnection_HandleClose (server_cbs http_user) a w3 = Inr u" "closing i a ?c2 ch w3 u" by blast
  note e = u(2) [unfolded closing_def]
  have "nt_conns u = (nt_conns w)(a \<mapsto> c\<lparr>tc_input_buffer := ib, tc_output_buffer := ob, tc_state := kDisconnected\<rparr>)"
    using e c2 by simp
  moreover have "nt_loops u = nt_loops (queue_at i (el_thread_id w) (DoRemove a) w)" using e k by (simp add: queue_at_def)
  ultimately have "answered_closing i a c ch w u"
    using e k unfolding answered_closing_def by (auto simp: get_channel_def)
  with w3(1) u(1) show ?thesis by (intro exI [of _ u]) simp
qed

section \<open>The removal in the base loop\<close>

definition removal_queued :: "nat \<Rightarrow> tcp_connection \<Rightarrow> closure channel \<Rightarrow> net \<Rightarrow> bool" where
  "removal_queued a c ch u \<longleftrightarrow> el_pending_functors u = [DoRemove a] \<and> el_quit_flag u = False \<and>
     nt_conns u a = Some c \<and> tc_channel c = a + 1 \<and> get_channel (a + 1) u = Some ch \<and>
     \<not> ch_event_handling ch \<and> \<not> ch_run_in_loop_flag ch \<and> \<not> channel_owned (a + 1) u \<and>
     (\<exists>s. nt_stack u = a # s \<and> a \<notin> set s) \<and>
     map_sorted (nt_connection_map u) \<and> (\<forall>n. map_find (nt_connection_map u) n = Some a \<longleftrightarrow> n = tc_name c)"

definition removed :: "nat \<Rightarrow> nat \<Rightarrow> tcp_connection \<Rightarrow> net \<Rightarrow> net \<Rightarrow> bool" where
  "removed wb a c u w \<longleftrightarrow> nt_conns w = (nt_conns u)(a := None) \<and>
     (\<forall>h. h \<noteq> wb \<longrightarrow> get_channel h w = (if h = a + 1 then None else get_channel h u)) \<and>
     nt_connection_map w = map_erase (tc_name c) (nt_connection_map u) \<and> nt_stack w = tl (nt_stack u) \<and>
     nt_calls w = nt_calls u @ [SysClose (tc_socket c)] \<and> nt_loops w = nt_loops u \<and> nt_server w = nt_server u \<and>
     el_poller w = el_poller u \<and> el_thread_id w = el_thread_id u \<and> el_pending_functors w = [] \<and> el_wakeup_count w = 0"

lemma base_removes:
  assumes queued: "removal_queued a c ch u"
    and wb: "get_channel wb u = Some wch" "ch_read_call_back wch = Some OnWakeup" "wb \<noteq> a + 1" "1 < pl_events_size (el_poller u)"
  shows "\<exists>w. EventLoop_Loop_while (run_event user) drop_functors [Inr [(wb, EPOLLIN)]] u = Inr w \<and> removed wb a c u w"
proof -
  obtain x where x: "EventLoop_handle_events (run_event user) (Inr [(wb, EPOLLIN)]) u = Inr x" "woken wb u x"
    using wakeup_handled [where user = user, OF wb(1,2,4)] by blast
  note k = x(2) [unfolded woken_def]
  note r = queued [unfolded removal_queued_def]
  obtain s where s: "nt_stack u = a # s" "a \<notin> set s" using r by blast
  define y where "y = x\<lparr>el_pending_functors := []\<rparr>"
  define y1 where "y1 = y\<lparr>nt_connection_map := map_erase (tc_name c) (nt_connection_map y)\<rparr>"
  have y: "nt_conns y a = Some c" "nt_stack y = a # s" "map_find (nt_connection_map y) (tc_name c) = Some a"
    "el_channels y (a + 1) = Some ch"
    using r k s wb(3) by (simp_all add: y_def) (simp add: get_channel_def)
  have task: "run_event user (DoRemove a) y = Inr y1"
    using y by (simp add: TcpServer_RemoveConnectionInLoop_def with_conn_def collect_def conn_owned_def
        TcpConnection_ConnectionDestroyed_def y1_def)
  have nv: "a \<notin> snd ` set (map_erase (tc_name c) (nt_connection_map u))" using r by (intro not_value_erased) auto
  have nown: "\<not> channel_owned (a + 1) u" using r by blast
  define w where "w = y1\<lparr>nt_stack := s, nt_conns := (nt_conns y)(a := None),
      el_channels := (el_channels y)(a + 1 := None), nt_calls := nt_calls y @ [SysClose (tc_socket c)]\<rparr>"
  have "drop_hold a y1 = Inr w"
    using y s(2) r nv nown k
    by (simp add: drop_hold_def collect_def conn_owned_def y1_def TcpConnection_destroy_def with_conn_def channel_owned_def
        free_channel_def Channel_destroy_def Socket_destroy_def sys_def w_def y_def get_channel_def with_channel_def Let_def)
  then have "EventLoop_iteration (run_event user) drop_functors (Inr [(wb, EPOLLIN)]) u = Inr w"
    using x(1) k r task
    by (simp add: EventLoop_iteration_def EventLoop_DoPendingFunctors_def EventLoop_take_functors_def drop_functors_def
        flip: y_def)
  then have "EventLoop_Loop_while (run_event user) drop_functors [Inr [(wb, EPOLLIN)]] u = Inr w"
    using r k by (simp add: EventLoop_Loop_while.simps w_def y1_def y_def)
  moreover have "removed wb a c u w"
    using k s unfolding removed_def w_def y1_def y_def by (simp add: get_channel_def)
  ultimately show ?thesis by blast
qed

section \<open>The event\<close>

text \<open>The event reaches the read callback.\<close>

definition at_event :: "nat \<Rightarrow> net \<Rightarrow> closure channel \<Rightarrow> net" where
  "at_event a w ch = (put_channel (a + 1) (ch\<lparr>ch_trigger_events := EPOLLIN\<rparr>) (w\<lparr>el_active_channel_list := []\<rparr>))
       \<lparr>el_active_channel_list := [a + 1], el_event_handling_flag := True\<rparr>"

lemma event_reads:
  assumes serves: "serves i a c ch w" and input: "http_input c data w" and data: "data = render_request ''GET'' p v hs"
    and ok: "token p" "token v" "list_all good_header hs"
  shows "\<exists>u. run_event http_user (OnRead a) (put_channel (a + 1) (ch\<lparr>ch_trigger_events := EPOLLIN, ch_event_handling := True\<rparr>) (at_event a w ch)) = Inr u \<and>
     answered_closing i a c (ch\<lparr>ch_trigger_events := EPOLLIN\<rparr>) w u"
proof -
  let ?ch = "ch\<lparr>ch_trigger_events := EPOLLIN, ch_event_handling := True\<rparr>"
  let ?x = "put_channel (a + 1) ?ch (at_event a w ch)"
  have "serves i a c ?ch ?x" "http_input c data ?x"
    using serves input by (simp_all add: serves_def http_input_def at_event_def put_channel_def get_channel_def)
  from read_closes [OF this data ok] obtain u where
    u: "run_event http_user (OnRead a) ?x = Inr u" "answered_closing i a c ?ch ?x u" by blast
  have "fst (next_send ?x) = fst (next_send w)" by (simp add: next_send_def at_event_def put_channel_def split: list.splits)
  then have "answered_closing i a c (ch\<lparr>ch_trigger_events := EPOLLIN\<rparr>) w u"
    using u(2) by (simp add: answered_closing_def at_event_def put_channel_def get_channel_def queue_at_def)
  with u(1) show ?thesis by blast
qed

lemma io_round:
  assumes serves: "serves i a c ch w" and input: "http_input c data w" and data: "data = render_request ''GET'' p v hs"
    and ok: "token p" "token v" "list_all good_header hs" and read: "ch_read_call_back ch = Some (OnRead a)"
    and loop: "el_quit_flag w = False" "1 < pl_events_size (el_poller w)" "el_pending_functors w = []"
  shows "\<exists>u. EventLoop_Loop_while (run_event http_user) drop_functors [Inr [(a + 1, EPOLLIN)]] w = Inr u \<and>
     answered_closing i a c (ch\<lparr>ch_trigger_events := EPOLLIN\<rparr>) w u"
proof -
  have get: "get_channel (a + 1) w = Some ch" using serves by (simp add: serves_def)
  let ?ch = "ch\<lparr>ch_trigger_events := EPOLLIN\<rparr>"
  obtain y where y: "run_event http_user (OnRead a) (put_channel (a + 1) (?ch\<lparr>ch_event_handling := True\<rparr>) (at_event a w ch)) = Inr y"
    "answered_closing i a c ?ch w y" using event_reads [OF serves input data ok] by auto
  note e = y(2) [unfolded answered_closing_def]
  obtain ch' where ch': "get_channel (a + 1) y = Some ch'" "ch_trigger_events ch' = EPOLLIN"
    "\<not> ch_event_handling ch'" "\<not> ch_run_in_loop_flag ch'" using e by auto
  let ?u = "(put_channel (a + 1) (ch'\<lparr>ch_event_handling := False\<rparr>) y)\<lparr>el_event_handling_flag := False, el_pending_functors := []\<rparr>"
  have "get_channel (a + 1) (at_event a w ch) = Some ?ch"
    "get_channel (a + 1) (put_channel (a + 1) ch1 (at_event a w ch)) = Some ch1" for ch1
    by (simp_all add: at_event_def put_channel_def get_channel_def)
  then have "Channel_HandleEvent get_channel put_channel (run_event http_user) (a + 1) (at_event a w ch) =
      Inr (put_channel (a + 1) (ch'\<lparr>ch_event_handling := False\<rparr>) y)"
    using y(1) ch' read
    by (simp add: Channel_HandleEvent_def Channel_set_event_handling_def with_channel_def call_back_def)
  then have "EventLoop_iteration (run_event http_user) drop_functors (Inr [(a + 1, EPOLLIN)]) w = Inr ?u"
    using iteration_one [OF get loop(2) at_event_def, of "run_event http_user" drop_functors] ch'(1) e loop(3)
    by (simp add: with_channel_def EventLoop_DoPendingFunctors_def EventLoop_take_functors_def drop_functors_def)
      (simp add: get_channel_def put_channel_def drop_functors_def)
  moreover have "answered_closing i a c ?ch w ?u"
    using e ch' loop(3) by (simp add: answered_closing_def put_channel_def get_channel_def)
  ultimately show ?thesis using loop(1) e
    by (intro exI [of _ ?u]) (simp add: EventLoop_Loop_while.simps put_channel_def)
qed

lemma other_loop_owns_update:
  assumes "\<not> loop_owns h l" "\<And>j. j < length xs \<Longrightarrow> j \<noteq> i \<Longrightarrow> \<not> loop_owns h (fst (xs ! j))"
  shows "\<not> other_loop_owns h (xs[i := (l, q)])"
proof -
  have "\<not> loop_owns h (fst (xs[i := (l, q)] ! j))" if "j < length xs" for j
    using assms that by (cases "j = i") simp_all
  then show ?thesis unfolding other_loop_owns_def by (metis in_set_conv_nth length_list_update)
qed

lemma exchange_inputs [simp]: "nt_calls (exchange i w) = nt_calls w" "nt_send (exchange i w) = nt_send w"
  "nt_readv (exchange i w) = nt_readv w"
  by (cases w; simp add: exchange_def event_loop.defs split_beta)+

text \<open>What the base loop finds when it takes its turn.\<close>

lemma base_finds:
  assumes els: "served_elsewhere i a c ch v" and base: "el_quit_flag v = False" "el_pending_functors v = []"
    and ans: "answered_closing i a c ch0 (exchange i v) z" "ch_fd ch0 = ch_fd ch"
  shows "\<exists>ib ob ch'. removal_queued a (c\<lparr>tc_input_buffer := ib, tc_output_buffer := ob, tc_state := kDisconnected\<rparr>) ch' (exchange i z) \<and>
       nt_conns z = (nt_conns v)(a \<mapsto> c\<lparr>tc_input_buffer := ib, tc_output_buffer := ob, tc_state := kDisconnected\<rparr>)"
    "el_poller (exchange i z) = el_poller v" "el_thread_id (exchange i z) = el_thread_id v"
    "nt_loops (exchange i z) = (nt_loops v)[i := (park z, nt_request z)]"
    "el_wakeup_count (exchange i z) = el_wakeup_count v + 1"
proof -
  note s = els [unfolded served_elsewhere_def] and e = ans(1) [unfolded answered_closing_def exchange_same]
  obtain l q where l: "nt_loops v ! i = (l, q)" by fastforce
  have i: "i < length (nt_loops v)" using s by blast
  note f = exchange_fields [OF i l]
  have "el_thread_id v \<notin> (\<lambda>x. el_thread_id (fst x)) ` set (nt_loops v)" using s by simp
  then have ne: "el_thread_id v \<noteq> el_thread_id l" using nth_mem [OF i] l by force
  let ?b = "(EventLoop_QueueInLoop (el_thread_id l) (DoRemove a) (park v))\<lparr>el_channels := Map.empty\<rparr>"
  have z: "nt_loops z = (nt_loops v)[i := (?b, nt_request v)]" using e i by (simp add: queue_at_def f)
  then have j: "i < length (nt_loops z)" "nt_loops z ! i = (?b, nt_request v)" using i by simp_all
  note g = exchange_fields [OF j]
  have b: "el_poller ?b = el_poller v" "el_thread_id ?b = el_thread_id v" "el_pending_functors ?b = [DoRemove a]"
    "el_wakeup_channel ?b = el_wakeup_channel v" "el_timer_channel ?b = el_timer_channel v" "el_quit_flag ?b = False"
    "el_wakeup_count ?b = el_wakeup_count v + 1"
    using ne base
    by (simp_all add: EventLoop_QueueInLoop_def EventLoop_push_functor_def EventLoop_Wakeup_def EventLoop_isLoopThread_def Let_def)
      (simp_all add: park_def event_loop.defs)
  show "el_poller (exchange i z) = el_poller v" "el_thread_id (exchange i z) = el_thread_id v" by (simp_all add: g b)
  show loops: "nt_loops (exchange i z) = (nt_loops v)[i := (park z, nt_request z)]" by (simp add: g(6) z)
  have quit: "el_quit_flag (exchange i z) = False" "el_wakeup_count (exchange i z) = el_wakeup_count ?b"
    using j b by (simp_all add: exchange_def event_loop.defs)
  then show "el_wakeup_count (exchange i z) = el_wakeup_count v + 1" by (simp add: b)
  obtain ib ob where c2: "nt_conns z = (nt_conns v)(a \<mapsto> c\<lparr>tc_input_buffer := ib, tc_output_buffer := ob, tc_state := kDisconnected\<rparr>)"
    using e by blast
  obtain ch' where ch': "get_channel (a + 1) z = Some ch'" "\<not> ch_event_handling ch'" "\<not> ch_run_in_loop_flag ch'"
    using e by blast
  have table: "pl_channels_map (el_poller z) = map_erase (ch_fd ch) (pl_channels_map (el_poller l))"
    "el_wakeup_channel z = el_wakeup_channel l" "el_timer_channel z = el_timer_channel l"
    using e by (simp_all add: f ans(2))
  have "a + 1 \<notin> snd ` set (map_erase (ch_fd ch) (pl_channels_map (el_poller l)))"
    using s l by (intro not_value_erased) auto
  then have "\<not> loop_owns (a + 1) (park z)" using s l by (simp add: loop_owns_def table)
  moreover have "\<And>j. j < length (nt_loops v) \<Longrightarrow> j \<noteq> i \<Longrightarrow> \<not> loop_owns (a + 1) (fst (nt_loops v ! j))" using s by blast
  ultimately have "\<not> other_loop_owns (a + 1) (nt_loops (exchange i z))"
    unfolding loops by (intro other_loop_owns_update)
  then have "\<not> channel_owned (a + 1) (exchange i z)"
    using s e by (simp add: channel_owned_def g(1-3) b) (simp add: loop_owns_def)
  then show "\<exists>ib ob ch'. removal_queued a (c\<lparr>tc_input_buffer := ib, tc_output_buffer := ob, tc_state := kDisconnected\<rparr>) ch' (exchange i z) \<and>
       nt_conns z = (nt_conns v)(a \<mapsto> c\<lparr>tc_input_buffer := ib, tc_output_buffer := ob, tc_state := kDisconnected\<rparr>)"
    using s e c2 ch' quit(1)
    by (intro exI [of _ ib] exI [of _ ob] exI [of _ ch']) (simp add: removal_queued_def g(4) b(3))
qed

text \<open>The world after the request was answered and the connection released.\<close>

definition released :: "nat \<Rightarrow> nat \<Rightarrow> nat \<Rightarrow> tcp_connection \<Rightarrow> closure channel \<Rightarrow> int \<Rightarrow> net \<Rightarrow> net \<Rightarrow> bool" where
  "released i wb a c ch n v w \<longleftrightarrow> nt_conns w = (nt_conns v)(a := None) \<and>
     (\<forall>h. h \<noteq> wb \<longrightarrow> get_channel h w = (if h = a + 1 then None else get_channel h v)) \<and>
     nt_connection_map w = map_erase (tc_name c) (nt_connection_map v) \<and> nt_stack w = nt_stack v \<and>
     nt_calls w = nt_calls v @ [SysSend (ch_fd ch) HttpServer_response n, SysClose (tc_socket c)] \<and>
     pl_channels_map (el_poller (fst (nt_loops w ! i))) =
       map_erase (ch_fd ch) (pl_channels_map (el_poller (fst (nt_loops v ! i)))) \<and>
     el_poller w = el_poller v \<and> el_pending_functors w = [] \<and> el_wakeup_count w = 0"

lemma answers_and_releases:
  assumes els: "served_elsewhere i a c ch v" and base: "el_quit_flag v = False" "el_pending_functors v = []" "1 < pl_events_size (el_poller v)"
    and wb: "get_channel wb v = Some wch" "ch_read_call_back wch = Some OnWakeup" "wb \<noteq> a + 1"
    and l: "l = fst (nt_loops v ! i)" "el_quit_flag l = False" "el_pending_functors l = []" "1 < pl_events_size (el_poller l)"
    and input: "http_input c data (exchange i v)" and data: "data = render_request ''GET'' p vs hs"
    and ok: "token p" "token vs" "list_all good_header hs" and read: "ch_read_call_back ch = Some (OnRead a)"
  shows "\<exists>u w. take_turn http_user (el_thread_id l) (Inr [(a + 1, EPOLLIN)]) v = Inr u \<and>
     nt_conns u a \<noteq> None \<and> get_channel (a + 1) u \<noteq> None \<and> el_pending_functors u = [DoRemove a] \<and>
     el_wakeup_count u = el_wakeup_count v + 1 \<and>
     take_turn http_user (el_thread_id v) (Inr [(wb, EPOLLIN)]) u = Inr w \<and>
     released i wb a c ch (fst (next_send v)) v w"
proof -
  note s = els [unfolded served_elsewhere_def]
  obtain q where q: "nt_loops v ! i = (l, q)" using l(1) by (cases "nt_loops v ! i") simp
  have i: "i < length (nt_loops v)" and ids: "el_thread_id v \<notin> (\<lambda>x. el_thread_id (fst x)) ` set (nt_loops v)"
    "distinct (map (\<lambda>x. el_thread_id (fst x)) (nt_loops v))" using s by simp_all
  note f = exchange_fields [OF i q]
  have ne: "el_thread_id l \<noteq> el_thread_id v" using ids(1) nth_mem [OF i] q by force
  have quit: "el_quit_flag (exchange i v) = False" "fst (next_send (exchange i v)) = fst (next_send v)"
    using i q l(2) by (simp add: exchange_def event_loop.defs, simp add: next_send_def split: list.splits)
  obtain y where y: "EventLoop_Loop_while (run_event http_user) drop_functors [Inr [(a + 1, EPOLLIN)]] (exchange i v) = Inr y"
    "answered_closing i a c (ch\<lparr>ch_trigger_events := EPOLLIN\<rparr>) (exchange i v) y"
    using io_round [OF serves_elsewhere [OF els] input data ok read quit(1)] l(3,4) by (auto simp: f)
  note e = y(2) [unfolded answered_closing_def]
  have "loop_slot (el_thread_id l) (nt_loops v) = Some i" using loop_slot_nth [OF ids(2) i] q by simp
  then have turn: "take_turn http_user (el_thread_id l) (Inr [(a + 1, EPOLLIN)]) v = Inr (exchange i y)"
    using ne y(1) by (simp add: take_turn_def on_loop_def)
  let ?c = "\<lambda>ib ob. c\<lparr>tc_input_buffer := ib, tc_output_buffer := ob, tc_state := kDisconnected\<rparr>"
  have fd: "ch_fd (ch\<lparr>ch_trigger_events := EPOLLIN\<rparr>) = ch_fd ch" by simp
  note found = base_finds [OF els base(1,2) y(2) fd]
  obtain ib ob ch' where pend: "removal_queued a (?c ib ob) ch' (exchange i y)" "nt_conns y = (nt_conns v)(a \<mapsto> ?c ib ob)"
    using found(1) by blast
  have wbu: "get_channel wb (exchange i y) = Some wch" using e wb by simp
  obtain w where w: "EventLoop_Loop_while (run_event http_user) drop_functors [Inr [(wb, EPOLLIN)]] (exchange i y) = Inr w"
    "removed wb a (?c ib ob) (exchange i y) w"
    using base_removes [OF pend(1) wbu wb(2,3), of http_user] base(3) found(2) by auto
  note r = w(2) [unfolded removed_def]
  have "released i wb a c ch (fst (next_send v)) v w"
    using r e i pend(2) quit(2) l(1) unfolding released_def
    by (simp add: found f)
  moreover have "take_turn http_user (el_thread_id v) (Inr [(wb, EPOLLIN)]) (exchange i y) = Inr w"
    using w(1) by (simp add: take_turn_def found)
  moreover have "el_pending_functors (exchange i y) = [DoRemove a]" using pend(1) by (simp add: removal_queued_def)
  ultimately show ?thesis
    using turn e pend(2) found(5) by (intro exI [of _ "exchange i y"] exI [of _ w]) auto
qed

text \<open>The base loop takes its turn before the serving thread is done with the event.\<close>

lemma release_races:
  assumes els: "served_elsewhere i a c ch v" and base: "el_quit_flag v = False" "el_pending_functors v = []" "1 < pl_events_size (el_poller v)"
    and wb: "get_channel wb v = Some wch" "ch_read_call_back wch = Some OnWakeup" "wb \<noteq> a + 1"
    and l: "l = fst (nt_loops v ! i)" "1 < pl_events_size (el_poller l)"
    and input: "http_input c data (exchange i v)" and data: "data = render_request ''GET'' p vs hs"
    and ok: "token p" "token vs" "list_all good_header hs" and read: "ch_read_call_back ch = Some (OnRead a)"
  shows "on_loop (el_thread_id l) (EventLoop_iteration
       (\<lambda>f w. obind (run_event http_user f w) (take_turn http_user (el_thread_id v) (Inr [(wb, EPOLLIN)])))
       drop_functors (Inr [(a + 1, EPOLLIN)])) v = Inl UseAfterFree"
proof -
  let ?run = "\<lambda>f w. obind (run_event http_user f w) (take_turn http_user (el_thread_id v) (Inr [(wb, EPOLLIN)]))"
  let ?x = "exchange i v" and ?ch = "ch\<lparr>ch_trigger_events := EPOLLIN\<rparr>"
  note s = els [unfolded served_elsewhere_def]
  obtain q where q: "nt_loops v ! i = (l, q)" using l(1) by (cases "nt_loops v ! i") simp
  have i: "i < length (nt_loops v)" and ids: "el_thread_id v \<notin> (\<lambda>x. el_thread_id (fst x)) ` set (nt_loops v)"
    "distinct (map (\<lambda>x. el_thread_id (fst x)) (nt_loops v))" using s by simp_all
  note f = exchange_fields [OF i q]
  have ne: "el_thread_id l \<noteq> el_thread_id v" using ids(1) nth_mem [OF i] q by force
  have serves: "serves i a c ch ?x" by (rule serves_elsewhere [OF els])
  have get: "get_channel (a + 1) ?x = Some ch" using serves by (simp add: serves_def)
  obtain y where y: "run_event http_user (OnRead a) (put_channel (a + 1) (?ch\<lparr>ch_event_handling := True\<rparr>) (at_event a ?x ch)) = Inr y"
    "answered_closing i a c ?ch ?x y" using event_reads [OF serves input data ok] by auto
  note e = y(2) [unfolded answered_closing_def]
  have fd: "ch_fd ?ch = ch_fd ch" by simp
  note found = base_finds [OF els base(1,2) y(2) fd]
  obtain c2 ch' where pend: "removal_queued a c2 ch' (exchange i y)" using found(1) by blast
  have wbu: "get_channel wb (exchange i y) = Some wch" using e wb by simp
  obtain w where w: "EventLoop_Loop_while (run_event http_user) drop_functors [Inr [(wb, EPOLLIN)]] (exchange i y) = Inr w"
    "removed wb a c2 (exchange i y) w"
    using base_removes [OF pend wbu wb(2,3), of http_user] base(3) found(2) by auto
  have "loop_slot (el_thread_id v) (nt_loops y) = loop_slot (el_thread_id v) (nt_loops ?x)"
    using e by (intro loop_slot_map) simp
  also have "\<dots> = Some i" using serves s by (simp add: serves_def)
  finally have "take_turn http_user (el_thread_id v) (Inr [(wb, EPOLLIN)]) y = Inr (exchange i w)"
    using w(1) ne e by (simp add: take_turn_def on_loop_def f)
  then have run: "?run (OnRead a) (put_channel (a + 1) (?ch\<lparr>ch_event_handling := True\<rparr>) (at_event a ?x ch)) = Inr (exchange i w)"
    using y(1) by simp
  have gone: "get_channel (a + 1) (exchange i w) = None" using w(2) wb(3) by (simp add: removed_def)
  have at: "get_channel (a + 1) (at_event a ?x ch) = Some ?ch" by (simp add: at_event_def put_channel_def get_channel_def)
  have "dispatched ?ch = [OnRead a]" using read by (simp add: dispatched_def guarded_def)
  from heap.HandleEvent_destroyed [where run = ?run, OF at this run gone]
  have "EventLoop_iteration ?run drop_functors (Inr [(a + 1, EPOLLIN)]) ?x = Inl UseAfterFree"
    using iteration_one [OF get _ at_event_def, of ?run drop_functors] l(2) by (simp add: f)
  moreover have "loop_slot (el_thread_id l) (nt_loops v) = Some i" using loop_slot_nth [OF ids(2) i] q by simp
  ultimately show ?thesis using ne by (simp add: on_loop_def)
qed

section \<open>Properties\<close>

text \<open>
  A complete request of connection \<open>a\<close> waits for loop \<open>i\<close>. That loop and the base loop are idle; \<open>wb\<close> is the wakeup channel of the base
  loop.
\<close>

definition request_waits :: "nat \<Rightarrow> nat \<Rightarrow> nat \<Rightarrow> tcp_connection \<Rightarrow> closure channel \<Rightarrow> string \<Rightarrow> net \<Rightarrow> bool" where
  "request_waits i wb a c ch data v \<longleftrightarrow> served_elsewhere i a c ch v \<and> http_input c data (exchange i v) \<and>
     ch_read_call_back ch = Some (OnRead a) \<and>
     el_quit_flag v = False \<and> el_pending_functors v = [] \<and> 1 < pl_events_size (el_poller v) \<and>
     wb \<noteq> a + 1 \<and> (\<exists>wch. get_channel wb v = Some wch \<and> ch_read_call_back wch = Some OnWakeup) \<and>
     (let l = fst (nt_loops v ! i) in el_quit_flag l = False \<and> el_pending_functors l = [] \<and> 1 < pl_events_size (el_poller l))"

text \<open>C7: on several threads, turn by turn: the serving thread answers a complete \<open>GET\<close> without a fault and wakes up the base loop,
  which still finds the connection and its channel alive; in its next turn the base loop takes the
  connection out of the table, frees it and its channel and closes the socket once, and every other
  connection, channel and table entry stays as it was.\<close>

theorem TcpServer_threads_answer_and_release:
  assumes "request_waits i wb a c ch data v" "data = render_request ''GET'' p vs hs"
    and "token p" "token vs" "list_all good_header hs"
  shows "\<exists>u w. take_turn http_user (tc_event_loop c) (Inr [(a + 1, EPOLLIN)]) v = Inr u \<and>
     nt_conns u a \<noteq> None \<and> get_channel (a + 1) u \<noteq> None \<and> el_pending_functors u = [DoRemove a] \<and>
     el_wakeup_count u = el_wakeup_count v + 1 \<and>
     take_turn http_user (el_thread_id v) (Inr [(wb, EPOLLIN)]) u = Inr w \<and>
     released i wb a c ch (fst (next_send v)) v w"
proof -
  let ?l = "fst (nt_loops v ! i)"
  have "el_thread_id ?l = tc_event_loop c" using assms(1) by (simp add: request_waits_def served_elsewhere_def)
  moreover obtain wch where wch: "get_channel wb v = Some wch" "ch_read_call_back wch = Some OnWakeup"
    using assms(1) by (auto simp: request_waits_def)
  ultimately show ?thesis
    using answers_and_releases [OF _ _ _ _ wch _ refl _ _ _ _ assms(2-5), of i a c ch] assms(1)
    by (simp add: request_waits_def Let_def)
qed

text \<open>Two threads: loop 2 serves connection 20, channel 19 wakes up the base loop.\<close>

definition two_threads :: net where
  "two_threads = (put_channel 19 (wakeup_channel 4) (client_world EPOLLIN [263] HttpRequest_zero))
     \<lparr>nt_conns := [20 \<mapsto> (new_conn 5 no_addr ready_net)\<lparr>tc_event_loop := 2\<rparr>], el_poller := EpollPoller_new 3,
      nt_loops := [((EventLoop_new 2 9 10 11 False)\<lparr>el_poller := (EpollPoller_new 9)\<lparr>pl_channels_map := [(5, 21)]\<rparr>\<rparr>,
        HttpRequest_zero)]\<rparr>"

lemma two_threads:
  "request_waits 0 19 20 ((new_conn 5 no_addr ready_net)\<lparr>tc_event_loop := 2\<rparr>) ((new_channel 5 20)\<lparr>ch_trigger_events := EPOLLIN\<rparr>)
     get_request two_threads"
  "el_thread_id two_threads = 1" "next_send two_threads = (263, two_threads\<lparr>nt_send := []\<rparr>)" "nt_calls two_threads = []"
proof -
  have size: "length get_request \<le> 512" "get_request \<noteq> []" by code_simp+
  have loops: "0 < length (nt_loops two_threads)" "nt_loops two_threads ! 0 =
      ((EventLoop_new 2 9 10 11 False)\<lparr>el_poller := (EpollPoller_new 9)\<lparr>pl_channels_map := [(5, 21)]\<rparr>\<rparr>, HttpRequest_zero)"
    by (simp_all add: two_threads_def)
  have rd: "nt_readv two_threads = [Some get_request]" "nt_request (exchange 0 two_threads) = HttpRequest_zero"
    using loops by (simp add: two_threads_def client_world_def put_channel_def, simp add: exchange_def)
  have "http_input ((new_conn 5 no_addr ready_net)\<lparr>tc_event_loop := 2\<rparr>) get_request (exchange 0 two_threads)"
    using size
    by (simp add: http_input_def rd new_conn_def Let_def Buffer_kInitialSize_def bf_invar_def bf_contents_def out_idle_def
        Buffer_WriteableBytes_def sz_sub_id HttpRequest_zero_def) (simp add: ready_net_def)
  moreover have "served_elsewhere 0 20 ((new_conn 5 no_addr ready_net)\<lparr>tc_event_loop := 2\<rparr>)
      ((new_channel 5 20)\<lparr>ch_trigger_events := EPOLLIN\<rparr>) two_threads"
    by (simp add: served_elsewhere_def loops loop_owns_def)
      (simp add: two_threads_def client_world_def put_conn_def put_channel_def get_channel_def new_conn_def Let_def ready_net_def
        net_new_def event_loop.defs EventLoop_new_def new_channel_def Channel_EnableReading_def Channel_new_def EpollPoller_new_def)
  ultimately show "request_waits 0 19 20 ((new_conn 5 no_addr ready_net)\<lparr>tc_event_loop := 2\<rparr>)
      ((new_channel 5 20)\<lparr>ch_trigger_events := EPOLLIN\<rparr>) get_request two_threads"
    by (simp add: request_waits_def loops)
      (simp add: two_threads_def client_world_def put_conn_def put_channel_def get_channel_def ready_net_def
        net_new_def event_loop.defs EventLoop_new_def new_channel_def Channel_EnableReading_def Channel_new_def EpollPoller_new_def
        kEventInitSize_def wakeup_channel_def io_channel_def)
  show "el_thread_id two_threads = 1" "next_send two_threads = (263, two_threads\<lparr>nt_send := []\<rparr>)" "nt_calls two_threads = []"
    by (simp_all add: two_threads_def client_world_def put_conn_def put_channel_def ready_net_def net_new_def event_loop.defs
        EventLoop_new_def next_send_def)
qed

theorem TcpServer_threads_answer_and_release_witness:
  "\<exists>u w. take_turn http_user 2 (Inr [(21, EPOLLIN)]) two_threads = Inr u \<and> nt_conns u 20 \<noteq> None \<and>
     take_turn http_user 1 (Inr [(19, EPOLLIN)]) u = Inr w \<and> nt_conns w 20 = None \<and> get_channel 21 w = None \<and>
     nt_calls w = [SysSend 5 HttpServer_response 263, SysClose 5]"
  using TcpServer_threads_answer_and_release [OF two_threads(1) get_request_def get_request_good]
  by (auto simp: two_threads(2-) released_def new_channel_def Channel_EnableReading_def Channel_new_def new_conn_def Let_def)

text \<open>C29: on several threads, not turn by turn: nothing makes the base loop wait until the serving thread is done with the event. When
  it takes its turn after the read callback has returned and before \<open>HandleEvent\<close> has, the serving thread
  goes on with a freed channel.\<close>

theorem TcpServer_threads_release_race:
  assumes "request_waits i wb a c ch data v" "data = render_request ''GET'' p vs hs"
    and "token p" "token vs" "list_all good_header hs"
  shows "on_loop (tc_event_loop c) (EventLoop_iteration
       (\<lambda>f w. obind (run_event http_user f w) (take_turn http_user (el_thread_id v) (Inr [(wb, EPOLLIN)])))
       drop_functors (Inr [(a + 1, EPOLLIN)])) v = Inl UseAfterFree"
proof -
  have "el_thread_id (fst (nt_loops v ! i)) = tc_event_loop c" using assms(1) by (simp add: request_waits_def served_elsewhere_def)
  moreover obtain wch where wch: "get_channel wb v = Some wch" "ch_read_call_back wch = Some OnWakeup"
    using assms(1) by (auto simp: request_waits_def)
  ultimately show ?thesis
    using release_races [OF _ _ _ _ wch _ refl _ _ assms(2-5), of i a c ch] assms(1)
    by (simp add: request_waits_def Let_def)
qed

theorem TcpServer_threads_release_race_witness:
  "on_loop 2 (EventLoop_iteration (\<lambda>f w. obind (run_event http_user f w) (take_turn http_user 1 (Inr [(19, EPOLLIN)])))
     drop_functors (Inr [(21, EPOLLIN)])) two_threads = Inl UseAfterFree"
  using TcpServer_threads_release_race [OF two_threads(1) get_request_def get_request_good] by (simp add: two_threads(2))

end
