(* ===== verification/Loop_Wakeup.thy ===== *)
theory Loop_Wakeup
  imports Event_Loop
begin

text \<open>
  The event loop and the other threads that queue functors, as an interleaving of atomic steps. The
  steps of the loop's thread are the phases of an iteration of \<open>EventLoop::Loop\<close>; a queueing thread
  first pushes under the mutex and then writes the eventfd, and anything may happen in between.
  The question is whether a queued functor can be left behind with the loop asleep.
\<close>

section \<open>Steps\<close>

datatype 'f phase =
    Polling              \<comment> \<open>in \<open>epoll_wait\<close>\<close>
  | Dispatching          \<comment> \<open>handling the active channels\<close>
  | Running "'f list"    \<comment> \<open>in \<open>DoPendingFunctors\<close>, these functors left\<close>

record ('f, 'w) system =
  sy_phase :: "'f phase"
  sy_loop :: 'w
  sy_writers :: nat      \<comment> \<open>threads between pushing and writing the eventfd\<close>

text \<open>
  \<open>epoll_wait\<close> returns because the eventfd is readable or because of another descriptor. A handler
  may read the eventfd and queue functors of its own; \<open>poll_ready\<close> says which.
\<close>

inductive loop_step :: "('f \<Rightarrow> ('f, 'z) event_loop_scheme \<Rightarrow> ('f, 'z) event_loop_scheme outcome) \<Rightarrow>
    ('f, ('f, 'z) event_loop_scheme) system \<Rightarrow> ('f, ('f, 'z) event_loop_scheme) system \<Rightarrow> bool"
  for run where
  push: "loop_step run s (s\<lparr>sy_loop := EventLoop_push_functor f (sy_loop s), sy_writers := Suc (sy_writers s)\<rparr>)"
| wake: "0 < sy_writers s \<Longrightarrow>
    loop_step run s (s\<lparr>sy_loop := EventLoop_Wakeup (sy_loop s), sy_writers := sy_writers s - 1\<rparr>)"
| poll: "sy_phase s = Polling \<Longrightarrow> loop_step run s (s\<lparr>sy_phase := Dispatching\<rparr>)"
| on_wakeup: "sy_phase s = Dispatching \<Longrightarrow>
    loop_step run s (s\<lparr>sy_loop := EventLoop_HandleWakeUpEvent (sy_loop s)\<rparr>)"
| handler: "sy_phase s = Dispatching \<Longrightarrow>
    loop_step run s (s\<lparr>sy_loop := EventLoop_QueueInLoop (el_thread_id (sy_loop s)) f (sy_loop s)\<rparr>)"
| take: "sy_phase s = Dispatching \<Longrightarrow>
    loop_step run s (s\<lparr>sy_phase := Running (el_pending_functors (sy_loop s)),
                       sy_loop := EventLoop_take_functors (sy_loop s)\<rparr>)"
| run: "sy_phase s = Running (f # fs) \<Longrightarrow> run f (sy_loop s) = Inr w \<Longrightarrow>
    loop_step run s (s\<lparr>sy_phase := Running fs, sy_loop := w\<rparr>)"
| again: "sy_phase s = Running [] \<Longrightarrow> loop_step run s (s\<lparr>sy_phase := Polling\<rparr>)"

inductive_cases loop_stepE: "loop_step run s t"

definition sys_init :: "('f, 'z) event_loop_scheme \<Rightarrow> ('f, ('f, 'z) event_loop_scheme) system" where
  "sys_init w = \<lparr>sy_phase = Polling, sy_loop = w, sy_writers = 0\<rparr>"

section \<open>No functor is left behind\<close>

text \<open>The loop sleeps on queued functors and nobody is going to wake it.\<close>

definition stranded :: "('f, ('f, 'z) event_loop_scheme) system \<Rightarrow> bool" where
  "stranded s \<longleftrightarrow> sy_phase s = Polling \<and> el_pending_functors (sy_loop s) \<noteq> [] \<and>
     el_wakeup_count (sy_loop s) = 0 \<and> sy_writers s = 0"

text \<open>A functor is safe if what it leaves queued beyond what was there comes with a wakeup.\<close>

definition wakes :: "('f \<Rightarrow> ('f, 'z) event_loop_scheme \<Rightarrow> ('f, 'z) event_loop_scheme outcome) \<Rightarrow> bool" where
  "wakes run \<longleftrightarrow> (\<forall>f w w'. run f w = Inr w' \<longrightarrow>
     0 < el_wakeup_count w' \<or>
     el_pending_functors w' = el_pending_functors w \<and> el_wakeup_count w' = el_wakeup_count w)"

definition sys_invar :: "('f, ('f, 'z) event_loop_scheme) system \<Rightarrow> bool" where
  "sys_invar s \<longleftrightarrow> (sy_phase s = Dispatching \<or> el_pending_functors (sy_loop s) = [] \<or>
     0 < el_wakeup_count (sy_loop s) \<or> 0 < sy_writers s)"

lemmas sys_simps = EventLoop_push_functor_def EventLoop_Wakeup_def EventLoop_HandleWakeUpEvent_def
  EventLoop_take_functors_def EventLoop_QueueInLoop_def EventLoop_isLoopThread_def

lemma sys_invar_step: "loop_step run s t \<Longrightarrow> wakes run \<Longrightarrow> sys_invar s \<Longrightarrow> sys_invar t"
proof (induction rule: loop_step.induct)
  case (run s f fs w)
  then have "0 < el_wakeup_count w \<or> el_pending_functors w = el_pending_functors (sy_loop s) \<and>
      el_wakeup_count w = el_wakeup_count (sy_loop s)"
    unfolding wakes_def by blast
  with run show ?case by (auto simp: sys_invar_def)
qed (auto simp: sys_invar_def sys_simps Let_def)

lemma sys_invar_reachable:
  "(loop_step run)\<^sup>*\<^sup>* s t \<Longrightarrow> wakes run \<Longrightarrow> sys_invar s \<Longrightarrow> sys_invar t"
  by (induction rule: rtranclp_induct) (auto intro: sys_invar_step)





text \<open>The flag that should say that functors are being run is never set. With its usual zero
  value, a functor that queues another one from the loop's thread writes no wakeup, and the loop
  goes to sleep on it.\<close>

theorem EventLoop_queue_from_functor_stranded:
  fixes w :: "('f, 'z) event_loop_scheme"
  assumes flag: "\<not> el_calling_pend_functors_flag w" and fresh: "el_pending_functors w = []" "el_wakeup_count w = 0"
    and run: "\<And>v. run f v = Inr (EventLoop_QueueInLoop (el_thread_id v) g v)"
  shows "\<exists>s. (loop_step run)\<^sup>*\<^sup>* (sys_init w) s \<and> stranded s \<and> el_pending_functors (sy_loop s) = [g]"
proof -
  let ?S = "\<lambda>p w n. \<lparr>sy_phase = p, sy_loop = w, sy_writers = n\<rparr>"
  let ?w1 = "EventLoop_push_functor f w"
  let ?w2 = "EventLoop_Wakeup ?w1"
  let ?w3 = "EventLoop_HandleWakeUpEvent ?w2"
  let ?w4 = "EventLoop_take_functors ?w3"
  let ?w5 = "EventLoop_QueueInLoop (el_thread_id ?w4) g ?w4"
  have steps: "loop_step run (?S Polling w 0) (?S Polling ?w1 1)"
    "loop_step run (?S Polling ?w1 1) (?S Polling ?w2 0)"
    "loop_step run (?S Polling ?w2 0) (?S Dispatching ?w2 0)"
    "loop_step run (?S Dispatching ?w2 0) (?S Dispatching ?w3 0)"
    "loop_step run (?S Dispatching ?w3 0) (?S (Running [f]) ?w4 0)"
    "loop_step run (?S (Running [f]) ?w4 0) (?S (Running []) ?w5 0)"
    "loop_step run (?S (Running []) ?w5 0) (?S Polling ?w5 0)"
    using loop_step.push [of run "?S Polling w 0" f] loop_step.wake [of "?S Polling ?w1 1" run]
      loop_step.poll [of "?S Polling ?w2 0" run] loop_step.on_wakeup [of "?S Dispatching ?w2 0" run]
      loop_step.take [of "?S Dispatching ?w3 0" run] loop_step.again [of "?S (Running []) ?w5 0" run]
      loop_step.run [of "?S (Running [f]) ?w4 0" f "[]" run ?w5] run [of ?w4] fresh
    by (simp_all add: sys_simps)
  have "(loop_step run)\<^sup>*\<^sup>* (?S Polling w 0) (?S Polling ?w5 0)"
    by (rule converse_rtranclp_into_rtranclp [of "loop_step run"], rule steps)+ simp
  moreover have "stranded (?S Polling ?w5 0)" "el_pending_functors ?w5 = [g]"
    using flag fresh by (simp_all add: stranded_def sys_simps Let_def)
  ultimately show ?thesis unfolding sys_init_def by (intro exI [of _ "?S Polling ?w5 0"]) simp
qed

theorem EventLoop_queue_from_functor_stranded_witness:
  "\<exists>s. (loop_step (\<lambda>f w. Inr (if f = (1::nat) then EventLoop_QueueInLoop (el_thread_id w) 2 w else w)))\<^sup>*\<^sup>*
      (sys_init (EventLoop_new 1 3 4 6 False)) s \<and> stranded s \<and> el_pending_functors (sy_loop s) = [2]"
  by (rule EventLoop_queue_from_functor_stranded [where f = 1]) (simp_all add: EventLoop_new_def)

text \<open>With the flag set while functors run, such a functor would be safe.\<close>

lemma queue_with_flag_wakes:
  "el_calling_pend_functors_flag v \<Longrightarrow> 0 < el_wakeup_count (EventLoop_QueueInLoop tid g v)"
  by (simp add: sys_simps)

end
