(* ===== verification/Log_Stream.thy ===== *)
theory Log_Stream
  imports Text_Format Timer_Queue
begin

text \<open>
  \<open>FixedBuffer\<close> and \<open>LogStream\<close> (LogStream.h, LogStream.cc) and the front end \<open>Logger\<close> (Logger.h,
  Logger.cc). A fixed buffer is an array with a position; its size is the length of the array, so
  the template parameter needs no separate argument.
\<close>

section \<open>\<open>FixedBuffer\<close>\<close>

definition kSmallBuffer :: nat where "kSmallBuffer = 4000"
definition kLargeBuffer :: nat where "kLargeBuffer = 4000 * 1000"

record fixed_buffer =
  fb_data :: "char list"
  fb_cur :: nat

text \<open>\<open>static_cast<int>\<close> of a 64-bit difference.\<close>

definition wrap32 :: "int \<Rightarrow> int" where
  "wrap32 i = (i + 2 ^ 31) mod 2 ^ 32 - 2 ^ 31"

text \<open>The array is not initialised: \<open>junk\<close> is its content.\<close>

definition FixedBuffer_new :: "char list \<Rightarrow> fixed_buffer" where
  "FixedBuffer_new junk = \<lparr>fb_data = junk, fb_cur = 0\<rparr>"

definition FixedBuffer_Available :: "fixed_buffer \<Rightarrow> int" where
  "FixedBuffer_Available b = wrap32 (int (length (fb_data b)) - int (fb_cur b))"

definition FixedBuffer_Length :: "fixed_buffer \<Rightarrow> int" where
  "FixedBuffer_Length b = wrap32 (int (fb_cur b))"

text \<open>\<open>buf\<close> is the memory the pointer refers to.\<close>

definition FixedBuffer_Append :: "char list \<Rightarrow> nat \<Rightarrow> fixed_buffer \<Rightarrow> fixed_buffer outcome" where
  "FixedBuffer_Append buf len b =
     (if to_int32 len < FixedBuffer_Available b
      then check (len \<le> length buf) BadAccess
             (obind (store_block (fb_cur b) (take len buf) (fb_data b)) (\<lambda>d.
               Inr (b\<lparr>fb_data := d, fb_cur := fb_cur b + len\<rparr>)))
      else Inr b)"

definition FixedBuffer_Data :: "fixed_buffer \<Rightarrow> char list" where
  "FixedBuffer_Data b = fb_data b"

definition FixedBuffer_Current :: "fixed_buffer \<Rightarrow> nat" where
  "FixedBuffer_Current b = fb_cur b"

definition FixedBuffer_Add :: "nat \<Rightarrow> fixed_buffer \<Rightarrow> fixed_buffer" where
  "FixedBuffer_Add len b = b\<lparr>fb_cur := fb_cur b + len\<rparr>"

definition FixedBuffer_Clear :: "fixed_buffer \<Rightarrow> fixed_buffer" where
  "FixedBuffer_Clear b = b\<lparr>fb_data := replicate (length (fb_data b)) NUL, fb_cur := 0\<rparr>"

definition fb_contents :: "fixed_buffer \<Rightarrow> string" where
  "fb_contents b = take (fb_cur b) (fb_data b)"

text \<open>One byte always stays free.\<close>

definition fb_invar :: "fixed_buffer \<Rightarrow> bool" where
  "fb_invar b \<longleftrightarrow> fb_cur b < length (fb_data b) \<and> length (fb_data b) < 2 ^ 31"

lemma wrap32_id: "- (2 ^ 31) \<le> i \<Longrightarrow> i < 2 ^ 31 \<Longrightarrow> wrap32 i = i"
  by (simp add: wrap32_def)

lemma fb_sizes:
  assumes "fb_invar b"
  shows "FixedBuffer_Available b = int (length (fb_data b) - fb_cur b)"
    and "FixedBuffer_Length b = int (length (fb_contents b))" and "length (fb_contents b) = fb_cur b"
proof -
  have "int (length (fb_data b)) - int (fb_cur b) = int (length (fb_data b) - fb_cur b)"
    using assms by (simp add: fb_invar_def)
  then show "FixedBuffer_Available b = int (length (fb_data b) - fb_cur b)"
    using assms by (simp add: FixedBuffer_Available_def fb_invar_def wrap32_id)
  show "length (fb_contents b) = fb_cur b" using assms by (simp add: fb_contents_def fb_invar_def)
  then show "FixedBuffer_Length b = int (length (fb_contents b))"
    using assms by (simp add: FixedBuffer_Length_def fb_invar_def wrap32_id)
qed

lemma fb_append:
  assumes inv: "fb_invar b" and len: "len \<le> length buf" "len < 2 ^ 31"
  shows "\<exists>b'. FixedBuffer_Append buf len b = Inr b' \<and> fb_invar b' \<and> length (fb_data b') = length (fb_data b) \<and>
     fb_contents b' = (if len < length (fb_data b) - fb_cur b then fb_contents b @ take len buf else fb_contents b)"
proof (cases "len < length (fb_data b) - fb_cur b")
  case True
  have lt: "to_int32 len < FixedBuffer_Available b"
    using True len(2) by (simp add: fb_sizes(1) [OF inv] to_int32_id)
  have le: "fb_cur b + length (take len buf) \<le> length (fb_data b)" using True len by simp
  then obtain d where d: "store_block (fb_cur b) (take len buf) (fb_data b) = Inr d" by (simp add: store_block_def)
  then have deq: "d = take (fb_cur b) (fb_data b) @ take len buf @ drop (fb_cur b + len) (fb_data b)"
    using le len by (simp add: store_block_def)
  have "FixedBuffer_Append buf len b = Inr (b\<lparr>fb_data := d, fb_cur := fb_cur b + len\<rparr>)"
    using lt len d by (simp add: FixedBuffer_Append_def)
  moreover have "fb_invar (b\<lparr>fb_data := d, fb_cur := fb_cur b + len\<rparr>)"
    using True inv length_store_block [OF d] by (simp add: fb_invar_def)
  moreover have "fb_contents (b\<lparr>fb_data := d, fb_cur := fb_cur b + len\<rparr>) = fb_contents b @ take len buf"
    using le len inv by (simp add: fb_contents_def deq fb_invar_def min_absorb1)
  ultimately show ?thesis using True length_store_block [OF d] by simp
next
  case False
  then have "\<not> to_int32 len < FixedBuffer_Available b"
    using len(2) by (simp add: fb_sizes(1) [OF inv] to_int32_id)
  with False inv show ?thesis by (simp add: FixedBuffer_Append_def)
qed

text \<open>\<open>FixedBuffer::Append\<close> is all or nothing: the bytes are appended if they are strictly fewer than
  the free bytes and the buffer is unchanged otherwise; the write never leaves the array, and one
  byte of the array stays unused.\<close>

theorem FixedBuffer_Append_all_or_nothing:
  assumes "fb_invar b" "len \<le> length buf" "len < 2 ^ 31"
  shows "\<exists>b'. FixedBuffer_Append buf len b = Inr b' \<and> fb_invar b' \<and> length (fb_data b') = length (fb_data b) \<and>
     fb_contents b' = (if len < length (fb_data b) - fb_cur b then fb_contents b @ take len buf else fb_contents b) \<and>
     FixedBuffer_Length b' = int (length (fb_contents b'))"
  using fb_append [OF assms] fb_sizes(2) by blast

theorem FixedBuffer_Append_all_or_nothing_witness:
  "\<exists>b'. FixedBuffer_Append ''abcd'' 3 (FixedBuffer_new ''........'') = Inr b' \<and> fb_contents b' = ''abc''"
proof -
  have "fb_invar (FixedBuffer_new ''........'')" by (simp add: fb_invar_def FixedBuffer_new_def)
  from FixedBuffer_Append_all_or_nothing [OF this, of 3 "''abcd''"] show ?thesis
    by (auto simp: FixedBuffer_new_def fb_contents_def)
qed

text \<open>The guard compares the length after a cast to \<open>int\<close>: a length between \<open>2 ^ 31\<close> and \<open>2 ^ 32\<close>
  becomes negative, passes, and the copy writes behind the array.\<close>

theorem FixedBuffer_Append_huge:
  assumes "fb_invar b" "2 ^ 31 \<le> len" "len < 2 ^ 32" "len \<le> length buf"
  shows "FixedBuffer_Append buf len b = Inl BadAccess"
proof -
  define k where "k = int len - 2 ^ 31"
  have k: "0 \<le> k" "k < 2 ^ 31" "int len + 2 ^ 31 = k + 2 ^ 32" using assms(2,3) by (simp_all add: k_def)
  then have "(int len + 2 ^ 31) mod 2 ^ 32 = k" by (simp only: mod_add_self2) simp
  then have "to_int32 len < 0" using k(2) by (simp add: to_int32_def)
  moreover have "0 \<le> FixedBuffer_Available b" by (simp add: fb_sizes(1) [OF assms(1)])
  moreover have "\<not> fb_cur b + len \<le> length (fb_data b)"
    using assms(1,2) by (simp add: fb_invar_def)
  ultimately show ?thesis using assms(4) by (simp add: FixedBuffer_Append_def store_block_def min_absorb2)
qed

theorem FixedBuffer_Append_huge_witness:
  "FixedBuffer_Append (replicate (2 ^ 31) (CHR ''x'')) (2 ^ 31) (FixedBuffer_new ''........'') = Inl BadAccess"
  by (rule FixedBuffer_Append_huge) (simp_all add: fb_invar_def FixedBuffer_new_def)

section \<open>\<open>LogStream\<close>\<close>

text \<open>
  What can be streamed. All integer types go through \<open>std::to_string\<close>; \<open>bool\<close> is promoted to \<open>int\<close>.
  For a floating-point value the text \<open>std::to_string\<close> gives is part of the item. A pointer is null
  or refers to memory.
\<close>

datatype log_item =
    LBool bool | LInteger int | LReal string | LChar char
  | LCharPtr "char list option" | LUCharPtr "char list option" | LString string

definition LogStream_Append :: "string \<Rightarrow> fixed_buffer \<Rightarrow> fixed_buffer outcome" where
  "LogStream_Append temp b =
     (if length temp \<le> to_size (FixedBuffer_Available b)
      then FixedBuffer_Append temp (length temp) b else Inr b)"

definition LogStream_put_pointer :: "char list option \<Rightarrow> fixed_buffer \<Rightarrow> fixed_buffer outcome" where
  "LogStream_put_pointer v b =
     (case v of
        Some mem \<Rightarrow> obind (strlen mem) (\<lambda>n. FixedBuffer_Append mem n b)
      | None \<Rightarrow> FixedBuffer_Append ''(null)'' 6 b)"

fun LogStream_put :: "log_item \<Rightarrow> fixed_buffer \<Rightarrow> fixed_buffer outcome" where
  "LogStream_put (LBool v) b = LogStream_Append (to_string_int (if v then 1 else 0)) b"
| "LogStream_put (LInteger v) b = LogStream_Append (to_string_int v) b"
| "LogStream_put (LReal text) b = LogStream_Append text b"
| "LogStream_put (LChar v) b = FixedBuffer_Append [v] 1 b"
| "LogStream_put (LCharPtr v) b = LogStream_put_pointer v b"
| "LogStream_put (LUCharPtr v) b = LogStream_put_pointer v b"
| "LogStream_put (LString v) b = FixedBuffer_Append v (length v) b"

fun LogStream_puts :: "log_item list \<Rightarrow> fixed_buffer \<Rightarrow> fixed_buffer outcome" where
  "LogStream_puts [] b = Inr b"
| "LogStream_puts (x # xs) b = obind (LogStream_put x b) (LogStream_puts xs)"

text \<open>The text of an item, and the items whose text is well defined and of sane length.\<close>

fun item_text :: "log_item \<Rightarrow> string" where
  "item_text (LBool v) = (if v then ''1'' else ''0'')"
| "item_text (LInteger v) = to_string_int v"
| "item_text (LReal text) = text"
| "item_text (LChar v) = [v]"
| "item_text (LCharPtr v) = (case v of None \<Rightarrow> ''(null)'' | Some mem \<Rightarrow> c_string mem)"
| "item_text (LUCharPtr v) = (case v of None \<Rightarrow> ''(null)'' | Some mem \<Rightarrow> c_string mem)"
| "item_text (LString v) = v"

fun item_ok :: "log_item \<Rightarrow> bool" where
  "item_ok (LCharPtr (Some mem)) \<longleftrightarrow> NUL \<in> set mem \<and> length (c_string mem) < 2 ^ 31"
| "item_ok (LUCharPtr (Some mem)) \<longleftrightarrow> NUL \<in> set mem \<and> length (c_string mem) < 2 ^ 31"
| "item_ok x \<longleftrightarrow> length (item_text x) < 2 ^ 31"

text \<open>The texts that fit, one after the other, into \<open>room\<close> bytes of which one stays free.\<close>

fun fitting :: "nat \<Rightarrow> string list \<Rightarrow> string" where
  "fitting room [] = []"
| "fitting room (t # ts) = (if length t < room then t @ fitting (room - length t) ts else fitting room ts)"

lemma to_string_bool: "to_string_int (if v then 1 else 0) = (if v then ''1'' else ''0'')"
  by (cases v) (simp_all, code_simp+)

lemma take_c_string: "take (length (c_string mem)) mem = c_string mem"
  by (simp add: c_string_def takeWhile_eq_take [symmetric])

definition appended :: "fixed_buffer \<Rightarrow> string \<Rightarrow> fixed_buffer outcome \<Rightarrow> bool" where
  "appended b t m \<longleftrightarrow> (\<exists>b'. m = Inr b' \<and> fb_invar b' \<and> length (fb_data b') = length (fb_data b) \<and>
     fb_contents b' = (if length t < length (fb_data b) - fb_cur b then fb_contents b @ t else fb_contents b))"

lemma append_string:
  assumes "fb_invar b" "length t < 2 ^ 31"
  shows "appended b t (FixedBuffer_Append t (length t) b)"
  unfolding appended_def using fb_append [OF assms(1) order_refl assms(2)] by (simp only: take_all order_refl)

lemma append_number:
  assumes inv: "fb_invar b" and len: "length t < 2 ^ 31"
  shows "appended b t (LogStream_Append t b)"
proof (cases "length t \<le> to_size (FixedBuffer_Available b)")
  case True
  with append_string [OF assms] show ?thesis by (simp add: LogStream_Append_def)
next
  case False
  have "length (fb_data b) - fb_cur b < 2 ^ 64" using inv by (simp add: fb_invar_def less_imp_diff_less)
  then have "to_size (FixedBuffer_Available b) = length (fb_data b) - fb_cur b"
    by (simp only: fb_sizes(1) [OF inv] to_size_int)
  with False inv show ?thesis by (simp add: LogStream_Append_def appended_def)
qed

lemma append_pointer:
  assumes inv: "fb_invar b" and mem: "NUL \<in> set mem" "length (c_string mem) < 2 ^ 31"
  shows "appended b (c_string mem) (LogStream_put_pointer (Some mem) b)"
proof -
  have "length (c_string mem) \<le> length mem" by (simp add: c_string_def length_takeWhile_le)
  from fb_append [OF inv this mem(2), unfolded take_c_string] mem(1) show ?thesis
    by (simp add: LogStream_put_pointer_def strlen_def appended_def)
qed

lemma append_null: "fb_invar b \<Longrightarrow> appended b ''(null)'' (LogStream_put_pointer None b)"
proof -
  assume inv: "fb_invar b"
  have six: "length ''(null)'' = 6" by simp
  show ?thesis
    using append_string [OF inv, of "''(null)''"] unfolding six LogStream_put_pointer_def option.case by simp
qed

lemma put_text:
  assumes inv: "fb_invar b" and ok: "item_ok x"
  shows "appended b (item_text x) (LogStream_put x b)"
proof (cases x)
  case (LCharPtr v)
  with ok append_pointer [OF inv] append_null [OF inv] show ?thesis by (cases v) simp_all
next
  case (LUCharPtr v)
  with ok append_pointer [OF inv] append_null [OF inv] show ?thesis by (cases v) simp_all
next
  case (LChar v)
  with append_string [OF inv, of "[v]"] show ?thesis by simp
qed (use ok append_string [OF inv] append_number [OF inv] in \<open>simp_all only: item_ok.simps LogStream_put.simps item_text.simps to_string_bool\<close>)

lemma puts_text:
  "fb_invar b \<Longrightarrow> \<forall>x \<in> set xs. item_ok x \<Longrightarrow>
   \<exists>b'. LogStream_puts xs b = Inr b' \<and> fb_invar b' \<and> length (fb_data b') = length (fb_data b) \<and>
     fb_contents b' = fb_contents b @ fitting (length (fb_data b) - fb_cur b) (map item_text xs)"
proof (induction xs arbitrary: b)
  case (Cons x xs)
  from put_text [OF Cons.prems(1), of x] Cons.prems(2) obtain b1 where
    b1: "LogStream_put x b = Inr b1" "fb_invar b1" "length (fb_data b1) = length (fb_data b)"
    "fb_contents b1 = (if length (item_text x) < length (fb_data b) - fb_cur b
       then fb_contents b @ item_text x else fb_contents b)"
    unfolding appended_def by (metis list.set_intros(1))
  have "fb_cur b1 = (if length (item_text x) < length (fb_data b) - fb_cur b
       then fb_cur b + length (item_text x) else fb_cur b)"
    using arg_cong [OF b1(4), of length] fb_sizes(3) [OF b1(2)] fb_sizes(3) [OF Cons.prems(1)] by (simp split: if_splits)
  with Cons.IH [OF b1(2)] Cons.prems(2) b1 show ?case by auto
qed auto

lemma fitting_all: "length (concat ts) < room \<Longrightarrow> fitting room ts = concat ts"
  by (induction ts arbitrary: room) auto

text \<open>Streaming any items into a fresh \<open>LogStream\<close> leaves the texts of those that fit, in order: an
  item that does not fit is dropped whole while later, shorter ones are still added; if the texts
  together stay below the size of the buffer nothing is lost.\<close>

theorem LogStream_contents:
  assumes "0 < length junk" "length junk < 2 ^ 31" "\<forall>x \<in> set xs. item_ok x"
  shows "\<exists>b. LogStream_puts xs (FixedBuffer_new junk) = Inr b \<and>
     fb_contents b = fitting (length junk) (map item_text xs) \<and>
     (length (concat (map item_text xs)) < length junk \<longrightarrow> fb_contents b = concat (map item_text xs))"
proof -
  have "fb_invar (FixedBuffer_new junk)" using assms by (simp add: fb_invar_def FixedBuffer_new_def)
  from puts_text [OF this assms(3)] fitting_all show ?thesis
    by (fastforce simp: FixedBuffer_new_def fb_contents_def)
qed

theorem LogStream_contents_witness:
  "\<exists>b. LogStream_puts [LString ''n='', LInteger (-12), LString ''much too long'', LCharPtr None]
     (FixedBuffer_new ''............'') = Inr b \<and> fb_contents b = ''n=-12(null)''"
proof -
  let ?xs = "[LString ''n='', LInteger (-12), LString ''much too long'', LCharPtr None]"
  have t: "map item_text ?xs = [''n='', ''-12'', ''much too long'', ''(null)'']" by code_simp
  have "\<forall>x \<in> set ?xs. item_ok x" using arg_cong [OF t, of "\<lambda>l. l ! 1"] by simp
  from LogStream_contents [OF _ _ this, of "''............''"] t show ?thesis by auto
qed

section \<open>\<open>Logger\<close>\<close>

datatype log_level = TRACE | DEBUG | INFO | WARN | ERROR | FATAL

fun level_number :: "log_level \<Rightarrow> nat" where
  "level_number TRACE = 0" | "level_number DEBUG = 1" | "level_number INFO = 2"
| "level_number WARN = 3" | "level_number ERROR = 4" | "level_number FATAL = 5"

record logger =
  lg_stream :: fixed_buffer
  lg_level :: log_level
  lg_line :: int
  lg_file_name :: string

text \<open>
  The header: the level as its number, the local time (\<open>put_time\<close> of the second, then the
  microseconds), file and line. \<open>now\<close> is the clock in nanoseconds.
\<close>

definition Logger_header :: "(int \<Rightarrow> string) \<Rightarrow> int \<Rightarrow> log_level \<Rightarrow> int \<Rightarrow> string \<Rightarrow> string" where
  "Logger_header put_time now level line file_name =
     [CHR '' '', LF] @ ''['' @ to_string_nat (level_number level) @ ''] '' @
     put_time (now sdiv 1000000000) @ ''.'' @
     setw0 6 (to_string_int ((now sdiv 1000) smod 1000000)) @
     ''-'' @ file_name @ ''-'' @ to_string_int line @ '' : ''"

definition Logger_LogHeader :: "(int \<Rightarrow> string) \<Rightarrow> int \<Rightarrow> logger \<Rightarrow> logger outcome" where
  "Logger_LogHeader put_time now lg =
     obind (LogStream_put (LString (Logger_header put_time now (lg_level lg) (lg_line lg) (lg_file_name lg))) (lg_stream lg))
       (\<lambda>b. Inr (lg\<lparr>lg_stream := b\<rparr>))"

text \<open>The constructors: with a level, with the default level, with the abort flag.\<close>

definition Logger_new :: "(int \<Rightarrow> string) \<Rightarrow> int \<Rightarrow> char list \<Rightarrow> string \<Rightarrow> int \<Rightarrow> log_level \<Rightarrow> logger outcome" where
  "Logger_new put_time now junk file_name line level =
     Logger_LogHeader put_time now
       \<lparr>lg_stream = FixedBuffer_new junk, lg_level = level, lg_line = line, lg_file_name = file_name\<rparr>"

definition Logger_new_default :: "(int \<Rightarrow> string) \<Rightarrow> int \<Rightarrow> char list \<Rightarrow> string \<Rightarrow> int \<Rightarrow> logger outcome" where
  "Logger_new_default put_time now junk file_name line = Logger_new put_time now junk file_name line INFO"

definition Logger_new_abort :: "(int \<Rightarrow> string) \<Rightarrow> int \<Rightarrow> char list \<Rightarrow> string \<Rightarrow> int \<Rightarrow> bool \<Rightarrow> logger outcome" where
  "Logger_new_abort put_time now junk file_name line abort_flag =
     Logger_new put_time now junk file_name line (if abort_flag then FATAL else ERROR)"

text \<open>
  A log statement, \<open>Logger(file, line, level).stream() << x << y\<close>: what its destructor hands to
  \<open>AsyncLogging\<close>. The implementation object is not deleted.
\<close>

definition Logger_statement :: "(int \<Rightarrow> string) \<Rightarrow> int \<Rightarrow> char list \<Rightarrow> string \<Rightarrow> int \<Rightarrow> log_level \<Rightarrow> log_item list \<Rightarrow>
    (char list \<times> int) outcome" where
  "Logger_statement put_time now junk file_name line level xs =
     obind (Logger_new put_time now junk file_name line level) (\<lambda>lg.
     obind (LogStream_puts xs (lg_stream lg)) (\<lambda>b.
     Inr (FixedBuffer_Data b, FixedBuffer_Length b)))"



end
