(* ===== verification/Async_Logging.thy ===== *)
theory Async_Logging
  imports Log_Stream
begin

text \<open>
  \<open>LogFile\<close> (LogFile.h, LogFile.cc) and \<open>AsyncLogging\<close> (AsyncLogging.h, AsyncLogging.cc). The back
  end is a step relation: threads append log lines under the mutex while the logging thread swaps
  the buffers out and writes them. Its start, where the constructor waits for the thread, is a
  second, small step relation.
\<close>

section \<open>\<open>LogFile\<close>\<close>

record log_file =
  lf_written :: string     \<comment> \<open>the bytes the stream has accepted\<close>
  lf_count :: int
  lf_flush_every_N :: int
  lf_flush_interval :: int
  lf_flushes :: nat

definition LogFile_new :: "int \<Rightarrow> int \<Rightarrow> log_file" where
  "LogFile_new flush_interval flush_every_N =
     \<lparr>lf_written = [], lf_count = 0, lf_flush_every_N = flush_every_N,
      lf_flush_interval = flush_interval, lf_flushes = 0\<rparr>"

definition LogFile_Flush :: "log_file \<Rightarrow> log_file" where
  "LogFile_Flush f = f\<lparr>lf_flushes := lf_flushes f + 1\<rparr>"

text \<open>
  The loop over \<open>fwrite_unlocked\<close>. Its results, the number of bytes taken and the error state after
  the call, are inputs; \<open>None\<close> means that another result is needed. An error leaves the loop.
\<close>

fun LogFile_Append_loop :: "(nat \<times> bool) list \<Rightarrow> string \<Rightarrow> nat \<Rightarrow> nat \<Rightarrow> log_file \<Rightarrow> log_file option" where
  "LogFile_Append_loop results line len written f =
     (if written = len then Some f
      else case results of
        [] \<Rightarrow> None
      | (n, err) # rs \<Rightarrow>
          let remain = sz_sub len written;
              f = f\<lparr>lf_written := lf_written f @ take n (drop written line)\<rparr>
          in if n \<noteq> remain \<and> err then Some f
             else LogFile_Append_loop rs line len (sz_add written n) f)"

declare LogFile_Append_loop.simps [simp del]

definition LogFile_Append :: "(nat \<times> bool) list \<Rightarrow> string \<Rightarrow> int \<Rightarrow> log_file \<Rightarrow> log_file option" where
  "LogFile_Append results line len f =
     map_option (\<lambda>f.
       let f = f\<lparr>lf_count := lf_count f + 1\<rparr>
       in if lf_flush_every_N f \<le> lf_count f then LogFile_Flush (f\<lparr>lf_count := 0\<rparr>) else f)
     (LogFile_Append_loop results line (to_size len) 0 f)"

text \<open>A call that takes everything.\<close>

lemma Append_full:
  assumes "length line < 2 ^ 31" "line \<noteq> []"
  shows "LogFile_Append_loop ((length line, err) # rs) line (to_size (int (length line))) 0 f =
     Some (f\<lparr>lf_written := lf_written f @ line\<rparr>)"
proof -
  have lt: "length line < 2 ^ 64" using assms(1) by simp
  have sz: "to_size (int (length line)) = length line" by (rule to_size_int [OF lt])
  have "sz_sub (length line) 0 = length line" "sz_add 0 (length line) = length line"
    using lt by (simp_all add: sz_sub_id sz_add_id)
  then show ?thesis using assms(2) unfolding sz
    by (simp add: LogFile_Append_loop.simps [of "_ # _"] LogFile_Append_loop.simps [of rs line "length line" "length line"] Let_def)
qed

text \<open>The file after a sequence of lines, each taken whole by one call.\<close>

fun append_lines :: "string list \<Rightarrow> log_file \<Rightarrow> log_file option" where
  "append_lines [] f = Some f"
| "append_lines (l # ls) f =
     (case LogFile_Append [(length l, False)] l (int (length l)) f of None \<Rightarrow> None | Some f \<Rightarrow> append_lines ls f)"

lemma append_line:
  assumes "length l < 2 ^ 31"
  shows "LogFile_Append [(length l, False)] l (int (length l)) f = Some (
     let c = lf_count f + 1 in
     f\<lparr>lf_written := lf_written f @ l, lf_count := if lf_flush_every_N f \<le> c then 0 else c,
       lf_flushes := lf_flushes f + (if lf_flush_every_N f \<le> c then 1 else 0)\<rparr>)"
proof (cases "l = []")
  case True
  have "to_size 0 = 0" by code_simp
  with True show ?thesis
    by (simp add: LogFile_Append_def LogFile_Append_loop.simps LogFile_Flush_def Let_def)
next
  case False
  with Append_full [OF assms False, of False "[]" f] show ?thesis
    by (simp add: LogFile_Append_def LogFile_Flush_def Let_def)
qed

lemma append_lines_state:
  assumes "0 < lf_flush_every_N f" "0 \<le> lf_count f" "lf_count f < lf_flush_every_N f" "\<forall>l \<in> set ls. length l < 2 ^ 31"
  shows "\<exists>f'. append_lines ls f = Some f' \<and> lf_written f' = lf_written f @ concat ls \<and>
     lf_flush_every_N f' = lf_flush_every_N f \<and> 0 \<le> lf_count f' \<and> lf_count f' < lf_flush_every_N f \<and>
     int (lf_flushes f') * lf_flush_every_N f + lf_count f' =
       int (lf_flushes f) * lf_flush_every_N f + lf_count f + int (length ls)"
  using assms
proof (induction ls arbitrary: f)
  case (Cons l ls)
  let ?c = "lf_count f + 1"
  define f1 where "f1 = f\<lparr>lf_written := lf_written f @ l, lf_count := if lf_flush_every_N f \<le> ?c then 0 else ?c,
       lf_flushes := lf_flushes f + (if lf_flush_every_N f \<le> ?c then 1 else 0)\<rparr>"
  have step: "append_lines (l # ls) f = append_lines ls f1"
    using append_line [of l f] Cons.prems(4) by (simp add: f1_def Let_def)
  have f1: "lf_flush_every_N f1 = lf_flush_every_N f" "0 \<le> lf_count f1" "lf_count f1 < lf_flush_every_N f1"
    "lf_written f1 = lf_written f @ l"
    "int (lf_flushes f1) * lf_flush_every_N f + lf_count f1 = int (lf_flushes f) * lf_flush_every_N f + ?c"
    using Cons.prems by (auto simp: f1_def algebra_simps)
  have "0 < lf_flush_every_N f1" "\<forall>l \<in> set ls. length l < 2 ^ 31" using Cons.prems f1(1) by auto
  from Cons.IH [OF this(1) f1(2,3) this(2)] f1(1,4,5) show ?case unfolding step by auto
qed auto

text \<open>When the stream takes every line, the file receives exactly the lines in order, each once, and
  it is flushed by itself once in every \<open>flush_every_N\<close> lines.\<close>

theorem LogFile_Append_lines:
  assumes "0 < n" "\<forall>l \<in> set ls. length l < 2 ^ 31"
  shows "\<exists>f. append_lines ls (LogFile_new iv (int n)) = Some f \<and> lf_written f = concat ls \<and>
     lf_flushes f = length ls div n"
proof -
  obtain f where f: "append_lines ls (LogFile_new iv (int n)) = Some f" "lf_written f = concat ls"
    "0 \<le> lf_count f" "lf_count f < int n" "int (lf_flushes f) * int n + lf_count f = int (length ls)"
    using append_lines_state [of "LogFile_new iv (int n)" ls] assms by (auto simp: LogFile_new_def)
  obtain c where c: "lf_count f = int c" using f(3) by (metis nonneg_int_cases)
  then have "lf_flushes f * n + c = length ls" "c < n"
    using f(4,5) by (simp_all flip: of_nat_mult of_nat_add)
  then have "lf_flushes f = length ls div n" by (intro div_nat_eqI [symmetric]) (simp_all add: algebra_simps)
  with f show ?thesis by blast
qed

theorem LogFile_Append_lines_witness:
  "\<exists>f. append_lines [''a'', ''bc'', [], ''d'', ''e''] (LogFile_new 3 3) = Some f \<and> lf_written f = ''abcde'' \<and>
     lf_flushes f = 1"
  using LogFile_Append_lines [of 3 "[''a'', ''bc'', [], ''d'', ''e'']" 3] by simp

text \<open>If the stream takes only a part of a line and has an error, the rest of that line is given up:
  the file holds a torn line, the call still counts as a line written.\<close>

theorem LogFile_Append_error:
  assumes "n < length line" "length line < 2 ^ 31"
  shows "\<exists>f'. LogFile_Append [(n, True)] line (int (length line)) f = Some f' \<and>
     lf_written f' = lf_written f @ take n line \<and> (lf_count f' = lf_count f + 1 \<or> lf_count f' = 0)"
proof -
  have lt: "length line < 2 ^ 64" using assms(2) by simp
  have "sz_sub (length line) 0 = length line" using lt by (simp add: sz_sub_id)
  then show ?thesis using assms(1) to_size_int [OF lt]
    by (auto simp: LogFile_Append_def LogFile_Append_loop.simps LogFile_Flush_def Let_def)
qed

theorem LogFile_Append_error_witness:
  "\<exists>f'. LogFile_Append [(2, True)] ''hello'' 5 (LogFile_new 3 1024) = Some f' \<and> lf_written f' = ''he''"
  using LogFile_Append_error [of 2 "''hello''" "LogFile_new 3 1024"] by (auto simp: LogFile_new_def)

section \<open>\<open>AsyncLogging\<close>: appending\<close>

text \<open>
  The members the mutex protects. A new buffer's array is not initialised; \<open>junk\<close> is what it holds,
  its length the size of the buffers (\<open>kLargeBuffer\<close> in the program).
\<close>

record async_logging =
  al_current :: fixed_buffer
  al_buffers :: "fixed_buffer list"

definition AsyncLogging_new :: "char list \<Rightarrow> async_logging" where
  "AsyncLogging_new junk = \<lparr>al_current = FixedBuffer_Clear (FixedBuffer_new junk), al_buffers = []\<rparr>"

definition AsyncLogging_Append :: "char list \<Rightarrow> char list \<Rightarrow> int \<Rightarrow> async_logging \<Rightarrow> async_logging outcome" where
  "AsyncLogging_Append junk log_line len a =
     (if len < FixedBuffer_Available (al_current a)
      then obind (FixedBuffer_Append log_line (to_size len) (al_current a)) (\<lambda>b. Inr (a\<lparr>al_current := b\<rparr>))
      else let a = a\<lparr>al_buffers := al_buffers a @ [al_current a]\<rparr>;
               a = a\<lparr>al_current := FixedBuffer_new junk\<rparr>
           in obind (FixedBuffer_Append log_line (to_size len) (al_current a)) (\<lambda>b. Inr (a\<lparr>al_current := b\<rparr>)))"

definition buffers_text :: "fixed_buffer list \<Rightarrow> string" where
  "buffers_text bs = concat (map fb_contents bs)"

definition al_text :: "async_logging \<Rightarrow> string" where
  "al_text a = buffers_text (al_buffers a @ [al_current a])"

definition al_invar :: "nat \<Rightarrow> async_logging \<Rightarrow> bool" where
  "al_invar cap a \<longleftrightarrow> (\<forall>b \<in> set (al_buffers a @ [al_current a]). fb_invar b \<and> length (fb_data b) = cap)"

lemma buffers_text_simps [simp]: "buffers_text [] = []" "buffers_text (b # bs) = fb_contents b @ buffers_text bs"
  "buffers_text (bs @ cs) = buffers_text bs @ buffers_text cs"
  by (simp_all add: buffers_text_def)

lemma new_buffer:
  assumes "0 < length junk" "length junk < 2 ^ 31"
  shows "fb_invar (FixedBuffer_new junk)" "fb_contents (FixedBuffer_new junk) = []" "fb_cur (FixedBuffer_new junk) = 0"
    "fb_data (FixedBuffer_new junk) = junk"
  using assms by (simp_all add: fb_invar_def FixedBuffer_new_def fb_contents_def)

lemma async_append:
  assumes inv: "al_invar cap a" and junk: "length junk = cap" and cap: "0 < cap" "cap < 2 ^ 31"
    and line: "length line < 2 ^ 31"
  shows "\<exists>a'. AsyncLogging_Append junk line (int (length line)) a = Inr a' \<and> al_invar cap a' \<and>
     al_text a' = al_text a @ (if length line < cap then line else [])"
proof -
  let ?c = "al_current a"
  have c: "fb_invar ?c" "length (fb_data ?c) = cap" using inv by (simp_all add: al_invar_def)
  have sz: "to_size (int (length line)) = length line" using line by (intro to_size_int) simp
  show ?thesis
  proof (cases "length line < cap - fb_cur ?c")
    case True
    then have "int (length line) < FixedBuffer_Available ?c" "length line < cap"
      using c by (simp_all add: fb_sizes(1) [OF c(1)])
    with fb_append [OF c(1) order_refl line] True c inv show ?thesis
      by (auto simp: AsyncLogging_Append_def sz al_text_def al_invar_def)
  next
    case False
    then have full: "\<not> int (length line) < FixedBuffer_Available ?c"
      using c by (simp add: fb_sizes(1) [OF c(1)])
    have "0 < length junk" "length junk < 2 ^ 31" using junk cap by auto
    note n = new_buffer [OF this]
    from fb_append [OF n(1) order_refl line] full n junk inv show ?thesis
      by (auto simp: AsyncLogging_Append_def sz al_text_def al_invar_def Let_def)
  qed
qed

section \<open>\<open>AsyncLogging\<close>: the logging thread\<close>

text \<open>
  The phases of \<open>ThreadFunc\<close>: at the test of \<open>running_flag_\<close>; in front of the critical section, where it
  may also be waiting; writing the swapped buffers; returned. \<open>ls_offered\<close> records, for the
  properties only, every line given to \<open>Append\<close>.
\<close>

datatype backend = AtTest | BeforeSwap | Writing | Returned

record log_system =
  ls_phase :: backend
  ls_running :: bool
  ls_async :: async_logging
  ls_to_write :: "fixed_buffer list"
  ls_file :: log_file
  ls_offered :: "string list"

definition log_init :: "char list \<Rightarrow> log_system" where
  "log_init junk = \<lparr>ls_phase = AtTest, ls_running = True, ls_async = AsyncLogging_new junk,
     ls_to_write = [], ls_file = LogFile_new 3 1024, ls_offered = []\<rparr>"

inductive log_step :: "nat \<Rightarrow> log_system \<Rightarrow> log_system \<Rightarrow> bool" for cap where
  append: "length junk = cap \<Longrightarrow> length line < 2 ^ 31 \<Longrightarrow>
    AsyncLogging_Append junk line (int (length line)) (ls_async s) = Inr a \<Longrightarrow>
    log_step cap s (s\<lparr>ls_async := a, ls_offered := ls_offered s @ [line]\<rparr>)"
| enter: "ls_phase s = AtTest \<Longrightarrow> ls_running s \<Longrightarrow> log_step cap s (s\<lparr>ls_phase := BeforeSwap\<rparr>)"
| swap: "ls_phase s = BeforeSwap \<Longrightarrow> length junk = cap \<Longrightarrow>
    log_step cap s (s\<lparr>ls_phase := Writing,
      ls_to_write := al_buffers (ls_async s) @ [al_current (ls_async s)],
      ls_async := \<lparr>al_current = FixedBuffer_new junk, al_buffers = []\<rparr>\<rparr>)"
| write_one: "ls_phase s = Writing \<Longrightarrow> ls_to_write s = b # bs \<Longrightarrow>
    LogFile_Append [(nat (FixedBuffer_Length b), False)] (FixedBuffer_Data b) (FixedBuffer_Length b) (ls_file s) = Some f \<Longrightarrow>
    log_step cap s (s\<lparr>ls_to_write := bs, ls_file := f\<rparr>)"
| flush: "ls_phase s = Writing \<Longrightarrow> ls_to_write s = [] \<Longrightarrow>
    log_step cap s (s\<lparr>ls_phase := AtTest, ls_file := LogFile_Flush (ls_file s)\<rparr>)"
| leave: "ls_phase s = AtTest \<Longrightarrow> \<not> ls_running s \<Longrightarrow>
    log_step cap s (s\<lparr>ls_phase := Returned, ls_file := LogFile_Flush (ls_file s)\<rparr>)"
| stop: "log_step cap s (s\<lparr>ls_running := False\<rparr>)"

inductive_cases log_stepE: "log_step cap s t"

lemma append_buffer:
  assumes "fb_invar b"
  shows "\<exists>f'. LogFile_Append [(nat (FixedBuffer_Length b), False)] (FixedBuffer_Data b) (FixedBuffer_Length b) f = Some f' \<and>
     lf_written f' = lf_written f @ fb_contents b"
proof -
  let ?n = "fb_cur b"
  have n: "FixedBuffer_Length b = int ?n" using fb_sizes(2,3) [OF assms] by simp
  have lt: "?n < 2 ^ 64" using assms by (simp add: fb_invar_def)
  have sz: "to_size (int ?n) = ?n" "sz_sub ?n 0 = ?n" "sz_add 0 ?n = ?n"
    using lt by (simp_all add: to_size_int sz_sub_id sz_add_id)
  have "LogFile_Append_loop [(?n, False)] (fb_data b) ?n 0 f = Some (f\<lparr>lf_written := lf_written f @ fb_contents b\<rparr>)"
    using sz(2,3) by (cases "?n = 0") (simp_all add: LogFile_Append_loop.simps [of "[(_, _)]"]
        LogFile_Append_loop.simps [of "[]" _ n n for n] Let_def fb_contents_def)
  then show ?thesis unfolding n
    by (simp add: LogFile_Append_def FixedBuffer_Data_def sz(1) LogFile_Flush_def Let_def)
qed

definition log_invar :: "nat \<Rightarrow> log_system \<Rightarrow> bool" where
  "log_invar cap s \<longleftrightarrow> al_invar cap (ls_async s) \<and> (\<forall>b \<in> set (ls_to_write s). fb_invar b) \<and>
     (ls_phase s \<noteq> Writing \<longrightarrow> ls_to_write s = []) \<and>
     lf_written (ls_file s) @ buffers_text (ls_to_write s) @ al_text (ls_async s) =
       concat (filter (\<lambda>l. length l < cap) (ls_offered s))"

lemma log_invar_step:
  assumes cap: "0 < cap" "cap < 2 ^ 31"
  shows "log_step cap s t \<Longrightarrow> log_invar cap s \<Longrightarrow> log_invar cap t"
proof (induction rule: log_step.induct)
  case (append junk line s a)
  then have "al_invar cap (ls_async s)" by (simp add: log_invar_def)
  from async_append [OF this append(1) cap append(2)] append(3) have
    "al_invar cap a" "al_text a = al_text (ls_async s) @ (if length line < cap then line else [])" by auto
  with append(4) show ?case by (auto simp: log_invar_def)
next
  case (swap s junk)
  have "0 < length junk" "length junk < 2 ^ 31" using swap(2) cap by auto
  note n = new_buffer [OF this]
  with swap show ?case by (auto simp: log_invar_def al_invar_def al_text_def)
next
  case (write_one s b bs f)
  then have "fb_invar b" by (simp add: log_invar_def)
  from append_buffer [OF this, of "ls_file s"] write_one(3) have "lf_written f = lf_written (ls_file s) @ fb_contents b" by auto
  with write_one show ?case by (auto simp: log_invar_def)
qed (auto simp: log_invar_def LogFile_Flush_def)

lemma log_invar_init:
  assumes "0 < length junk" "length junk < 2 ^ 31"
  shows "log_invar (length junk) (log_init junk)"
  using assms by (simp add: log_invar_def log_init_def AsyncLogging_new_def al_invar_def al_text_def
      FixedBuffer_Clear_def FixedBuffer_new_def fb_invar_def fb_contents_def LogFile_new_def)


lemma log_step_append:
  fixes junk line :: string
  assumes "ls_phase s = AtTest" "al_invar cap (ls_async s)" "length junk = cap" "0 < cap" "cap < 2 ^ 31" "length line < cap"
  shows "\<exists>t. log_step cap s t \<and> ls_phase t = AtTest \<and> ls_running t = ls_running s \<and> ls_file t = ls_file s \<and>
     ls_to_write t = ls_to_write s \<and> al_text (ls_async t) = al_text (ls_async s) @ line \<and>
     al_invar cap (ls_async t) \<and> ls_offered t = ls_offered s @ [line]"
proof -
  have "length line < 2 ^ 31" using assms by simp
  from async_append [OF assms(2,3,4,5) this] obtain a where
    "AsyncLogging_Append junk line (int (length line)) (ls_async s) = Inr a" "al_invar cap a"
    "al_text a = al_text (ls_async s) @ line" using assms(6) by auto
  with log_step.append [OF assms(3) \<open>length line < 2 ^ 31\<close> this(1)] assms(1) show ?thesis by fastforce
qed


text \<open>The logging thread on its own: it writes the buffers it has swapped out, then goes round.\<close>

lemma log_writes:
  assumes "ls_phase s = Writing" "\<forall>b \<in> set (ls_to_write s). fb_invar b"
  shows "\<exists>t. (log_step cap)\<^sup>*\<^sup>* s t \<and> ls_phase t = AtTest \<and> ls_running t = ls_running s \<and>
    ls_async t = ls_async s \<and> ls_offered t = ls_offered s"
  using assms
proof (induction "ls_to_write s" arbitrary: s)
  case Nil
  then have "log_step cap s (s\<lparr>ls_phase := AtTest, ls_file := LogFile_Flush (ls_file s)\<rparr>)"
    by (intro log_step.flush) simp_all
  then show ?case
    by (intro exI [of _ "s\<lparr>ls_phase := AtTest, ls_file := LogFile_Flush (ls_file s)\<rparr>"]) auto
next
  case (Cons b bs)
  then have "fb_invar b" by (metis list.set_intros(1))
  from append_buffer [OF this, of "ls_file s"] obtain f where
    f: "LogFile_Append [(nat (FixedBuffer_Length b), False)] (FixedBuffer_Data b) (FixedBuffer_Length b) (ls_file s) = Some f"
    by blast
  let ?s = "s\<lparr>ls_to_write := bs, ls_file := f\<rparr>"
  have step: "log_step cap s ?s"
    using Cons.hyps(2) [symmetric] Cons.prems(1) f by (intro log_step.write_one)
  have "\<forall>b \<in> set (ls_to_write ?s). fb_invar b" using Cons.prems(2) Cons.hyps(2) [symmetric] by simp
  from Cons.hyps(1) [of ?s] this Cons.prems(1) obtain t where t: "(log_step cap)\<^sup>*\<^sup>* ?s t" "ls_phase t = AtTest"
    "ls_running t = ls_running ?s" "ls_async t = ls_async ?s" "ls_offered t = ls_offered ?s" by auto
  from converse_rtranclp_into_rtranclp [OF step t(1)] t(2-5) show ?case by auto
qed

lemma log_round:
  assumes "ls_phase s = BeforeSwap" "al_invar cap (ls_async s)" "0 < cap" "cap < 2 ^ 31"
  shows "\<exists>t. (log_step cap)\<^sup>*\<^sup>* s t \<and> ls_phase t = AtTest \<and> ls_running t = ls_running s \<and>
    al_text (ls_async t) = [] \<and> ls_offered t = ls_offered s"
proof -
  let ?j = "replicate cap NUL"
  let ?s = "s\<lparr>ls_phase := Writing, ls_to_write := al_buffers (ls_async s) @ [al_current (ls_async s)],
      ls_async := \<lparr>al_current = FixedBuffer_new ?j, al_buffers = []\<rparr>\<rparr>"
  have step: "log_step cap s ?s" using assms(1) by (intro log_step.swap) simp_all
  have "\<forall>b \<in> set (ls_to_write ?s). fb_invar b" using assms(2) by (auto simp: al_invar_def)
  from log_writes [OF _ this, of cap] obtain t where t: "(log_step cap)\<^sup>*\<^sup>* ?s t" "ls_phase t = AtTest"
    "ls_running t = ls_running ?s" "ls_async t = ls_async ?s" "ls_offered t = ls_offered ?s" by auto
  have "al_text (ls_async ?s) = []"
    using new_buffer [of ?j] assms(3,4) by (simp add: al_text_def)
  with converse_rtranclp_into_rtranclp [OF step t(1)] t(2-5) show ?thesis by auto
qed

lemma log_reach_invar:
  assumes "0 < length junk" "length junk < 2 ^ 31" "(log_step (length junk))\<^sup>*\<^sup>* (log_init junk) s"
  shows "log_invar (length junk) s \<and> (ls_phase s = Returned \<longrightarrow> \<not> ls_running s)"
  using assms(3)
proof (induction rule: rtranclp_induct)
  case base
  show ?case using log_invar_init [OF assms(1,2)] by (simp add: log_init_def)
next
  case (step y z)
  from step.hyps(2) step.IH have "ls_phase z = Returned \<longrightarrow> \<not> ls_running z" by (cases rule: log_step.cases) auto
  with step show ?case using log_invar_step [OF assms(1,2)] by blast
qed



text \<open>C37: lines appended after the last swap are lost when the program ends: from the test of the running
  flag, a line, the destructor's store to the flag and the thread's return are possible in this
  order, and then no continuation ever brings the line into the file.\<close>

theorem AsyncLogging_shutdown_loses_lines:
  fixes line :: string
  assumes "log_invar cap s" "ls_phase s = AtTest" "0 < cap" "cap < 2 ^ 31" "length line < cap"
  shows "\<exists>t. (log_step cap)\<^sup>*\<^sup>* s t \<and> ls_phase t = Returned \<and> ls_offered t = ls_offered s @ [line] \<and>
     (\<forall>u. (log_step cap)\<^sup>*\<^sup>* t u \<longrightarrow> lf_written (ls_file u) = lf_written (ls_file s))"
proof -
  have inv: "al_invar cap (ls_async s)" using assms(1) by (simp add: log_invar_def)
  obtain t1 where t1: "log_step cap s t1" "ls_phase t1 = AtTest" "ls_file t1 = ls_file s" "ls_offered t1 = ls_offered s @ [line]"
    using log_step_append [OF assms(2) inv _ assms(3-5), of "replicate cap NUL"] by auto
  let ?t2 = "t1\<lparr>ls_running := False\<rparr>"
  let ?t3 = "?t2\<lparr>ls_phase := Returned, ls_file := LogFile_Flush (ls_file ?t2)\<rparr>"
  have "log_step cap t1 ?t2" by (rule log_step.stop)
  moreover have "log_step cap ?t2 ?t3" by (rule log_step.leave) (simp_all add: t1)
  ultimately have path: "(log_step cap)\<^sup>*\<^sup>* s ?t3"
    using t1(1) by (meson converse_rtranclp_into_rtranclp rtranclp.rtrancl_refl)
  have keep: "ls_phase u = Returned \<and> lf_written (ls_file u) = lf_written (ls_file s)" if "(log_step cap)\<^sup>*\<^sup>* ?t3 u" for u
    using that
  proof (induction rule: rtranclp_induct)
    case base
    show ?case by (simp add: LogFile_Flush_def t1)
  next
    case (step y z)
    from step.hyps(2) step.IH show ?case by (cases rule: log_step.cases) auto
  qed
  with path t1(4) show ?thesis by (intro exI [of _ ?t3]) auto
qed

theorem AsyncLogging_shutdown_loses_lines_witness:
  "\<exists>t. (log_step 8)\<^sup>*\<^sup>* (log_init (replicate 8 NUL)) t \<and> ls_offered t = [''bye''] \<and>
     (\<forall>u. (log_step 8)\<^sup>*\<^sup>* t u \<longrightarrow> lf_written (ls_file u) = [])"
proof -
  let ?s = "log_init (replicate 8 NUL)"
  have "log_invar 8 ?s" using log_invar_init [of "replicate 8 NUL"] by simp
  moreover have "ls_phase ?s = AtTest" "ls_offered ?s = []" "lf_written (ls_file ?s) = []"
    by (simp_all add: log_init_def LogFile_new_def)
  ultimately show ?thesis using AsyncLogging_shutdown_loses_lines [of 8 ?s "''bye''"] by auto
qed

section \<open>\<open>AsyncLogging\<close>: starting\<close>

text \<open>
  The constructor starts the thread and then waits on a condition variable without a predicate; the
  thread opens its file and notifies without taking the mutex. A notification reaches the
  constructor only if it is waiting already. (A spurious wakeup, which the standard allows but does
  not promise, is not a step.)
\<close>

datatype ctor = ThreadStarted | Waiting | Constructed

record start_system =
  st_ctor :: ctor
  st_notified :: bool

inductive start_step :: "start_system \<Rightarrow> start_system \<Rightarrow> bool" where
  wait: "st_ctor s = ThreadStarted \<Longrightarrow> start_step s (s\<lparr>st_ctor := Waiting\<rparr>)"
| notify: "\<not> st_notified s \<Longrightarrow>
    start_step s (s\<lparr>st_notified := True, st_ctor := if st_ctor s = Waiting then Constructed else st_ctor s\<rparr>)"

inductive_simps start_step_iff: "start_step s t"

definition start_init :: start_system where
  "start_init = \<lparr>st_ctor = ThreadStarted, st_notified = False\<rparr>"

text \<open>C38: the first log statement of the program can hang for ever: if the logging thread notifies before
  the constructor waits, the constructor is left waiting with no step possible; only if it waits
  first does the constructor return. Every run ends in one of these two ways.\<close>

theorem AsyncLogging_start_deadlock:
  "start_step\<^sup>*\<^sup>* start_init s \<and> (\<forall>t. \<not> start_step s t) \<longleftrightarrow>
     s \<in> {\<lparr>st_ctor = Waiting, st_notified = True\<rparr>, \<lparr>st_ctor = Constructed, st_notified = True\<rparr>}"
proof -
  let ?S = "\<lambda>c n. \<lparr>st_ctor = c, st_notified = n\<rparr>"
  have e: "start_step (?S ThreadStarted False) (?S Waiting False)" "start_step (?S ThreadStarted False) (?S ThreadStarted True)"
    "start_step (?S Waiting False) (?S Constructed True)" "start_step (?S ThreadStarted True) (?S Waiting True)"
    by (simp_all add: start_step_iff)
  have r1: "start_step\<^sup>*\<^sup>* start_init (?S Waiting True)"
    unfolding start_init_def using e(2,4) by (meson converse_rtranclp_into_rtranclp rtranclp.rtrancl_refl)
  have r2: "start_step\<^sup>*\<^sup>* start_init (?S Constructed True)"
    unfolding start_init_def using e(1,3) by (meson converse_rtranclp_into_rtranclp rtranclp.rtrancl_refl)
  have final: "\<not> start_step (?S Waiting True) t" "\<not> start_step (?S Constructed True) t" for t
    by (simp_all add: start_step_iff)
  have reach: "s \<in> {?S ThreadStarted False, ?S Waiting False, ?S ThreadStarted True, ?S Waiting True, ?S Constructed True}"
    if "start_step\<^sup>*\<^sup>* start_init s" for s
    using that by (induction rule: rtranclp_induct) (auto simp: start_init_def start_step_iff)
  show "start_step\<^sup>*\<^sup>* start_init s \<and> (\<forall>t. \<not> start_step s t) \<longleftrightarrow> s \<in> {?S Waiting True, ?S Constructed True}"
    using reach [of s] r1 r2 final e by auto
qed

end
