(* ===== verification/C_Strings.thy ===== *)
theory C_Strings
  imports Text_Format
begin

text \<open>
  The string functions of the C library on arrays of characters. An array is the list of its
  elements; reading past its end for want of a zero byte and writing past its end are faults. The
  lemmas are about arrays that were cleared: \<open>cleared n s\<close> holds the string \<open>s\<close> and zero bytes up to
  size \<open>n\<close>, and every function maps such an array to another one as long as the text fits.
\<close>

section \<open>Copying and joining\<close>

definition bzero :: "nat \<Rightarrow> string" where
  "bzero n = replicate n NUL"

text \<open>The source arguments are C strings, given without their terminating zero byte.\<close>

definition strcpy :: "string \<Rightarrow> string \<Rightarrow> string outcome" where
  "strcpy dst src = store_block 0 (src @ [NUL]) dst"

definition strcat :: "string \<Rightarrow> string \<Rightarrow> string outcome" where
  "strcat dst src = obind (strlen dst) (\<lambda>n. store_block n (src @ [NUL]) dst)"

text \<open>\<open>strncpy\<close> writes exactly \<open>n\<close> characters and a zero byte only if the source is shorter.\<close>

definition strncpy :: "string \<Rightarrow> string \<Rightarrow> nat \<Rightarrow> string outcome" where
  "strncpy dst src n = store_block 0 (take n src @ replicate (n - length src) NUL) dst"

section \<open>Searching\<close>

text \<open>\<open>strchr\<close> and \<open>index\<close>, \<open>strrchr\<close>, \<open>strstr\<close>: the offset of the match, if there is one.\<close>

definition strchr :: "char \<Rightarrow> string \<Rightarrow> nat option" where
  "strchr c s = (if c \<in> set s then Some (length (takeWhile (\<lambda>x. x \<noteq> c) s)) else None)"

definition strrchr :: "char \<Rightarrow> string \<Rightarrow> nat option" where
  "strrchr c s = map_option (\<lambda>i. length s - Suc i) (strchr c (rev s))"

fun strstr :: "string \<Rightarrow> string \<Rightarrow> nat option" where
  "strstr pat s = (if take (length pat) s = pat then Some 0
     else case s of [] \<Rightarrow> None | x # xs \<Rightarrow> map_option Suc (strstr pat xs))"

declare strstr.simps [simp del]

definition strcspn :: "char \<Rightarrow> string \<Rightarrow> nat" where
  "strcspn c s = length (takeWhile (\<lambda>x. x \<noteq> c) s)"

definition to_lower :: "char \<Rightarrow> char" where
  "to_lower c = (if 65 \<le> (of_char c :: nat) \<and> (of_char c :: nat) \<le> 90 then char_of (of_char c + 32 :: nat) else c)"

definition strncasecmp_equal :: "string \<Rightarrow> string \<Rightarrow> nat \<Rightarrow> bool" where
  "strncasecmp_equal s t n \<longleftrightarrow> map to_lower (take n s) = map to_lower (take n t)"

section \<open>Numbers\<close>

text \<open>
  \<open>atoi\<close> on memory: white space, an optional sign, digits up to the first other character, which
  has to exist. A value that \<open>int\<close> cannot represent is undefined.
\<close>

definition int_ok :: "int \<Rightarrow> bool" where
  "int_ok i \<longleftrightarrow> - (2 ^ 31) \<le> i \<and> i < 2 ^ 31"

definition atoi :: "string \<Rightarrow> int outcome" where
  "atoi mem =
     (let s = dropWhile is_space mem;
          neg = (s \<noteq> [] \<and> hd s = CHR ''-'');
          t = (if s \<noteq> [] \<and> hd s \<in> {CHR ''-'', CHR ''+''} then tl s else s);
          ds = takeWhile (\<lambda>c. c \<in> digits) t;
          v = (if neg then - int (read_nat ds) else int (read_nat ds))
      in check (length ds < length t) BadAccess (check (int_ok v) SignedOverflow (Inr v)))"

section \<open>Cleared arrays\<close>

definition cleared :: "nat \<Rightarrow> string \<Rightarrow> string" where
  "cleared n s = s @ replicate (n - length s) NUL"

lemma bzero_cleared: "bzero n = cleared n []"
  by (simp add: bzero_def cleared_def)

lemma length_cleared: "length s \<le> n \<Longrightarrow> length (cleared n s) = n"
  by (simp add: cleared_def)

lemma cleared_cases: "length s < n \<Longrightarrow> cleared n s = s @ NUL # replicate (n - Suc (length s)) NUL"
  by (simp add: cleared_def Suc_diff_Suc [symmetric])

lemma strlen_cleared [simp]: "length s < n \<Longrightarrow> NUL \<notin> set s \<Longrightarrow> strlen (cleared n s) = Inr (length s)"
  by (simp add: cleared_cases strlen_c)

lemma c_string_cleared [simp]: "length s < n \<Longrightarrow> NUL \<notin> set s \<Longrightarrow> c_string (cleared n s) = s"
  by (simp add: cleared_cases c_string_append_NUL)

lemma strlen_full: "NUL \<notin> set s \<Longrightarrow> strlen (cleared (length s) s) = Inl BadAccess"
  by (simp add: cleared_def strlen_def)

lemma strcpy_cleared [simp]: "length t < n \<Longrightarrow> strcpy (cleared n []) t = Inr (cleared n t)"
  by (simp add: strcpy_def cleared_def store_block_def flip: replicate_Suc Suc_diff_Suc)

lemma strcat_cleared [simp]:
  assumes "length s + length t < n" "NUL \<notin> set s"
  shows "strcat (cleared n s) t = Inr (cleared n (s @ t))"
proof -
  have l: "strlen (cleared n s) = Inr (length s)" using assms by simp
  have "n - length s = length t + Suc (n - Suc (length s + length t))" using assms(1) by simp
  then have "cleared n s = s @ replicate (length t) NUL @ NUL # replicate (n - Suc (length s + length t)) NUL"
    by (simp only: cleared_def replicate_add replicate_Suc)
  then have "store_block (length s) (t @ [NUL]) (cleared n s) =
      Inr ((s @ t) @ NUL # replicate (n - Suc (length (s @ t))) NUL)"
    using assms(1) by (simp add: store_block_def)
  with l assms(1) show ?thesis by (simp add: strcat_def cleared_cases)
qed

lemma strncpy_cleared [simp]:
  "k \<le> length t \<Longrightarrow> k \<le> n \<Longrightarrow> strncpy (cleared n []) t k = Inr (cleared n (take k t))"
  by (simp add: strncpy_def cleared_def store_block_def)

lemma strncpy_overflow: "n < k \<Longrightarrow> length s \<le> n \<Longrightarrow> strncpy (cleared n s) t k = Inl BadAccess"
  by (simp add: strncpy_def cleared_def store_block_def min_def)

section \<open>Finding a character after a prefix without it\<close>

lemma strchr_append: "c \<notin> set s \<Longrightarrow> strchr c (s @ c # t) = Some (length s)"
  by (induction s) (auto simp: strchr_def)

lemma strcspn_append: "c \<notin> set s \<Longrightarrow> strcspn c (s @ c # t) = length s"
  by (induction s) (auto simp: strcspn_def)

lemma strrchr_append: "c \<notin> set t \<Longrightarrow> strrchr c (s @ c # t) = Some (length s)"
  by (simp add: strrchr_def strchr_append)

lemma strrchr_None: "c \<notin> set s \<Longrightarrow> strrchr c s = None"
  by (simp add: strrchr_def strchr_def)

lemma atoi_to_string:
  assumes "int n < 2 ^ 31" "length (to_string_nat n) < k"
  shows "atoi (cleared k (to_string_nat n)) = Inr (int n)"
proof -
  let ?s = "to_string_nat n" and ?r = "NUL # replicate (k - Suc (length (to_string_nat n))) NUL"
  have e: "cleared k ?s = ?s @ ?r" using assms(2) by (rule cleared_cases)
  have nd: "NUL \<notin> digits" "\<forall>c \<in> digits. \<not> is_space c \<and> c \<noteq> CHR ''-'' \<and> c \<noteq> CHR ''+''"
    by (auto simp: digits_def is_space_def)
  obtain c cs where c: "?s = c # cs" by (cases ?s) auto
  with to_string_nat_digits [of n] nd have hd: "\<not> is_space c" "c \<noteq> CHR ''-''" "c \<noteq> CHR ''+''" by auto
  have tw: "takeWhile (\<lambda>c. c \<in> digits) (?s @ ?r) = ?s"
    using to_string_nat_digits [of n] nd(1) by (subst takeWhile_append2) auto
  have dw: "dropWhile is_space (?s @ ?r) = ?s @ ?r" using c hd by simp
  have h: "hd (?s @ ?r) = c" using c by simp
  show ?thesis
    using assms(1) hd by (simp add: atoi_def e dw tw h int_ok_def Let_def)
qed

end
