(* ===== verification/Webbench.thy ===== *)
theory Webbench
  imports C_Strings Http_Request
begin

text \<open>
  The benchmark client shipped with the server, as far as its text goes: the options and the request
  (webbench-1.5/webbench.c, \<open>main\<close> and \<open>build_request\<close>). The record holds the program's global
  variables; a character array is a list of fixed length. \<open>exit\<close> and \<open>return\<close> from \<open>main\<close> before the
  benchmark starts are the fault \<open>ProcessExit\<close>. What is printed is in \<open>Webbench_Main\<close>.
\<close>

section \<open>Globals\<close>

definition METHOD_GET :: int where "METHOD_GET = 0"
definition METHOD_HEAD :: int where "METHOD_HEAD = 1"
definition METHOD_OPTIONS :: int where "METHOD_OPTIONS = 2"
definition METHOD_TRACE :: int where "METHOD_TRACE = 3"

lemmas method_defs = METHOD_GET_def METHOD_HEAD_def METHOD_OPTIONS_def METHOD_TRACE_def

definition PROGRAM_VERSION :: string where "PROGRAM_VERSION = ''1.5''"
definition REQUEST_SIZE :: nat where "REQUEST_SIZE = 2048"

text \<open>From the system's \<open>sys/param.h\<close>.\<close>

definition MAXHOSTNAMELEN :: nat where "MAXHOSTNAMELEN = 64"

record webbench =
  wb_http10 :: int
  wb_method :: int
  wb_clients :: int
  wb_force :: int
  wb_force_reload :: int
  wb_proxyport :: int
  wb_proxyhost :: "string option"
  wb_benchtime :: int
  wb_host :: string
  wb_request :: string

definition webbench_globals :: webbench where
  "webbench_globals = \<lparr>wb_http10 = 1, wb_method = METHOD_GET, wb_clients = 1, wb_force = 0,
     wb_force_reload = 0, wb_proxyport = 80, wb_proxyhost = None, wb_benchtime = 30,
     wb_host = replicate MAXHOSTNAMELEN NUL, wb_request = replicate REQUEST_SIZE NUL\<rparr>"

section \<open>Options\<close>

text \<open>
  A row of \<open>long_options\<close>: name, whether it takes an argument, the variable \<open>getopt_long\<close> stores to,
  if any, and the value stored or returned.
\<close>

datatype flag = ForceFlag | ReloadFlag | MethodFlag

datatype long_option = LongOption (lo_name: string) (lo_has_arg: bool) (lo_flag: "flag option") (lo_val: int)

definition long_options :: "long_option list" where
  "long_options =
    [LongOption ''force'' False (Some ForceFlag) 1,
     LongOption ''reload'' False (Some ReloadFlag) 1,
     LongOption ''time'' True None (of_char (CHR ''t'')),
     LongOption ''help'' False None (of_char (CHR ''?'')),
     LongOption ''http09'' False None (of_char (CHR ''9'')),
     LongOption ''http10'' False None (of_char (CHR ''1'')),
     LongOption ''http11'' False None (of_char (CHR ''2'')),
     LongOption ''get'' False (Some MethodFlag) METHOD_GET,
     LongOption ''head'' False (Some MethodFlag) METHOD_HEAD,
     LongOption ''options'' False (Some MethodFlag) METHOD_OPTIONS,
     LongOption ''trace'' False (Some MethodFlag) METHOD_TRACE,
     LongOption ''version'' False None (of_char (CHR ''V'')),
     LongOption ''proxy'' True None (of_char (CHR ''p'')),
     LongOption ''clients'' True None (of_char (CHR ''c''))]"

text \<open>
  What \<open>getopt_long\<close> is documented to do with an option: store to its variable and return 0, or return
  its value; an option it does not know gives a question mark.
\<close>

datatype command_option = Short char string | Long string string

definition store_flag :: "flag \<Rightarrow> int \<Rightarrow> webbench \<Rightarrow> webbench" where
  "store_flag f v w = (case f of
     ForceFlag \<Rightarrow> w\<lparr>wb_force := v\<rparr> | ReloadFlag \<Rightarrow> w\<lparr>wb_force_reload := v\<rparr> | MethodFlag \<Rightarrow> w\<lparr>wb_method := v\<rparr>)"

fun getopt_long :: "command_option \<Rightarrow> webbench \<Rightarrow> char \<times> string \<times> webbench" where
  "getopt_long (Short c arg) w = (c, arg, w)"
| "getopt_long (Long name arg) w =
     (case find (\<lambda>l. lo_name l = name) long_options of
        None \<Rightarrow> (CHR ''?'', arg, w)
      | Some l \<Rightarrow> (case lo_flag l of
          Some f \<Rightarrow> (NUL, arg, store_flag f (lo_val l) w)
        | None \<Rightarrow> (char_of (lo_val l), arg, w)))"

text \<open>The proxy option: the text up to its last colon is the host, the rest the port.\<close>

definition proxy_option :: "string \<Rightarrow> webbench \<Rightarrow> webbench outcome" where
  "proxy_option arg w =
     (let w = w\<lparr>wb_proxyhost := Some arg\<rparr> in
      case strrchr (CHR '':'') arg of
        None \<Rightarrow> Inr w
      | Some p \<Rightarrow>
          if p = 0 then Inl (ProcessExit 2)
          else if p = length arg - 1 then Inl (ProcessExit 2)
          else obind (atoi (drop (p + 1) arg @ [NUL])) (\<lambda>port.
            Inr (w\<lparr>wb_proxyhost := Some (take p arg), wb_proxyport := port\<rparr>)))"

definition main_option :: "char \<Rightarrow> string \<Rightarrow> webbench \<Rightarrow> webbench outcome" where
  "main_option c arg w =
     (if c = CHR ''f'' then Inr (w\<lparr>wb_force := 1\<rparr>)
      else if c = CHR ''r'' then Inr (w\<lparr>wb_force_reload := 1\<rparr>)
      else if c = CHR ''9'' then Inr (w\<lparr>wb_http10 := 0\<rparr>)
      else if c = CHR ''1'' then Inr (w\<lparr>wb_http10 := 1\<rparr>)
      else if c = CHR ''2'' then Inr (w\<lparr>wb_http10 := 2\<rparr>)
      else if c = CHR ''V'' then Inl (ProcessExit 0)
      else if c = CHR ''t'' then obind (atoi (arg @ [NUL])) (\<lambda>n. Inr (w\<lparr>wb_benchtime := n\<rparr>))
      else if c = CHR ''p'' then proxy_option arg w
      else if c = CHR '':'' \<or> c = CHR ''h'' \<or> c = CHR ''?'' then Inl (ProcessExit 2)
      else if c = CHR ''c'' then obind (atoi (arg @ [NUL])) (\<lambda>n. Inr (w\<lparr>wb_clients := n\<rparr>))
      else Inr w)"

fun main_options :: "command_option list \<Rightarrow> webbench \<Rightarrow> webbench outcome" where
  "main_options [] w = Inr w"
| "main_options (x # xs) w = (let (c, arg, w) = getopt_long x w in
     obind (main_option c arg w) (main_options xs))"

section \<open>The request\<close>

definition method_name :: "int \<Rightarrow> string" where
  "method_name m = (if m = METHOD_HEAD then ''HEAD'' else if m = METHOD_OPTIONS then ''OPTIONS''
     else if m = METHOD_TRACE then ''TRACE'' else ''GET'')"

text \<open>The version the request will use.\<close>

definition request_version :: "webbench \<Rightarrow> int" where
  "request_version w =
     (let v = wb_http10 w;
          v = (if wb_force_reload w \<noteq> 0 \<and> wb_proxyhost w \<noteq> None \<and> v < 1 then 1 else v);
          v = (if wb_method w = METHOD_HEAD \<and> v < 1 then 1 else v);
          v = (if wb_method w = METHOD_OPTIONS \<and> v < 2 then 2 else v);
          v = (if wb_method w = METHOD_TRACE \<and> v < 2 then 2 else v)
      in v)"

text \<open>The host, the port and the path of a URL; \<open>rest\<close> is the URL behind its \<open>://\<close>.\<close>

definition split_url :: "string \<Rightarrow> webbench \<Rightarrow> webbench outcome" where
  "split_url rest w =
     (let slash = the (strchr (CHR ''/'') rest) in
      obind (case strchr (CHR '':'') rest of
          Some colon \<Rightarrow>
            if colon < slash then
              obind (strncpy (wb_host w) rest colon) (\<lambda>h.
              obind (strncpy (bzero 10) (drop (colon + 1) rest) (slash - colon - 1)) (\<lambda>tmp.
              obind (atoi tmp) (\<lambda>port.
              Inr (w\<lparr>wb_host := h, wb_proxyport := if port = 0 then 80 else port\<rparr>))))
            else obind (strncpy (wb_host w) rest (strcspn (CHR ''/'') rest)) (\<lambda>h. Inr (w\<lparr>wb_host := h\<rparr>))
        | None \<Rightarrow> obind (strncpy (wb_host w) rest (strcspn (CHR ''/'') rest)) (\<lambda>h. Inr (w\<lparr>wb_host := h\<rparr>))) (\<lambda>w.
      obind (strcat (wb_request w) (drop (strcspn (CHR ''/'') rest) rest)) (\<lambda>r.
      Inr (w\<lparr>wb_request := r\<rparr>))))"

text \<open>The header lines; \<open>if (c) strcat(request, s)\<close> is \<open>cat_if c s\<close>.\<close>

definition cat_if :: "bool \<Rightarrow> string \<Rightarrow> string \<Rightarrow> string outcome" where
  "cat_if c s r = (if c then strcat r s else Inr r)"

definition add_request_headers :: "webbench \<Rightarrow> string \<Rightarrow> string outcome" where
  "add_request_headers w r =
     (let v = wb_http10 w; direct = (wb_proxyhost w = None) in
      obind (if v = 1 then strcat r '' HTTP/1.0'' else cat_if (v = 2) '' HTTP/1.1'' r) (\<lambda>r.
      obind (strcat r kCRLF) (\<lambda>r.
      obind (cat_if (0 < v) (''User-Agent: WebBench '' @ PROGRAM_VERSION @ kCRLF) r) (\<lambda>r.
      obind (if direct \<and> 0 < v
             then obind (strcat r ''Host: '') (\<lambda>r.
                  obind (strlen (wb_host w)) (\<lambda>_.
                  obind (strcat r (c_string (wb_host w))) (\<lambda>r. strcat r kCRLF)))
             else Inr r) (\<lambda>r.
      obind (cat_if (wb_force_reload w \<noteq> 0 \<and> \<not> direct) (''Pragma: no-cache'' @ kCRLF) r) (\<lambda>r.
      obind (cat_if (1 < v) (''Connection: close'' @ kCRLF) r) (\<lambda>r.
      cat_if (0 < v) kCRLF r)))))))"

definition build_request :: "string \<Rightarrow> webbench \<Rightarrow> webbench outcome" where
  "build_request url w =
     (let w = w\<lparr>wb_host := bzero MAXHOSTNAMELEN, wb_request := bzero REQUEST_SIZE\<rparr>;
          w = w\<lparr>wb_http10 := request_version w\<rparr> in
      obind (strcpy (wb_request w) (method_name (wb_method w))) (\<lambda>r.
      obind (strcat r '' '') (\<lambda>r.
      let w = w\<lparr>wb_request := r\<rparr> in
      case strstr ''://'' url of None \<Rightarrow> Inl (ProcessExit 2) | Some p \<Rightarrow>
      if 1500 < length url then Inl (ProcessExit 2)
      else if wb_proxyhost w = None \<and> \<not> strncasecmp_equal ''http://'' url 7 then Inl (ProcessExit 2)
      else let i = p + 3 in
        if strchr (CHR ''/'') (drop i url) = None then Inl (ProcessExit 2)
        else obind (if wb_proxyhost w = None then split_url (drop i url) w
                    else obind (strcat (wb_request w) url) (\<lambda>r. Inr (w\<lparr>wb_request := r\<rparr>))) (\<lambda>w.
             obind (add_request_headers w (wb_request w)) (\<lambda>r.
             Inr (w\<lparr>wb_request := r\<rparr>))))))"

text \<open>\<open>main\<close> up to the benchmark; the first argument that is no option is the URL.\<close>

definition webbench_main :: "command_option list \<Rightarrow> string list \<Rightarrow> webbench outcome" where
  "webbench_main opts args =
     (if opts = [] \<and> args = [] then Inl (ProcessExit 2)
      else obind (main_options opts webbench_globals) (\<lambda>w.
        case args of
          [] \<Rightarrow> Inl (ProcessExit 2)
        | url # _ \<Rightarrow>
            let w = (if wb_clients w = 0 then w\<lparr>wb_clients := 1\<rparr> else w);
                w = (if wb_benchtime w = 0 then w\<lparr>wb_benchtime := 60\<rparr> else w)
            in build_request url w))"

section \<open>The text of a request\<close>

text \<open>
  The reference: the request as the HTTP component renders requests, with the headers the benchmark
  sends; a request of HTTP/0.9 is a single line.
\<close>

definition request_headers :: "webbench \<Rightarrow> string \<Rightarrow> (string \<times> string) list" where
  "request_headers w h =
     [(''User-Agent'', ''WebBench 1.5'')] @
     (if wb_proxyhost w = None then [(''Host'', h)] else []) @
     (if wb_force_reload w \<noteq> 0 \<and> wb_proxyhost w \<noteq> None then [(''Pragma'', ''no-cache'')] else []) @
     (if 1 < request_version w then [(''Connection'', ''close'')] else [])"

definition request_text :: "webbench \<Rightarrow> string \<Rightarrow> string \<Rightarrow> string" where
  "request_text w target h =
     (if request_version w = 0 then method_name (wb_method w) @ '' '' @ target @ kCRLF
      else render_request (method_name (wb_method w)) target
             (if request_version w = 1 then ''HTTP/1.0'' else ''HTTP/1.1'') (request_headers w h))"

lemma method_name_bounds: "length (method_name m) \<le> 7" "NUL \<notin> set (method_name m)"
  by (simp_all add: method_name_def)

lemma kCRLF_bounds: "length kCRLF = 2" "NUL \<notin> set kCRLF" by (simp_all add: kCRLF_def)

lemma request_version_range: "wb_http10 w \<in> {0, 1, 2} \<Longrightarrow> request_version w \<in> {0, 1, 2}"
  by (auto simp: request_version_def Let_def)

lemma request_version_update [simp]:
  "request_version (w\<lparr>wb_host := h, wb_request := r\<rparr>) = request_version w"
  by (simp add: request_version_def)

lemma add_request_headers_text:
  assumes "wb_http10 w = request_version w0" "wb_proxyhost w = wb_proxyhost w0"
    "wb_force_reload w = wb_force_reload w0" "wb_host w = cleared MAXHOSTNAMELEN h" "wb_http10 w \<in> {0, 1, 2}"
    and h: "length h < 64" "NUL \<notin> set h" and t: "length t \<le> 1500" "NUL \<notin> set t"
    and reload: "wb_http10 w = 0 \<Longrightarrow> wb_force_reload w = 0 \<or> wb_proxyhost w = None"
  shows "add_request_headers w (cleared REQUEST_SIZE (method_name (wb_method w0) @ '' '' @ t)) =
    Inr (cleared REQUEST_SIZE (request_text w0 t h))"
proof -
  note m = method_name_bounds [of "wb_method w0"] kCRLF_bounds
  have hh: "strlen (wb_host w) = Inr (length h)" "c_string (wb_host w) = h"
    using h by (simp_all add: assms(4) MAXHOSTNAMELEN_def)
  consider "wb_http10 w = 0" | "wb_http10 w = 1" | "wb_http10 w = 2" using assms(5) by auto
  then show ?thesis
  proof cases
    case 1
    with m t reload show ?thesis
      by (auto simp: add_request_headers_def cat_if_def REQUEST_SIZE_def request_text_def assms(1) [symmetric] Let_def)
  next
    case 2
    with m t h hh show ?thesis
      by (simp add: add_request_headers_def cat_if_def REQUEST_SIZE_def request_text_def request_headers_def 
        PROGRAM_VERSION_def render_request_def header_block_def header_line_def assms(1) [symmetric] assms(2,3) Let_def)
  next
    case 3
    with m t h hh show ?thesis
      by (simp add: add_request_headers_def cat_if_def REQUEST_SIZE_def request_text_def request_headers_def 
        PROGRAM_VERSION_def render_request_def header_block_def header_line_def assms(1) [symmetric] assms(2,3) Let_def)
  qed
qed

lemma request_text_bounds:
  assumes "length t \<le> 1500" "NUL \<notin> set t" "NUL \<notin> set h" "length h < 64"
  shows "length (request_text w t h) < 2048 \<and> NUL \<notin> set (request_text w t h)"
  using assms method_name_bounds [of "wb_method w"] kCRLF_bounds
  by (simp add: request_text_def request_headers_def render_request_def header_block_def header_line_def)

lemma strstr_http: "strstr ''://'' (''http://'' @ r) = Some 4"
  by (simp add: strstr.simps)

lemma same_prefix: "strncasecmp_equal ''http://'' (''http://'' @ r) 7"
  by (simp add: strncasecmp_equal_def)


lemma version_zero:
  "request_version w = 0 \<Longrightarrow> wb_force_reload w = 0 \<or> wb_proxyhost w = None"
  by (auto simp: request_version_def Let_def split: if_splits)

lemma strchr_beyond: "c \<notin> set s \<Longrightarrow> strchr c (s @ t) = Some k \<Longrightarrow> length s \<le> k"
  by (auto simp: strchr_def takeWhile_append split: if_splits)

definition url_port :: "nat option \<Rightarrow> string" where
  "url_port port = (case port of None \<Rightarrow> [] | Some p \<Rightarrow> CHR '':'' # to_string_nat p)"

lemma url_offsets:
  assumes "rest = h @ url_port port @ CHR ''/'' # p" "CHR ''/'' \<notin> set h" "CHR '':'' \<notin> set h"
  shows "strchr (CHR ''/'') rest = Some (length (h @ url_port port))"
    and "strcspn (CHR ''/'') rest = length (h @ url_port port)"
    and "port = Some n \<Longrightarrow> strchr (CHR '':'') rest = Some (length h)"
    and "port = None \<Longrightarrow> strchr (CHR '':'') rest = Some c \<Longrightarrow> length h \<le> c"
proof -
  have "CHR ''/'' \<notin> set (to_string_nat n)" for n
    using to_string_nat_digits [of n] by (auto simp: digits_def)
  then have np: "CHR ''/'' \<notin> set (h @ url_port port)"
    using assms(2) by (auto simp: url_port_def split: option.splits)
  show "strchr (CHR ''/'') rest = Some (length (h @ url_port port))"
    "strcspn (CHR ''/'') rest = length (h @ url_port port)"
    using strchr_append [OF np, of p] strcspn_append [OF np, of p] by (simp_all add: assms(1))
  show "port = Some n \<Longrightarrow> strchr (CHR '':'') rest = Some (length h)"
    using strchr_append [OF assms(3)] by (simp add: assms(1) url_port_def)
  show "port = None \<Longrightarrow> strchr (CHR '':'') rest = Some c \<Longrightarrow> length h \<le> c"
    using strchr_beyond [OF assms(3)] by (simp add: assms(1) url_port_def)
qed

lemma split_url_direct:
  assumes rest: "rest = h @ url_port port @ CHR ''/'' # p" and h: "CHR ''/'' \<notin> set h" "CHR '':'' \<notin> set h"
    and len: "length h < 64" and port: "\<And>n. port = Some n \<Longrightarrow> n < 10 ^ 9"
    and w: "wb_host w = bzero MAXHOSTNAMELEN" "wb_request w = cleared REQUEST_SIZE s" "wb_proxyport w = q"
    and s: "length s + length (CHR ''/'' # p) < REQUEST_SIZE" "NUL \<notin> set s"
  shows "split_url rest w = Inr (w\<lparr>wb_host := cleared MAXHOSTNAMELEN h,
      wb_proxyport := (case port of None \<Rightarrow> q | Some n \<Rightarrow> if n = 0 then 80 else int n),
      wb_request := cleared REQUEST_SIZE (s @ CHR ''/'' # p)\<rparr>)"
proof -
  note off = url_offsets [OF rest h]
  have m: "length h \<le> MAXHOSTNAMELEN" using len by (simp add: MAXHOSTNAMELEN_def)
  show ?thesis
  proof (cases port)
    case None
    then show ?thesis using off(1,2,4) m s
      by (auto simp: split_url_def w bzero_cleared rest Let_def url_port_def not_less split: option.splits)
  next
    case (Some n)
    have n: "int n < 2 ^ 31" "length (to_string_nat n) < 10"
      using port [OF Some] length_to_string_nat [of n 9] by auto
    show ?thesis using Some off(1-3) m s n(2) atoi_to_string [OF n]
      by (auto simp: split_url_def w bzero_cleared rest Let_def url_port_def)
  qed
qed

lemma split_url_overflows:
  assumes rest: "rest = h @ url_port port @ CHR ''/'' # p" and h: "CHR ''/'' \<notin> set h" "CHR '':'' \<notin> set h"
    and w: "wb_host w = bzero MAXHOSTNAMELEN"
    and long: "64 < length h \<or> (\<exists>n. port = Some n \<and> 10 < length (to_string_nat n))"
  shows "split_url rest w = Inl BadAccess"
proof (cases port)
  case None
  with long url_offsets(1,2,4) [OF rest h] show ?thesis
    by (auto simp: split_url_def w bzero_cleared rest Let_def url_port_def not_less MAXHOSTNAMELEN_def strncpy_overflow
        split: option.splits)
next
  case (Some n)
  show ?thesis
  proof (cases "64 < length h")
    case True
    then show ?thesis using Some url_offsets(1-3) [OF rest h]
      by (auto simp: split_url_def w bzero_cleared rest Let_def url_port_def MAXHOSTNAMELEN_def strncpy_overflow)
  next
    case False
    then show ?thesis using Some long url_offsets(1-3) [OF rest h]
      by (auto simp: split_url_def w bzero_cleared rest Let_def url_port_def MAXHOSTNAMELEN_def strncpy_overflow)
  qed
qed

text \<open>What \<open>build_request\<close> has done when it starts to take the URL apart.\<close>

definition request_begun :: "webbench \<Rightarrow> webbench" where
  "request_begun w = w\<lparr>wb_host := bzero MAXHOSTNAMELEN, wb_http10 := request_version w,
     wb_request := cleared REQUEST_SIZE (method_name (wb_method w) @ '' '')\<rparr>"

lemma build_request_begins:
  assumes "url = ''http://'' @ rest" "length url \<le> 1500" "CHR ''/'' \<in> set rest" "wb_proxyhost w = None"
  shows "build_request url w = obind (split_url rest (request_begun w)) (\<lambda>w.
     obind (add_request_headers w (wb_request w)) (\<lambda>r. Inr (w\<lparr>wb_request := r\<rparr>)))"
proof -
  note m = method_name_bounds [of "wb_method w"]
  have "strcpy (bzero REQUEST_SIZE) (method_name (wb_method w)) = Inr (cleared REQUEST_SIZE (method_name (wb_method w)))"
    "strcat (cleared REQUEST_SIZE (method_name (wb_method w))) '' '' = Inr (cleared REQUEST_SIZE (method_name (wb_method w) @ '' ''))"
    using m by (simp_all add: bzero_cleared REQUEST_SIZE_def)
  moreover have "drop 7 url = rest" "strstr ''://'' url = Some 4" "strncasecmp_equal ''http://'' url 7"
    "strchr (CHR ''/'') rest \<noteq> None"
    using strstr_http same_prefix assms(1,3) by (simp_all add: strchr_def)
  ultimately show ?thesis
    using assms(2,4) by (auto simp: build_request_def request_begun_def Let_def)
qed

lemma build_request_result:
  assumes url: "url = ''http://'' @ h @ url_port port @ CHR ''/'' # p" "length url \<le> 1500"
    and h: "CHR ''/'' \<notin> set h" "CHR '':'' \<notin> set h" "NUL \<notin> set url" "length h < 64"
    and port: "\<And>n. port = Some n \<Longrightarrow> n < 10 ^ 9"
    and w: "wb_proxyhost w = None" "wb_http10 w \<in> {0, 1, 2}"
  shows "build_request url w = Inr (w\<lparr>wb_http10 := request_version w, wb_host := cleared MAXHOSTNAMELEN h,
     wb_proxyport := (case port of None \<Rightarrow> wb_proxyport w | Some n \<Rightarrow> if n = 0 then 80 else int n),
     wb_request := cleared REQUEST_SIZE (request_text w (CHR ''/'' # p) h)\<rparr>)"
proof -
  let ?rest = "h @ url_port port @ CHR ''/'' # p" and ?m = "method_name (wb_method w)"
  let ?w' = "(request_begun w)\<lparr>wb_host := cleared MAXHOSTNAMELEN h,
      wb_proxyport := (case port of None \<Rightarrow> wb_proxyport w | Some n \<Rightarrow> if n = 0 then 80 else int n),
      wb_request := cleared REQUEST_SIZE ((?m @ '' '') @ CHR ''/'' # p)\<rparr>"
  note m = method_name_bounds [of "wb_method w"]
  have p: "length (CHR ''/'' # p) \<le> 1500" "NUL \<notin> set (CHR ''/'' # p)" "NUL \<notin> set h"
    using url h(3) by auto
  have "split_url ?rest (request_begun w) = Inr ?w'"
    by (rule split_url_direct [OF refl h(1,2,4) port]) (use m p in \<open>simp_all add: request_begun_def REQUEST_SIZE_def\<close>)
  moreover have "add_request_headers ?w' (cleared REQUEST_SIZE (?m @ '' '' @ (CHR ''/'' # p))) =
      Inr (cleared REQUEST_SIZE (request_text w (CHR ''/'' # p) h))"
    using w request_version_range [OF w(2)] version_zero [of w] h(4) p
    by (intro add_request_headers_text) (simp_all add: request_begun_def)
  ultimately have "build_request url w = Inr (?w'\<lparr>wb_request := cleared REQUEST_SIZE (request_text w (CHR ''/'' # p) h)\<rparr>)"
    using build_request_begins [OF url _ w(1)] by simp
  then show ?thesis by (simp add: request_begun_def)
qed

lemma build_request_text:
  assumes url: "url = ''http://'' @ h @ url_port port @ CHR ''/'' # p" "length url \<le> 1500"
    and h: "CHR ''/'' \<notin> set h" "CHR '':'' \<notin> set h" "NUL \<notin> set url" "length h < 64"
    and port: "\<And>n. port = Some n \<Longrightarrow> n < 10 ^ 9"
    and w: "wb_proxyhost w = None" "wb_http10 w \<in> {0, 1, 2}"
  shows "\<exists>w'. build_request url w = Inr w' \<and> c_string (wb_request w') = request_text w (CHR ''/'' # p) h \<and>
     c_string (wb_host w') = h \<and>
     wb_proxyport w' = (case port of None \<Rightarrow> wb_proxyport w | Some n \<Rightarrow> if n = 0 then 80 else int n)"
proof -
  have p: "length (CHR ''/'' # p) \<le> 1500" "NUL \<notin> set (CHR ''/'' # p)" "NUL \<notin> set h"
    using url h(3) by auto
  have "c_string (cleared REQUEST_SIZE (request_text w (CHR ''/'' # p) h)) = request_text w (CHR ''/'' # p) h"
    using request_text_bounds [OF p h(4)] by (intro c_string_cleared) (auto simp: REQUEST_SIZE_def)
  with build_request_result [OF url h port w] h(4) p(3) show ?thesis by (auto simp: MAXHOSTNAMELEN_def)
qed



text \<open>C32: a \<open>GET\<close> the benchmark sends is one the server understands: in any input buffer, the parser
  recovers the path, the version and the host from it and completes.\<close>

theorem webbench_request_understood:
  assumes "url = ''http://'' @ h @ url_port port @ CHR ''/'' # p" "length url \<le> 1500"
    and "CHR ''/'' \<notin> set h" "CHR '':'' \<notin> set h" "NUL \<notin> set url" "length h < 64"
    and "\<And>n. port = Some n \<Longrightarrow> n < 10 ^ 9"
    and "wb_proxyhost w = None" "wb_http10 w \<in> {1, 2}" "wb_method w = METHOD_GET"
    and "CR \<notin> set h" "token (CHR ''/'' # p)"
  shows "\<exists>w'. build_request url w = Inr w' \<and>
    (\<forall>b. bf_invar b \<and> bf_contents b = c_string (wb_request w') \<longrightarrow>
      (\<exists>code b' r. HttpRequest_ParseRequest b HttpRequest_zero = Inr (code, b', r) \<and>
        hr_parse_state r = PARSE_COMPLETE \<and> hr_method r = ''GET'' \<and> hr_path r = CHR ''/'' # p \<and>
        hr_version r = (if wb_http10 w = 1 then ''HTTP/1.0'' else ''HTTP/1.1'') \<and>
        map_find (hr_headers r) ''Host'' = Some h))"
proof -
  have v: "request_version w = wb_http10 w" "wb_http10 w \<noteq> 0" "wb_http10 w \<in> {0, 1, 2}"
    using assms(9,10) by (auto simp: request_version_def method_defs Let_def)
  let ?v = "if wb_http10 w = 1 then ''HTTP/1.0'' else ''HTTP/1.1''" and ?hs = "request_headers w h"
  obtain w' where w': "build_request url w = Inr w'" "c_string (wb_request w') = request_text w (CHR ''/'' # p) h"
    using build_request_text [OF assms(1-8) v(3)] by blast
  have t: "c_string (wb_request w') = render_request ''GET'' (CHR ''/'' # p) ?v ?hs"
    using w'(2) v assms(10) by (simp add: request_text_def method_name_def method_defs)
  have tok: "token ?v" using v by (simp add: token_def is_space_def)
  have good: "list_all good_header ?hs"
    using assms(6,8,11) by (simp add: request_headers_def good_header_def)
  have "map_find (fold (\<lambda>(k, x) m. map_insert k x m) ?hs []) ''Host'' = Some h"
    using assms(8) by (simp add: request_headers_def)
  then show ?thesis
    using w'(1) parse_GET [OF _ _ assms(12) tok good, of _ HttpRequest_zero] t
    by (fastforce simp: HttpRequest_zero_def)
qed

theorem webbench_request_understood_witness:
  "\<exists>w' r b' code. build_request ''http://a.b/x'' webbench_globals = Inr w' \<and>
     HttpRequest_ParseRequest \<lparr>bf_buffer = c_string (wb_request w') @ ''.'', bf_read_index = 0,
       bf_write_index = length (c_string (wb_request w'))\<rparr> HttpRequest_zero = Inr (code, b', r) \<and>
     hr_path r = ''/x'' \<and> map_find (hr_headers r) ''Host'' = Some ''a.b''"
proof -
  have url: "''http://a.b/x'' = ''http://'' @ ''a.b'' @ url_port None @ CHR ''/'' # ''x''" by code_simp
  have tok: "token (CHR ''/'' # ''x'')" by code_simp
  have g: "wb_proxyhost webbench_globals = None" "wb_http10 webbench_globals = 1" "wb_method webbench_globals = METHOD_GET"
    by (simp_all add: webbench_globals_def)
  have "\<exists>w'. build_request ''http://a.b/x'' webbench_globals = Inr w' \<and>
      c_string (wb_request w') = request_text webbench_globals (CHR ''/'' # ''x'') ''a.b''"
    using build_request_text [OF url, of webbench_globals] g by auto
  then have len: "length (c_string (wb_request w')) < 2048" if "build_request ''http://a.b/x'' webbench_globals = Inr w'" for w'
    using request_text_bounds [of "CHR ''/'' # ''x''" "''a.b''" webbench_globals] that by auto
  obtain w' where w': "build_request ''http://a.b/x'' webbench_globals = Inr w'"
    "\<forall>b. bf_invar b \<and> bf_contents b = c_string (wb_request w') \<longrightarrow>
      (\<exists>code b' r. HttpRequest_ParseRequest b HttpRequest_zero = Inr (code, b', r) \<and>
        hr_parse_state r = PARSE_COMPLETE \<and> hr_method r = ''GET'' \<and> hr_path r = CHR ''/'' # ''x'' \<and>
        hr_version r = (if wb_http10 webbench_globals = 1 then ''HTTP/1.0'' else ''HTTP/1.1'') \<and>
        map_find (hr_headers r) ''Host'' = Some ''a.b'')"
    using webbench_request_understood [OF url _ _ _ _ _ _ g(1) _ g(3) _ tok] g(2) by auto
  let ?b = "\<lparr>bf_buffer = c_string (wb_request w') @ ''.'', bf_read_index = 0,
       bf_write_index = length (c_string (wb_request w'))\<rparr>"
  have "bf_invar ?b" "bf_contents ?b = c_string (wb_request w')"
    using len [OF w'(1)] by (simp_all add: bf_invar_def bf_contents_def slice_def)
  with w' show ?thesis by blast
qed

text \<open>C34: a host of more than 64 characters, or a port of more than 10, is copied past the end of its
  fixed array: nothing checks either length.\<close>

theorem webbench_long_host_overflows:
  assumes "url = ''http://'' @ h @ url_port port @ CHR ''/'' # p" "length url \<le> 1500"
    and "CHR ''/'' \<notin> set h" "CHR '':'' \<notin> set h" "wb_proxyhost w = None"
    and "64 < length h \<or> (\<exists>n. port = Some n \<and> 10 < length (to_string_nat n))"
  shows "build_request url w = Inl BadAccess"
  using assms(6) build_request_begins [OF assms(1,2) _ assms(5)] split_url_overflows [OF refl assms(3,4), where w = "request_begun w" and port = port and p = p]
  by (auto simp: request_begun_def)

theorem webbench_long_host_overflows_witness:
  "build_request (''http://'' @ replicate 65 (CHR ''a'') @ ''/'') webbench_globals = Inl BadAccess"
  by (rule webbench_long_host_overflows [where h = "replicate 65 (CHR ''a'')" and port = None and p = "[]"])
    (simp_all add: url_port_def webbench_globals_def)

end
