(* ===== verification/Webbench_Run.thy ===== *)
theory Webbench_Run
  imports Webbench
begin

text \<open>
  The benchmark client at work: \<open>Socket\<close> (webbench-1.5/socket.c), the request loop \<open>benchcore\<close> of a
  child process and \<open>bench\<close>, which forks the children and adds up their reports
  (webbench-1.5/webbench.c). Results of system calls are inputs; a call with none left fails. The
  alarm is the number of times \<open>timerexpired\<close> is still read as 0, so the loops end by recursion on it.
\<close>

section \<open>Connecting\<close>

text \<open>What resolving the host, \<open>socket\<close> and \<open>connect\<close> will return.\<close>

record socket_results =
  so_inet_addr :: "nat option"         \<comment> \<open>\<open>None\<close> is \<open>INADDR_NONE\<close>\<close>
  so_gethostbyname :: "nat option"
  so_socket :: int
  so_connect :: int

datatype bench_call =
    Resolve                 \<comment> \<open>the host is looked up\<close>
  | Opened int              \<comment> \<open>\<open>socket\<close> gave this descriptor\<close>
  | Connected int nat int   \<comment> \<open>\<open>connect\<close> to this address and port succeeded\<close>
  | Sent int string
  | HalfClosed int
  | Closed int

definition Socket :: "socket_results \<Rightarrow> int \<Rightarrow> int \<times> bench_call list" where
  "Socket r clientPort =
     (case (case so_inet_addr r of Some a \<Rightarrow> Some a | None \<Rightarrow> so_gethostbyname r) of
        None \<Rightarrow> (-1, [Resolve])
      | Some ad \<Rightarrow>
          let sock = so_socket r in
          if sock < 0 then (sock, [Resolve])
          else if so_connect r < 0 then (-1, [Resolve, Opened sock])
          else (sock, [Resolve, Opened sock, Connected sock ad clientPort]))"

section \<open>The request loop\<close>

record bench_world =
  bw_speed :: int
  bw_failed :: int
  bw_bytes :: int
  bw_socket :: "socket_results list"
  bw_write :: "int list"
  bw_shutdown :: "int list"
  bw_read :: "int list"
  bw_close :: "int list"
  bw_calls :: "bench_call list"

definition bw_call :: "bench_call list \<Rightarrow> bench_world \<Rightarrow> bench_world" where
  "bw_call cs w = w\<lparr>bw_calls := bw_calls w @ cs\<rparr>"

definition no_socket :: socket_results where
  "no_socket = \<lparr>so_inet_addr = None, so_gethostbyname = None, so_socket = -1, so_connect = -1\<rparr>"

definition bench_socket :: "int \<Rightarrow> bench_world \<Rightarrow> int \<times> bench_world" where
  "bench_socket port w =
     (let (r, w) = (case bw_socket w of [] \<Rightarrow> (no_socket, w) | r # rs \<Rightarrow> (r, w\<lparr>bw_socket := rs\<rparr>));
          (s, cs) = Socket r port
      in (s, bw_call cs w))"

definition bench_write :: "int \<Rightarrow> string \<Rightarrow> bench_world \<Rightarrow> int \<times> bench_world" where
  "bench_write s req w =
     (let w = bw_call [Sent s req] w in
      case bw_write w of [] \<Rightarrow> (-1, w) | r # rs \<Rightarrow> (r, w\<lparr>bw_write := rs\<rparr>))"

definition bench_shutdown :: "int \<Rightarrow> bench_world \<Rightarrow> int \<times> bench_world" where
  "bench_shutdown s w =
     (let w = bw_call [HalfClosed s] w in
      case bw_shutdown w of [] \<Rightarrow> (-1, w) | r # rs \<Rightarrow> (r, w\<lparr>bw_shutdown := rs\<rparr>))"

definition bench_read :: "bench_world \<Rightarrow> int \<times> bench_world" where
  "bench_read w = (case bw_read w of [] \<Rightarrow> (-1, w) | r # rs \<Rightarrow> (r, w\<lparr>bw_read := rs\<rparr>))"

definition bench_close :: "int \<Rightarrow> bench_world \<Rightarrow> int \<times> bench_world" where
  "bench_close s w =
     (let w = bw_call [Closed s] w in
      case bw_close w of [] \<Rightarrow> (-1, w) | r # rs \<Rightarrow> (r, w\<lparr>bw_close := rs\<rparr>))"

definition count_failed :: "bench_world \<Rightarrow> bench_world outcome" where
  "count_failed w = check (int_ok (bw_failed w + 1)) SignedOverflow (Inr (w\<lparr>bw_failed := bw_failed w + 1\<rparr>))"

definition count_speed :: "bench_world \<Rightarrow> bench_world outcome" where
  "count_speed w = check (int_ok (bw_speed w + 1)) SignedOverflow (Inr (w\<lparr>bw_speed := bw_speed w + 1\<rparr>))"

definition count_bytes :: "int \<Rightarrow> bench_world \<Rightarrow> bench_world outcome" where
  "count_bytes i w = check (int_ok (bw_bytes w + i)) SignedOverflow (Inr (w\<lparr>bw_bytes := bw_bytes w + i\<rparr>))"

text \<open>
  The inner loop on descriptor \<open>s\<close>, with the alarm \<open>n\<close> reads away. It ends by \<open>break\<close> (\<open>True\<close>) or, after
  counting the failure and closing, by \<open>goto nexttry\<close> (\<open>False\<close>).
\<close>

fun benchcore_read :: "nat \<Rightarrow> int \<Rightarrow> bench_world \<Rightarrow> (bool \<times> nat \<times> bench_world) outcome" where
  "benchcore_read 0 s w = Inr (True, 0, w)"
| "benchcore_read (Suc n) s w =
     (let (i, w) = bench_read w in
      if i < 0 then obind (count_failed w) (\<lambda>w. Inr (False, n, snd (bench_close s w)))
      else if i = 0 then Inr (True, n, w)
      else obind (count_bytes i w) (benchcore_read n s))"

text \<open>The ways an attempt ends: counted as failed, closed and counted as failed, closed and counted.\<close>

definition try_failed :: "nat \<Rightarrow> bench_world \<Rightarrow> (nat \<times> bench_world) outcome" where
  "try_failed n w = obind (count_failed w) (\<lambda>w. Inr (n, w))"

definition try_failed_close :: "nat \<Rightarrow> int \<Rightarrow> bench_world \<Rightarrow> (nat \<times> bench_world) outcome" where
  "try_failed_close n s w = obind (count_failed w) (\<lambda>w. Inr (n, snd (bench_close s w)))"

definition try_finish :: "nat \<Rightarrow> int \<Rightarrow> bench_world \<Rightarrow> (nat \<times> bench_world) outcome" where
  "try_finish n s w =
     (let (r, w) = bench_close s w in
      if r \<noteq> 0 then try_failed n w else obind (count_speed w) (\<lambda>w. Inr (n, w)))"

text \<open>Reading the response, unless the force flag is set, and closing.\<close>

definition try_response :: "webbench \<Rightarrow> nat \<Rightarrow> int \<Rightarrow> bench_world \<Rightarrow> (nat \<times> bench_world) outcome" where
  "try_response g n s w =
     (if wb_force g = 0 then
        obind (benchcore_read n s w) (\<lambda>(done, n, w). if done then try_finish n s w else Inr (n, w))
      else try_finish n s w)"

text \<open>One attempt, from one test of the timer to the next.\<close>

definition benchcore_try :: "webbench \<Rightarrow> int \<Rightarrow> string \<Rightarrow> nat \<Rightarrow> bench_world \<Rightarrow> (nat \<times> bench_world) outcome" where
  "benchcore_try g port req n w =
     (let (s, w) = bench_socket port w in
      if s < 0 then try_failed n w
      else let (r, w) = bench_write s req w in
        if int (length req) \<noteq> r then try_failed_close n s w
        else if wb_http10 g = 0 then
          let (r, w) = bench_shutdown s w in
          if r \<noteq> 0 then try_failed_close n s w else try_response g n s w
        else try_response g n s w)"

lemmas try_defs = try_failed_def try_failed_close_def try_finish_def try_response_def

lemma benchcore_read_alarm: "benchcore_read n s w = Inr (d, n', w') \<Longrightarrow> n' \<le> n"
proof (induction n arbitrary: w)
  case (Suc n)
  then show ?case by (auto simp: obind_Inr_iff split: if_splits prod.splits intro: le_SucI)
qed simp

lemma benchcore_try_alarm: "benchcore_try g port req n w = Inr (n', w') \<Longrightarrow> n' \<le> n"
  by (auto simp: benchcore_try_def try_defs obind_Inr_iff Let_def split: if_splits prod.splits dest: benchcore_read_alarm)

text \<open>The loop: an expired timer takes back one failure and returns.\<close>

function benchcore_loop :: "webbench \<Rightarrow> int \<Rightarrow> string \<Rightarrow> nat \<Rightarrow> bench_world \<Rightarrow> bench_world outcome" where
  "benchcore_loop g port req 0 w = Inr (if 0 < bw_failed w then w\<lparr>bw_failed := bw_failed w - 1\<rparr> else w)"
| "benchcore_loop g port req (Suc n) w =
     obind (benchcore_try g port req n w) (\<lambda>(n, w). benchcore_loop g port req n w)"
  by pat_completeness auto
termination
  by (relation "measure (\<lambda>(g, port, req, n, w). n)") (auto dest: benchcore_try_alarm)

text \<open>\<open>handler_ok\<close>: whether \<open>sigaction\<close> succeeds.\<close>

definition benchcore :: "webbench \<Rightarrow> bool \<Rightarrow> int \<Rightarrow> string \<Rightarrow> nat \<Rightarrow> bench_world \<Rightarrow> bench_world outcome" where
  "benchcore g handler_ok port req n w =
     (if handler_ok then benchcore_loop g port req n w else Inl (ProcessExit 3))"

section \<open>The parent\<close>

text \<open>
  The loop over \<open>fscanf\<close>: each report is the list of the numbers converted. The variables \<open>i\<close>, \<open>j\<close> and \<open>k\<close>
  keep their values when fewer are converted. The parent itself holds the pipe's write end, so
  when the reports run out the read blocks for ever.
\<close>

fun bench_collect :: "int list list \<Rightarrow> int \<Rightarrow> int \<Rightarrow> int \<Rightarrow> int \<Rightarrow> int \<Rightarrow> int \<Rightarrow> int \<Rightarrow>
    (int \<times> int \<times> int \<times> int) outcome" where
  "bench_collect [] clients i j k speed failed bytes = Inl NoReturn"
| "bench_collect (r # rs) clients i j k speed failed bytes =
     (let i = (if 0 < length r then r ! 0 else i);
          j = (if 1 < length r then r ! 1 else j);
          k = (if 2 < length r then r ! 2 else k) in
      if length r < 2 then Inr (i, speed, failed, bytes)
      else check (int_ok (speed + i) \<and> int_ok (failed + j) \<and> int_ok (bytes + k)) SignedOverflow
        (if clients - 1 = 0 then Inr (i, speed + i, failed + j, bytes + k)
         else bench_collect rs (clients - 1) i j k (speed + i) (failed + j) (bytes + k)))"

text \<open>
  \<open>fork\<close> for each client. \<open>pids\<close> are its results; in a child it returns 0 and the loop is left. The
  result is the loop counter and the last \<open>pid\<close>.
\<close>

fun bench_fork :: "int list \<Rightarrow> int \<Rightarrow> int \<Rightarrow> int \<Rightarrow> int \<times> int" where
  "bench_fork [] i clients pid = (if i < clients then (i, -1) else (i, pid))"
| "bench_fork (p # ps) i clients pid =
     (if i < clients then (if p \<le> 0 then (i, p) else bench_fork ps (i + 1) clients p) else (i, pid))"

text \<open>
  \<open>bench\<close>: the availability check, the pipe, the forks, and then the child's report or the parent's
  collection. The result is the value returned with the totals; \<open>j0\<close>, \<open>k0\<close> are the uninitialised
  variables, \<open>files_ok\<close> whether \<open>fdopen\<close> succeeds.
\<close>

definition bench :: "webbench \<Rightarrow> socket_results \<Rightarrow> int \<Rightarrow> int list \<Rightarrow> bool \<Rightarrow> bool \<Rightarrow> nat \<Rightarrow> bench_world \<Rightarrow>
    int list list \<Rightarrow> int \<Rightarrow> int \<Rightarrow> (int \<times> int \<times> int \<times> int) outcome" where
  "bench g avail pipe_result pids files_ok handler_ok n w reports j0 k0 =
     (let (s, _) = Socket avail (wb_proxyport g) in
      if s < 0 then Inr (1, 0, 0, 0)
      else if pipe_result \<noteq> 0 then Inr (3, 0, 0, 0)
      else let (i, pid) = bench_fork pids 0 (wb_clients g) 0 in
        if pid < 0 then Inr (3, 0, 0, 0)
        else if pid = 0 then
          obind (benchcore g handler_ok (wb_proxyport g) (c_string (wb_request g)) n w) (\<lambda>w.
            if \<not> files_ok then Inr (3, 0, 0, 0)
            else Inr (0, bw_speed w, bw_failed w, bw_bytes w))
        else if \<not> files_ok then Inr (3, 0, 0, 0)
        else bench_collect reports (wb_clients g) i j0 k0 0 0 0)"

section \<open>What an attempt does\<close>

definition tries :: "bench_call list \<Rightarrow> nat" where
  "tries cs = length (filter (\<lambda>c. c = Resolve) cs)"

fun connected_fds :: "bench_call list \<Rightarrow> int list" where
  "connected_fds [] = []"
| "connected_fds (Connected s ad port # cs) = s # connected_fds cs"
| "connected_fds (_ # cs) = connected_fds cs"

fun closed_fds :: "bench_call list \<Rightarrow> int list" where
  "closed_fds [] = []"
| "closed_fds (Closed s # cs) = s # closed_fds cs"
| "closed_fds (_ # cs) = closed_fds cs"

lemma connected_fds_append: "connected_fds (cs @ ds) = connected_fds cs @ connected_fds ds"
  by (induction cs rule: connected_fds.induct) auto

lemma closed_fds_append: "closed_fds (cs @ ds) = closed_fds cs @ closed_fds ds"
  by (induction cs rule: closed_fds.induct) auto

lemma tries_append: "tries (cs @ ds) = tries cs + tries ds"
  by (simp add: tries_def)

text \<open>What part of a run adds: the calls, the outcome counts and the bytes.\<close>

definition progress :: "nat \<Rightarrow> bench_world \<Rightarrow> bench_world \<Rightarrow> bench_call list \<Rightarrow> bool" where
  "progress k w w' cs \<longleftrightarrow> bw_calls w' = bw_calls w @ cs \<and> bw_speed w \<le> bw_speed w' \<and> bw_failed w \<le> bw_failed w' \<and>
     bw_speed w' + bw_failed w' = bw_speed w + bw_failed w + int k"

lemmas bench_defs = bench_socket_def bench_write_def bench_shutdown_def bench_read_def bench_close_def
  count_failed_def count_speed_def count_bytes_def bw_call_def

lemma count_progress:
  "count_failed w = Inr w' \<Longrightarrow> progress 1 w w' []" "count_speed w = Inr w' \<Longrightarrow> progress 1 w w' []"
  "count_bytes i w = Inr w' \<Longrightarrow> progress 0 w w' []"
  by (auto simp: bench_defs progress_def check_Inr_iff)

lemma call_progress:
  "bench_write s req w = (r, w') \<Longrightarrow> progress 0 w w' [Sent s req]"
  "bench_shutdown s w = (r, w') \<Longrightarrow> progress 0 w w' [HalfClosed s]"
  "bench_read w = (r, w') \<Longrightarrow> progress 0 w w' []"
  "bench_close s w = (r, w') \<Longrightarrow> progress 0 w w' [Closed s]"
  by (auto simp: bench_defs progress_def Let_def split: list.splits)

lemma socket_progress:
  "bench_socket port w = (s, w') \<Longrightarrow> \<exists>cs. progress 0 w w' cs \<and> tries cs = 1 \<and> closed_fds cs = [] \<and>
     connected_fds cs = (if s < 0 then [] else [s])"
  by (auto simp: bench_socket_def bw_call_def Socket_def progress_def tries_def Let_def split: list.splits prod.splits option.splits if_splits)

lemma progress_trans: "progress k u v cs \<Longrightarrow> progress m v w ds \<Longrightarrow> progress (k + m) u w (cs @ ds)"
  by (auto simp: progress_def)

lemma read_progress:
  "benchcore_read n s w = Inr (d, n', w') \<Longrightarrow>
   progress (if d then 0 else 1) w w' (if d then [] else [Closed s])"
proof (induction n arbitrary: w)
  case (Suc n)
  obtain i w1 where r: "bench_read w = (i, w1)" by (cases "bench_read w")
  note p = call_progress(3) [OF r]
  consider "i < 0" | "i = 0" | "0 < i" by linarith
  then show ?case
  proof cases
    case 1
    with Suc.prems r obtain w2 where w2: "count_failed w1 = Inr w2" "w' = snd (bench_close s w2)" "\<not> d"
      by (auto simp: obind_Inr_iff)
    obtain c w3 where c: "bench_close s w2 = (c, w3)" by (cases "bench_close s w2")
    from progress_trans [OF progress_trans [OF p count_progress(1) [OF w2(1)]] call_progress(4) [OF c]] w2 c
    show ?thesis by simp
  next
    case 2
    with Suc.prems r p show ?thesis by simp
  next
    case 3
    with Suc.prems r obtain w2 where w2: "count_bytes i w1 = Inr w2" "benchcore_read n s w2 = Inr (d, n', w')"
      by (auto simp: obind_Inr_iff)
    from progress_trans [OF progress_trans [OF p count_progress(3) [OF w2(1)]] Suc.IH [OF w2(2)]]
    show ?thesis by simp
  qed
qed (simp add: progress_def)

lemma try_failed_progress: "try_failed n w = Inr (n', w') \<Longrightarrow> progress 1 w w' []"
  by (auto simp: try_failed_def obind_Inr_iff dest: count_progress)

lemma try_failed_close_progress: "try_failed_close n s w = Inr (n', w') \<Longrightarrow> progress 1 w w' [Closed s]"
  using progress_trans [OF count_progress(1) call_progress(4) [OF prod.collapse [symmetric]]]
  by (fastforce simp: try_failed_close_def obind_Inr_iff)

lemma try_finish_progress: "try_finish n s w = Inr (n', w') \<Longrightarrow> progress 1 w w' [Closed s]"
proof -
  assume *: "try_finish n s w = Inr (n', w')"
  obtain r w1 where r: "bench_close s w = (r, w1)" by (cases "bench_close s w")
  with * have "progress 1 w1 w' []"
    by (auto simp: try_finish_def obind_Inr_iff dest: count_progress try_failed_progress split: if_splits)
  from progress_trans [OF call_progress(4) [OF r] this] show ?thesis by simp
qed

lemma try_response_progress: "try_response g n s w = Inr (n', w') \<Longrightarrow> progress 1 w w' [Closed s]"
proof (cases "wb_force g = 0")
  case True
  assume "try_response g n s w = Inr (n', w')"
  then obtain d m w1 where w1: "benchcore_read n s w = Inr (d, m, w1)"
    and rest: "if d then try_finish m s w1 = Inr (n', w') else w' = w1"
    using True by (auto simp: try_response_def obind_Inr_iff split: if_splits)
  from read_progress [OF w1] rest show ?thesis
    using progress_trans [OF _ try_finish_progress, of 0 w w1 "[]"] by (cases d) auto
qed (auto simp: try_response_def dest: try_finish_progress)

lemma try_progress:
  assumes "benchcore_try g port req n w = Inr (n', w')"
  shows "\<exists>cs. progress 1 w w' cs \<and> tries cs = 1 \<and> closed_fds cs = connected_fds cs"
proof -
  obtain s w1 where s: "bench_socket port w = (s, w1)" by (cases "bench_socket port w")
  from socket_progress [OF s] obtain cs where cs: "progress 0 w w1 cs" "tries cs = 1" "closed_fds cs = []"
    "connected_fds cs = (if s < 0 then [] else [s])" by blast
  note cs_simps = cs(2-4) tries_append connected_fds_append closed_fds_append tries_def
  show ?thesis
  proof (cases "s < 0")
    case True
    with assms s have "try_failed n w1 = Inr (n', w')" by (simp add: benchcore_try_def)
    from progress_trans [OF cs(1) try_failed_progress [OF this]] True cs show ?thesis by auto
  next
    case False
    obtain r w2 where r: "bench_write s req w1 = (r, w2)" by (cases "bench_write s req w1")
    note p2 = progress_trans [OF cs(1) call_progress(1) [OF r]]
    obtain u w3 where u: "bench_shutdown s w2 = (u, w3)" by (cases "bench_shutdown s w2")
    note p3 = progress_trans [OF p2 call_progress(2) [OF u]]
    have "progress 1 w2 w' [Closed s] \<or> progress 1 w3 w' [Closed s]"
      using assms s r u False
      by (auto simp: benchcore_try_def dest: try_failed_close_progress try_response_progress split: if_splits)
    then show ?thesis
    proof
      assume "progress 1 w2 w' [Closed s]"
      from progress_trans [OF p2 this] False cs show ?thesis
        by (intro exI [of _ "(cs @ [Sent s req]) @ [Closed s]"]) (simp add: tries_def connected_fds_append closed_fds_append)
    next
      assume "progress 1 w3 w' [Closed s]"
      from progress_trans [OF p3 this] False cs show ?thesis
        by (intro exI [of _ "((cs @ [Sent s req]) @ [HalfClosed s]) @ [Closed s]"]) (simp add: tries_def connected_fds_append closed_fds_append)
    qed
  qed
qed

lemma loop_progress:
  "benchcore_loop g port req n w = Inr w' \<Longrightarrow>
   \<exists>cs v k. progress k w v cs \<and> tries cs = k \<and> k \<le> n \<and> closed_fds cs = connected_fds cs \<and>
     w' = (if 0 < bw_failed v then v\<lparr>bw_failed := bw_failed v - 1\<rparr> else v)"
proof (induction n arbitrary: w rule: less_induct)
  case (less n)
  show ?case
  proof (cases n)
    case 0
    with less.prems show ?thesis
      by (intro exI [of _ "[]"] exI [of _ w] exI [of _ 0]) (auto simp: progress_def tries_def)
  next
    case (Suc m)
    with less.prems obtain m' w1 where w1: "benchcore_try g port req m w = Inr (m', w1)" "benchcore_loop g port req m' w1 = Inr w'"
      by (auto simp: obind_Inr_iff)
    have m': "m' \<le> m" using benchcore_try_alarm [OF w1(1)] .
    from try_progress [OF w1(1)] obtain cs where cs: "progress 1 w w1 cs" "tries cs = 1" "closed_fds cs = connected_fds cs" by blast
    from less.IH [OF _ w1(2)] m' Suc obtain ds v k where ds: "progress k w1 v ds" "tries ds = k" "k \<le> m'"
      "closed_fds ds = connected_fds ds" "w' = (if 0 < bw_failed v then v\<lparr>bw_failed := bw_failed v - 1\<rparr> else v)" by auto
    from progress_trans [OF cs(1) ds(1)] cs ds m' Suc show ?thesis
      by (intro exI [of _ "cs @ ds"] exI [of _ v] exI [of _ "1 + k"])
        (auto simp: tries_append closed_fds_append connected_fds_append)
  qed
qed

section \<open>The loop returns\<close>

text \<open>Enough room in the counters until the alarm, with reads of at most the buffer's 1500 bytes.\<close>

definition bench_room :: "nat \<Rightarrow> nat \<Rightarrow> bench_world \<Rightarrow> bool" where
  "bench_room k n w \<longleftrightarrow> 0 \<le> bw_bytes w \<and> bw_bytes w + 1500 * int n < 2 ^ 31 \<and> 0 \<le> bw_speed w \<and> 0 \<le> bw_failed w \<and>
     bw_speed w + bw_failed w + int k < 2 ^ 31 \<and> (\<forall>x \<in> set (bw_read w). x \<le> 1500)"

lemma call_room:
  "bench_room k n w \<Longrightarrow> bench_room k n (snd (bench_socket port w))"
  "bench_room k n w \<Longrightarrow> bench_room k n (snd (bench_write s req w))"
  "bench_room k n w \<Longrightarrow> bench_room k n (snd (bench_shutdown s w))"
  "bench_room k n w \<Longrightarrow> bench_room k n (snd (bench_close s w))"
  "bench_room k n w \<Longrightarrow> bench_room k n (snd (bench_read w)) \<and> fst (bench_read w) \<le> 1500"
  by (auto simp: bench_room_def bench_defs Let_def split: list.splits prod.splits)

lemma count_room:
  "bench_room (Suc k) n w \<Longrightarrow> \<exists>w'. count_failed w = Inr w' \<and> bench_room k n w'"
  "bench_room (Suc k) n w \<Longrightarrow> \<exists>w'. count_speed w = Inr w' \<and> bench_room k n w'"
  "bench_room k (Suc n) w \<Longrightarrow> 0 < i \<Longrightarrow> i \<le> 1500 \<Longrightarrow> \<exists>w'. count_bytes i w = Inr w' \<and> bench_room k n w'"
  by (auto simp: bench_room_def bench_defs int_ok_def)

lemma room_less: "bench_room k (Suc n) w \<Longrightarrow> bench_room k n w"
  by (auto simp: bench_room_def)

lemma read_returns:
  "bench_room (Suc k) n w \<Longrightarrow> \<exists>d n' w'. benchcore_read n s w = Inr (d, n', w') \<and> n' \<le> n \<and>
     bench_room (if d then Suc k else k) n' w'"
proof (induction n arbitrary: w)
  case (Suc n)
  obtain i w1 where r: "bench_read w = (i, w1)" by (cases "bench_read w")
  have room: "bench_room (Suc k) (Suc n) w1" "i \<le> 1500" using call_room(5) [OF Suc.prems] r by auto
  consider "i < 0" | "i = 0" | "0 < i" by linarith
  then show ?case
  proof cases
    case 1
    from count_room(1) [OF room_less [OF room(1)]] obtain w2 where w2: "count_failed w1 = Inr w2" "bench_room k n w2" by blast
    from call_room(4) [OF w2(2)] w2(1) 1 r show ?thesis by auto
  next
    case 2
    with room_less [OF room(1)] r show ?thesis by auto
  next
    case 3
    from count_room(3) [OF room(1) 3 room(2)] obtain w2 where w2: "count_bytes i w1 = Inr w2" "bench_room (Suc k) n w2" by blast
    from Suc.IH [OF w2(2)] obtain d n' w' where "benchcore_read n s w2 = Inr (d, n', w')" "n' \<le> n"
      "bench_room (if d then Suc k else k) n' w'" by blast
    with w2(1) 3 r show ?thesis by (intro exI [of _ d] exI [of _ n'] exI [of _ w']) simp
  qed
qed auto

lemma try_ends_return:
  assumes "bench_room (Suc k) n w"
  shows "\<exists>w'. try_failed n w = Inr (n, w') \<and> bench_room k n w'"
    and "\<exists>w'. try_failed_close n s w = Inr (n, w') \<and> bench_room k n w'"
    and "\<exists>w'. try_finish n s w = Inr (n, w') \<and> bench_room k n w'"
proof -
  obtain w1 where w1: "count_failed w = Inr w1" "bench_room k n w1" using count_room(1) [OF assms] by blast
  then show "\<exists>w'. try_failed n w = Inr (n, w') \<and> bench_room k n w'" by (simp add: try_failed_def)
  show "\<exists>w'. try_failed_close n s w = Inr (n, w') \<and> bench_room k n w'"
    using w1 call_room(4) [OF w1(2)] by (simp add: try_failed_close_def)
  have "bench_room (Suc k) n (snd (bench_close s w))" by (rule call_room(4) [OF assms])
  from count_room(1,2) [OF this] show "\<exists>w'. try_finish n s w = Inr (n, w') \<and> bench_room k n w'"
    by (auto simp: try_finish_def try_failed_def split: prod.splits)
qed

lemma try_returns:
  assumes "bench_room (Suc k) n w"
  shows "\<exists>n' w'. benchcore_try g port req n w = Inr (n', w') \<and> n' \<le> n \<and> bench_room k n' w'"
proof -
  have response: "\<exists>n' w'. try_response g n s v = Inr (n', w') \<and> n' \<le> n \<and> bench_room k n' w'"
    if room: "bench_room (Suc k) n v" for s v
  proof (cases "wb_force g = 0")
    case True
    from read_returns [OF room] obtain d n1 v1 where v1: "benchcore_read n s v = Inr (d, n1, v1)" "n1 \<le> n"
      "bench_room (if d then Suc k else k) n1 v1" by blast
    with True try_ends_return(3) [of k n1 v1 s] show ?thesis
      by (cases d) (auto simp: try_response_def)
  next
    case False
    obtain v1 where "try_finish n s v = Inr (n, v1)" "bench_room k n v1" using try_ends_return(3) [OF room] by blast
    with False show ?thesis by (simp add: try_response_def)
  qed
  obtain s w1 where s: "bench_socket port w = (s, w1)" by (cases "bench_socket port w")
  obtain r w2 where r: "bench_write s req w1 = (r, w2)" by (cases "bench_write s req w1")
  obtain u w3 where u: "bench_shutdown s w2 = (u, w3)" by (cases "bench_shutdown s w2")
  have w1: "bench_room (Suc k) n w1" using call_room(1) [OF assms, of port] s by simp
  have w2: "bench_room (Suc k) n w2" using call_room(2) [OF w1, of s req] r by simp
  have w3: "bench_room (Suc k) n w3" using call_room(3) [OF w2, of s] u by simp
  have "\<exists>n' w'. m = Inr (n', w') \<and> n' \<le> n \<and> bench_room k n' w'"
    if "m \<in> {try_failed n w1, try_failed_close n s w2, try_failed_close n s w3, try_response g n s w2, try_response g n s w3}" for m
    using that try_ends_return(1) [OF w1] try_ends_return(2) [OF w2, of s] try_ends_return(2) [OF w3, of s]
      response [OF w2, of s] response [OF w3, of s] by fastforce
  moreover have "benchcore_try g port req n w \<in>
     {try_failed n w1, try_failed_close n s w2, try_failed_close n s w3, try_response g n s w2, try_response g n s w3}"
    by (simp add: benchcore_try_def s r u)
  ultimately show ?thesis by blast
qed

lemma loop_returns: "bench_room n n w \<Longrightarrow> \<exists>w'. benchcore_loop g port req n w = Inr w'"
proof (induction n arbitrary: w rule: less_induct)
  case (less n)
  show ?case
  proof (cases n)
    case (Suc m)
    with less.prems have "bench_room (Suc m) m w" by (auto dest: room_less)
    from try_returns [OF this] obtain m' w1 where w1: "benchcore_try g port req m w = Inr (m', w1)" "m' \<le> m" "bench_room m m' w1"
      by blast
    then have "bench_room m' m' w1" by (auto simp: bench_room_def)
    from less.IH [OF _ this] w1 Suc show ?thesis by auto
  qed auto
qed

section \<open>Properties\<close>

text \<open>C25: a child's benchmark returns once the alarm is due, whatever the network does, and adds up:
  every attempt was counted exactly once, as a success or as a failure (of which the alarm takes one
  back); every descriptor it connected was closed again, in order and once.\<close>

theorem benchcore_returns_and_adds_up:
  assumes "1500 * n < 2 ^ 31" "\<forall>x \<in> set (bw_read w). x \<le> 1500"
    and "bw_speed w = 0" "bw_failed w = 0" "bw_bytes w = 0" "bw_calls w = []"
  shows "\<exists>w' f. benchcore g True port req n w = Inr w' \<and> tries (bw_calls w') \<le> n \<and>
     bw_speed w' + int f = int (tries (bw_calls w')) \<and> bw_failed w' = int (f - 1) \<and>
     closed_fds (bw_calls w') = connected_fds (bw_calls w')"
proof -
  have "bench_room n n w" using assms by (auto simp: bench_room_def)
  from loop_returns [OF this] obtain w' where w': "benchcore_loop g port req n w = Inr w'" by blast
  from loop_progress [OF this] obtain cs v k where v: "progress k w v cs" "tries cs = k" "k \<le> n"
    "closed_fds cs = connected_fds cs" "w' = (if 0 < bw_failed v then v\<lparr>bw_failed := bw_failed v - 1\<rparr> else v)" by blast
  then have "0 \<le> bw_failed v" "bw_speed v + bw_failed v = int k" "bw_calls v = cs"
    using assms(3-6) by (auto simp: progress_def)
  with v w' show ?thesis
    by (intro exI [of _ w'] exI [of _ "nat (bw_failed v)"]) (auto simp: benchcore_def)
qed

theorem benchcore_returns_and_adds_up_witness:
  "let ok = \<lparr>so_inet_addr = Some 1, so_gethostbyname = None, so_socket = 5, so_connect = 0\<rparr>;
       w = \<lparr>bw_speed = 0, bw_failed = 0, bw_bytes = 0, bw_socket = [ok, ok\<lparr>so_connect := -1\<rparr>, ok], bw_write = [3, 3],
            bw_shutdown = [], bw_read = [100, 0], bw_close = [0], bw_calls = []\<rparr>
   in \<exists>w' f. benchcore webbench_globals True 80 ''GET'' 5 w = Inr w' \<and>
     bw_speed w' + int f = int (tries (bw_calls w')) \<and> bw_failed w' = int (f - 1)"
proof -
  let ?ok = "\<lparr>so_inet_addr = Some 1, so_gethostbyname = None, so_socket = 5, so_connect = 0\<rparr>"
  let ?w = "\<lparr>bw_speed = 0, bw_failed = 0, bw_bytes = 0, bw_socket = [?ok, ?ok\<lparr>so_connect := -1\<rparr>, ?ok], bw_write = [3, 3],
            bw_shutdown = [], bw_read = [100, 0], bw_close = [0], bw_calls = []\<rparr>"
  from benchcore_returns_and_adds_up [of 5 ?w webbench_globals 80 "''GET''"] show ?thesis
    unfolding Let_def by auto
qed

lemma bench_fork_all:
  "\<forall>p \<in> set ps. 0 < p \<Longrightarrow> clients - i \<le> int (length ps) \<Longrightarrow> i < clients \<or> 0 < pid \<Longrightarrow> i \<le> clients \<Longrightarrow>
   \<exists>p. bench_fork ps i clients pid = (clients, p) \<and> 0 < p"
  by (induction ps arbitrary: i pid) auto

text \<open>A child's report, as \<open>fprintf\<close> writes and \<open>fscanf\<close> reads it.\<close>

fun report :: "int \<times> int \<times> int \<Rightarrow> int list" where
  "report (i, j, k) = [i, j, k]"

lemma bench_collect_sums:
  assumes "\<forall>r \<in> set rs. 0 \<le> fst r \<and> 0 \<le> fst (snd r) \<and> 0 \<le> snd (snd r)" "rs \<noteq> []" "0 \<le> s" "0 \<le> f" "0 \<le> b"
    and "s + (\<Sum>r \<leftarrow> rs. fst r) < 2 ^ 31" "f + (\<Sum>r \<leftarrow> rs. fst (snd r)) < 2 ^ 31" "b + (\<Sum>r \<leftarrow> rs. snd (snd r)) < 2 ^ 31"
    and "int (length rs) \<le> clients"
  shows "bench_collect (map report rs) clients i0 j0 k0 s f b =
    (if int (length rs) = clients
     then Inr (fst (last rs), s + (\<Sum>r \<leftarrow> rs. fst r), f + (\<Sum>r \<leftarrow> rs. fst (snd r)), b + (\<Sum>r \<leftarrow> rs. snd (snd r)))
     else Inl NoReturn)"
  using assms
proof (induction rs arbitrary: clients i0 j0 k0 s f b)
  case (Cons r rs)
  obtain i j k where r: "r = (i, j, k)" by (cases r)
  have nn: "0 \<le> (\<Sum>r \<leftarrow> rs. fst r)" "0 \<le> (\<Sum>r \<leftarrow> rs. fst (snd r))" "0 \<le> (\<Sum>r \<leftarrow> rs. snd (snd r))"
    using Cons.prems(1) by (auto intro!: sum_list_nonneg)
  have pos: "0 \<le> i" "0 \<le> j" "0 \<le> k" using Cons.prems(1) r by auto
  have ok: "int_ok (s + i)" "int_ok (f + j)" "int_ok (b + k)"
    using Cons.prems(3-8) nn pos r by (auto simp: int_ok_def)
  show ?case
  proof (cases "rs = []")
    case True
    with ok r Cons.prems(9) show ?thesis by auto
  next
    case False
    then have "0 < length rs" by simp
    moreover have "1 + int (length rs) \<le> clients" using Cons.prems(9) by simp
    ultimately have "clients \<noteq> 1" by linarith
    moreover have "bench_collect (map report rs) (clients - 1) i j k (s + i) (f + j) (b + k) =
      (if int (length rs) = clients - 1
       then Inr (fst (last rs), s + i + (\<Sum>r \<leftarrow> rs. fst r), f + j + (\<Sum>r \<leftarrow> rs. fst (snd r)), b + k + (\<Sum>r \<leftarrow> rs. snd (snd r)))
       else Inl NoReturn)"
      using Cons.prems r pos False by (intro Cons.IH) auto
    ultimately show ?thesis using ok r False by (auto simp: add.assoc)
  qed
qed simp

text \<open>The parent adds up the reports of all its children. Its result is the number of successes of the
  child that reported last, although the program documents 0 for success; and when a child is missing
  it waits for ever.\<close>

theorem bench_parent_sums:
  assumes "0 \<le> fst (Socket avail (wb_proxyport g))" "rs \<noteq> []" "int (length rs) \<le> wb_clients g"
    and "\<forall>p \<in> set pids. 0 < p" "wb_clients g \<le> int (length pids)"
    and "\<forall>r \<in> set rs. 0 \<le> fst r \<and> 0 \<le> fst (snd r) \<and> 0 \<le> snd (snd r)"
    and "(\<Sum>r \<leftarrow> rs. fst r) < 2 ^ 31" "(\<Sum>r \<leftarrow> rs. fst (snd r)) < 2 ^ 31" "(\<Sum>r \<leftarrow> rs. snd (snd r)) < 2 ^ 31"
  shows "bench g avail 0 pids True handler_ok n w (map report rs) j0 k0 =
    (if int (length rs) = wb_clients g
     then Inr (fst (last rs), \<Sum>r \<leftarrow> rs. fst r, \<Sum>r \<leftarrow> rs. fst (snd r), \<Sum>r \<leftarrow> rs. snd (snd r))
     else Inl NoReturn)"
proof -
  have "0 < wb_clients g" using assms(2,3) by (cases rs) auto
  then obtain p where "bench_fork pids 0 (wb_clients g) 0 = (wb_clients g, p)" "0 < p"
    using bench_fork_all [OF assms(4), of "wb_clients g" 0 0] assms(5) by auto
  moreover obtain s cs where "Socket avail (wb_proxyport g) = (s, cs)" "0 \<le> s"
    using assms(1) by (cases "Socket avail (wb_proxyport g)") auto
  ultimately show ?thesis
    using bench_collect_sums [OF assms(6,2) _ _ _ _ _ _ assms(3), of 0 0 0 "wb_clients g" j0 k0] assms(7-9)
    by (simp add: bench_def)
qed

theorem bench_parent_sums_witness:
  "bench (webbench_globals\<lparr>wb_clients := 2\<rparr>) \<lparr>so_inet_addr = Some 1, so_gethostbyname = None, so_socket = 5, so_connect = 0\<rparr>
     0 [100, 101] True True 0 \<lparr>bw_speed = 0, bw_failed = 0, bw_bytes = 0, bw_socket = [], bw_write = [],
       bw_shutdown = [], bw_read = [], bw_close = [], bw_calls = []\<rparr> [[7, 1, 900], [3, 0, 400]] 0 0 = Inr (3, 10, 1, 1300)"
  using bench_parent_sums [of "\<lparr>so_inet_addr = Some 1, so_gethostbyname = None, so_socket = 5, so_connect = 0\<rparr>"
      "webbench_globals\<lparr>wb_clients := 2\<rparr>" "[(7, 1, 900), (3, 0, 400)]" "[100, 101]" True 0 _ 0 0]
  by (simp add: Socket_def webbench_globals_def)

end
