(* ===== verification/Webbench_Main.thy ===== *)
theory Webbench_Main
  imports Webbench_Run
begin

text \<open>
  \<open>main\<close> of webbench.c as a whole: what it prints before the benchmark, and the composition of the
  option loop, the request and the benchmark. The messages are strings of their own, so that they are
  known when the program exits; the banner comes with the result.
\<close>

section \<open>What it prints\<close>

definition usage_text :: string where
  "usage_text =
    ''webbench [option]... URL'' @ [LF] @
    ''  -f|--force               Don'' @ [CHR 0x27] @ ''t wait for reply from server.'' @ [LF] @
    ''  -r|--reload              Send reload request - Pragma: no-cache.'' @ [LF] @
    ''  -t|--time <sec>          Run benchmark for <sec> seconds. Default 30.'' @ [LF] @
    ''  -p|--proxy <server:port> Use proxy server for request.'' @ [LF] @
    ''  -c|--clients <n>         Run <n> HTTP clients at once. Default one.'' @ [LF] @
    ''  -9|--http09              Use HTTP/0.9 style requests.'' @ [LF] @
    ''  -1|--http10              Use HTTP/1.0 protocol.'' @ [LF] @
    ''  -2|--http11              Use HTTP/1.1 protocol.'' @ [LF] @
    ''  --get                    Use GET request method.'' @ [LF] @
    ''  --head                   Use HEAD request method.'' @ [LF] @
    ''  --options                Use OPTIONS request method.'' @ [LF] @
    ''  --trace                  Use TRACE request method.'' @ [LF] @
    ''  -?|-h|--help             This information.'' @ [LF] @
    ''  -V|--version             Display program version.'' @ [LF]"

definition banner_method :: "int \<Rightarrow> string" where
  "banner_method m = (if m = METHOD_OPTIONS then ''OPTIONS'' else if m = METHOD_HEAD then ''HEAD''
     else if m = METHOD_TRACE then ''TRACE'' else ''GET'')"

definition banner_version :: "int \<Rightarrow> string" where
  "banner_version v = (if v = 0 then '' (using HTTP/0.9)'' else if v = 2 then '' (using HTTP/1.1)'' else [])"

definition webbench_banner :: "string \<Rightarrow> webbench \<Rightarrow> string" where
  "webbench_banner url w =
     [LF] @ ''Benchmarking: '' @ banner_method (wb_method w) @ '' '' @ url @ banner_version (wb_http10 w) @ [LF] @
     (if wb_clients w = 1 then ''1 client'' else to_string_int (wb_clients w) @ '' clients'') @
     '', running '' @ to_string_int (wb_benchtime w) @ '' sec'' @
     (if wb_force w \<noteq> 0 then '', early socket close'' else []) @
     (case wb_proxyhost w of None \<Rightarrow> []
       | Some p \<Rightarrow> '', via proxy server '' @ p @ '':'' @ to_string_int (wb_proxyport w)) @
     (if wb_force_reload w \<noteq> 0 then '', forcing reload'' else []) @ ''.'' @ [LF]"

text \<open>The alarm the benchmark arms sets \<open>timerexpired\<close>.\<close>

definition alarm_handler :: "int \<Rightarrow> int" where
  "alarm_handler timerexpired = 1"

text \<open>
  The messages on standard error, and the version: of an option, of all options up to the one that ends
  the program (what \<open>getopt_long\<close> itself prints is not part of it), and of the URL.
\<close>

definition option_message :: "char \<Rightarrow> string \<Rightarrow> string" where
  "option_message c arg =
     (if c = CHR ''V'' then PROGRAM_VERSION @ [LF]
      else if c = CHR ''p'' then
        (case strrchr (CHR '':'') arg of
           None \<Rightarrow> []
         | Some p \<Rightarrow>
             if p = 0 then ''Error in option --proxy '' @ arg @ '': Missing hostname.'' @ [LF]
             else if p = length arg - 1 then ''Error in option --proxy '' @ arg @ '' Port number is missing.'' @ [LF]
             else [])
      else if c = CHR '':'' \<or> c = CHR ''h'' \<or> c = CHR ''?'' then usage_text
      else [])"

fun options_message :: "command_option list \<Rightarrow> webbench \<Rightarrow> string" where
  "options_message [] w = []"
| "options_message (x # xs) w = (let (c, arg, w) = getopt_long x w in
     option_message c arg @ (case main_option c arg w of Inl _ \<Rightarrow> [] | Inr w \<Rightarrow> options_message xs w))"

definition url_message :: "string \<Rightarrow> webbench \<Rightarrow> string" where
  "url_message url w =
     (case strstr ''://'' url of
        None \<Rightarrow> [LF] @ url @ '': is not a valid URL.'' @ [LF]
      | Some p \<Rightarrow>
          if 1500 < length url then ''URL is too long.'' @ [LF]
          else if wb_proxyhost w = None \<and> \<not> strncasecmp_equal ''http://'' url 7
          then [LF] @ ''Only HTTP protocol is directly supported, set --proxy for others.'' @ [LF]
          else if strchr (CHR ''/'') (drop (p + 3) url) = None
          then [LF] @ ''Invalid URL syntax - hostname don'' @ [CHR 0x27] @ ''t ends with '' @ [CHR 0x27] @ ''/'' @
            [CHR 0x27] @ ''.'' @ [LF]
          else [])"

definition copyright_text :: string where
  "copyright_text = ''Webbench - Simple Web Benchmark '' @ PROGRAM_VERSION @ [LF] @
     ''Copyright (c) Radim Kolar 1997-2004, GPL Open Source Software.'' @ [LF]"

definition webbench_message :: "command_option list \<Rightarrow> string list \<Rightarrow> string" where
  "webbench_message opts args =
     (if opts = [] \<and> args = [] then usage_text
      else options_message opts webbench_globals @
        (case main_options opts webbench_globals of
           Inl _ \<Rightarrow> []
         | Inr w \<Rightarrow> (case args of
             [] \<Rightarrow> ''webbench: Missing URL!'' @ [LF] @ usage_text
           | url # _ \<Rightarrow> copyright_text @ url_message url w)))"

section \<open>The program\<close>

text \<open>The arguments after the command line are those of \<open>bench\<close>: the results of its system calls.\<close>

definition webbench_program :: "command_option list \<Rightarrow> string list \<Rightarrow> socket_results \<Rightarrow> int \<Rightarrow> int list \<Rightarrow> bool \<Rightarrow>
    bool \<Rightarrow> nat \<Rightarrow> bench_world \<Rightarrow> int list list \<Rightarrow> int \<Rightarrow> int \<Rightarrow> (string \<times> int \<times> int \<times> int \<times> int) outcome" where
  "webbench_program opts args avail pipe_result pids files_ok handler_ok n w reports j0 k0 =
     obind (webbench_main opts args) (\<lambda>g.
     obind (bench g avail pipe_result pids files_ok handler_ok n w reports j0 k0) (\<lambda>r.
     Inr (webbench_banner (hd args) g, r)))"

section \<open>Exits\<close>

definition no_exit :: "'a outcome \<Rightarrow> bool" where
  "no_exit m \<longleftrightarrow> (\<forall>c. m \<noteq> Inl (ProcessExit c))"

lemma no_exit_Inr [simp]: "no_exit (Inr x)" by (simp add: no_exit_def)

lemma no_exit_Inl [simp]: "no_exit (Inl e) \<longleftrightarrow> (\<forall>c. e \<noteq> ProcessExit c)" by (simp add: no_exit_def)

lemma no_exit_obind: "no_exit m \<Longrightarrow> (\<And>x. no_exit (f x)) \<Longrightarrow> no_exit (obind m f)"
  by (cases m) (auto simp: no_exit_def)

lemma no_exit_check: "no_exit m \<Longrightarrow> (\<And>c. e \<noteq> ProcessExit c) \<Longrightarrow> no_exit (check b e m)"
  by (simp add: no_exit_def check_def)

lemma no_exit_strings: "no_exit (strcpy m t)" "no_exit (strcat m t)" "no_exit (strncpy m t k)" "no_exit (atoi m)"
  "no_exit (strlen m)"
  by (simp_all add: strcpy_def strcat_def strncpy_def atoi_def strlen_def store_block_def Let_def
      no_exit_obind no_exit_check)

lemma no_exit_headers: "no_exit (add_request_headers w r)"
  by (simp add: add_request_headers_def cat_if_def Let_def no_exit_obind no_exit_strings)

lemma no_exit_split_url: "no_exit (split_url r w)"
  by (simp add: split_url_def Let_def no_exit_obind no_exit_strings split: option.split)

lemma exit_from_obind: "no_exit m \<Longrightarrow> obind m f = Inl (ProcessExit c) \<Longrightarrow> \<exists>x. m = Inr x \<and> f x = Inl (ProcessExit c)"
  by (cases m) (auto simp: no_exit_def)

text \<open>An option ends the program exactly when it has a message, the version with code 0.\<close>

definition exit_message :: "nat \<Rightarrow> string \<Rightarrow> bool" where
  "exit_message c m \<longleftrightarrow> (if c = 0 then m = PROGRAM_VERSION @ [LF]
     else c = 2 \<and> m \<noteq> [] \<and> m \<noteq> copyright_text \<and> m \<noteq> PROGRAM_VERSION @ [LF])"

lemma usage_exit: "exit_message 2 usage_text" "exit_message 2 (''webbench: Missing URL!'' @ [LF] @ usage_text)"
  by (simp_all add: exit_message_def usage_text_def copyright_text_def PROGRAM_VERSION_def)

text \<open>How a step of \<open>main\<close> may end, given what it prints when it ends the program.\<close>

definition explained :: "string \<Rightarrow> string \<Rightarrow> 'a outcome \<Rightarrow> bool" where
  "explained ok m r \<longleftrightarrow> (case r of Inr _ \<Rightarrow> m = ok | Inl (ProcessExit c) \<Rightarrow> exit_message c m | Inl _ \<Rightarrow> True)"

lemma explained_simps [simp]:
  "explained ok m (Inr x) \<longleftrightarrow> m = ok" "explained ok m (Inl (ProcessExit c)) \<longleftrightarrow> exit_message c m"
  by (simp_all add: explained_def)

lemma explained_no_exit: "no_exit r \<Longrightarrow> explained ok ok r"
  by (auto simp: explained_def no_exit_def split: sum.splits fault.splits)

lemma explained_obind_Inr: "explained ok m r \<Longrightarrow> explained ok m (obind r (\<lambda>x. Inr (f x)))"
  by (cases r) (auto simp: explained_def)

lemma explained_obind: "no_exit r \<Longrightarrow> (\<And>x. explained ok m (f x)) \<Longrightarrow> explained ok m (obind r f)"
  by (cases r) (auto simp: explained_def no_exit_def split: fault.splits)

lemma proxy_option_explained: "explained [] (option_message (CHR ''p'') arg) (proxy_option arg w)"
  by (auto simp: option_message_def proxy_option_def exit_message_def copyright_text_def PROGRAM_VERSION_def Let_def
    no_exit_strings intro!: explained_obind split: option.split)

lemma main_option_explained: "explained [] (option_message c arg) (main_option c arg w)"
proof (cases "c = CHR ''p''")
  case True
  then show ?thesis using proxy_option_explained [of arg w] by (simp add: main_option_def)
next
  case False
  then show ?thesis using usage_exit(1)
    by (auto simp: main_option_def option_message_def exit_message_def no_exit_strings intro!: explained_obind)
qed

lemma main_options_explained: "explained [] (options_message xs w) (main_options xs w)"
proof (induction xs arbitrary: w)
  case (Cons x xs)
  obtain c arg w1 where g: "getopt_long x w = (c, arg, w1)" by (cases "getopt_long x w")
  show ?case
  proof (cases "main_option c arg w1")
    case (Inl e)
    then show ?thesis using main_option_explained [of c arg w1] g by (simp add: explained_def)
  next
    case (Inr w2)
    then show ?thesis using main_option_explained [of c arg w1] g Cons.IH [of w2] by simp
  qed
qed simp

lemma url_exit: "exit_message 2 (copyright_text @ x # xs)"
  by (simp add: exit_message_def copyright_text_def PROGRAM_VERSION_def)

lemma build_request_explained: "explained copyright_text (copyright_text @ url_message url w) (build_request url w)"
  unfolding build_request_def Let_def
  by (intro explained_obind no_exit_strings)
    (auto simp: url_message_def url_exit no_exit_strings no_exit_headers no_exit_split_url no_exit_obind
      intro!: explained_obind split: option.split)

text \<open>C33: the program never ends silently before the benchmark. If it goes on, all it has written is
  its copyright; if it exits, then with code 0 exactly when it was asked for its version, and otherwise
  with code 2 and a message that says what was wrong.\<close>

theorem webbench_exits_explained:
  "explained copyright_text (webbench_message opts args) (webbench_main opts args)"
proof (cases "main_options opts webbench_globals")
  case (Inl e)
  then show ?thesis using main_options_explained [of opts webbench_globals] usage_exit(1)
    by (cases e) (auto simp: webbench_message_def webbench_main_def explained_def)
next
  case (Inr w)
  then have "options_message opts webbench_globals = []"
    using main_options_explained [of opts webbench_globals] by simp
  moreover have "explained copyright_text (copyright_text @ url_message url w) (build_request url w')"
    if "wb_proxyhost w' = wb_proxyhost w" for url w'
    using build_request_explained [of url w'] unfolding url_message_def that .
  ultimately show ?thesis
    using Inr usage_exit by (cases args) (auto simp: webbench_message_def webbench_main_def Let_def)
qed

section \<open>A whole run\<close>

lemma to_string_int_nat: "to_string_int (int n) = to_string_nat n"
  by (simp add: to_string_int_def)

lemma main_option_number:
  assumes "int k < 2 ^ 31"
  shows "main_option (CHR ''c'') (to_string_nat k) w = Inr (w\<lparr>wb_clients := int k\<rparr>)"
proof -
  have "to_string_nat k @ [NUL] = cleared (Suc (length (to_string_nat k))) (to_string_nat k)"
    by (simp add: cleared_cases)
  then have "atoi (to_string_nat k @ [NUL]) = Inr (int k)" using atoi_to_string [OF assms] by simp
  then show ?thesis by (simp add: main_option_def)
qed

lemma main_clients:
  assumes url: "url = ''http://'' @ h @ url_port port @ CHR ''/'' # p" "length url \<le> 1500"
    and h: "CHR ''/'' \<notin> set h" "CHR '':'' \<notin> set h" "NUL \<notin> set url" "length h < 64"
    and port: "\<And>n. port = Some n \<Longrightarrow> n < 10 ^ 9"
    and k: "0 < k" "int k < 2 ^ 31"
  shows "webbench_main [Short (CHR ''c'') (to_string_nat k)] [url] =
    Inr (webbench_globals\<lparr>wb_clients := int k, wb_host := cleared MAXHOSTNAMELEN h,
      wb_proxyport := (case port of None \<Rightarrow> 80 | Some n \<Rightarrow> if n = 0 then 80 else int n),
      wb_request := cleared REQUEST_SIZE (request_text (webbench_globals\<lparr>wb_clients := int k\<rparr>) (CHR ''/'' # p) h)\<rparr>)"
proof -
  let ?w = "webbench_globals\<lparr>wb_clients := int k\<rparr>"
  have w: "wb_proxyhost ?w = None" "wb_http10 ?w \<in> {0, 1, 2}" "request_version ?w = 1" "wb_http10 ?w = 1"
    "wb_proxyport ?w = 80" "wb_clients ?w \<noteq> 0" "wb_benchtime ?w \<noteq> 0"
    using k(1) by (simp_all add: webbench_globals_def request_version_def METHOD_GET_def METHOD_HEAD_def
      METHOD_OPTIONS_def METHOD_TRACE_def)
  have "webbench_main [Short (CHR ''c'') (to_string_nat k)] [url] = build_request url ?w"
    using w(6,7) main_option_number [OF k(2)] by (simp add: webbench_main_def)
  with build_request_result [OF url h port w(1,2)] w(3-5) show ?thesis
    by (cases port) (simp_all add: webbench_globals_def)
qed



end
