(* ===== verification/Spec2Isabelle.thy ===== *)
theory Spec2Isabelle
  imports Circular_Buffer Main_Run Multi_Owners Multi_Closing Loop_Wakeup Async_Logging Webbench_Main
begin

text \<open>
  A model of MyMuduo, a reactor-style network library in C++ with an HTTP server on top of it and the
  benchmark client webbench beside it. Paths are relative to src/.

  \<^bold>\<open>The program.\<close> \<open>main\<close> (main.cc) creates an \<open>EventLoop\<close>, an \<open>HttpServer\<close> on port 10086 and enters the
  loop. The loop waits in \<open>epoll_wait\<close> (\<open>EpollPoller\<close>), dispatches the events to \<open>Channel\<close>s, each a
  descriptor with four callbacks, and then runs the functors that were queued meanwhile, possibly by
  other threads, which wake it through an eventfd. The \<open>Acceptor\<close> owns the listening descriptor and hands
  new clients to \<open>TcpServer\<close>, which keeps \<open>TcpConnection\<close>s in a table by name; a connection owns a
  \<open>Socket\<close>, a \<open>Channel\<close> and two \<open>Buffer\<close>s. Messages go to the application, \<open>HttpServer\<close> or \<open>Echo\<close>;
  \<open>HttpServer\<close> parses with \<open>HttpRequest\<close> and sends a fixed response. \<open>Logger\<close> formats log lines with
  \<open>LogStream\<close> and gives them to the \<open>AsyncLogging\<close> thread, which writes them with \<open>LogFile\<close>.

  \<^bold>\<open>The theories\<close>, in the order of their imports, with what they model:
  \<^item> \<open>Prelude\<close>: the faults a run can end in (failed assertion, uncaught exception, undefined behaviour,
    use after free, exit) and the result type, \<open>size_t\<close> and \<open>int\<close> arithmetic, vectors. \<open>Byte_Queues\<close>,
    \<open>Std_Map\<close>, \<open>Text_Format\<close>, \<open>C_Strings\<close>: byte queues and \<open>std::map\<close> as interfaces, decimal text, and
    the string functions of the C library on fixed arrays.
  \<^item> \<open>Circular_Buffer\<close> (CircularBuffer.h/.cc) and \<open>Net_Buffer\<close> (Buffer.h/.cc): the two byte buffers.
  \<^item> \<open>Http_Request\<close> (HttpRequest.h) and \<open>Http_Response\<close> (HttpResponse.h/.cc): parser and builder.
  \<^item> \<open>Channel\<close> (Channel.h/.cc), \<open>Epoll_Poller\<close> (Poller.h/.cc, EpollPoller.h/.cc), \<open>Timer_Queue\<close>
    (Timestamp, Timer and TimerSchedule, .h/.cc), \<open>Event_Loop\<close> (EventLoop.h/.cc): the reactor. The loop is
    a record with the poller, the timer queue and the heap of channels; \<open>Loop_Wakeup\<close> puts the loop beside
    queueing threads as a step relation.
  \<^item> \<open>Thread_Pool\<close> (EventLoopThreadPool.h/.cc): the loops clients are spread over.
  \<^item> \<open>Net_World\<close> (Socket.h/.cc): the record \<open>net\<close> extends the loop by the heap of connections, the server's
    members, the system calls made and the results of those to come. \<open>Tcp_Connection\<close>
    (TcpConnection.h/.cc), \<open>Acceptor\<close> (Acceptor.h/.cc), \<open>Tcp_Server\<close> (TcpServer.h/.cc), \<open>Http_Server\<close>
    (HttpServer.h/.cc, Echo.h/.cc, main.cc) are functions on it. \<open>Ownership\<close> says which objects own which
    in that record and carries the preservation of it through every operation; \<open>Main_Run\<close> follows \<open>main\<close>
    into its loop and through the iterations that accept clients.
  \<^item> \<open>Threads\<close> (\<open>ThreadFunc\<close> of EventLoopThreadPool.cc and the rounds of EventLoop.cc): a run of the program on several
    threads. \<open>Multi_Reactor\<close> follows a server with a pool of loops from its start to the point where every client
    is served by its loop, \<open>Multi_Closing\<close> the end of a connection of such a loop, and \<open>Multi_Owners\<close>
    carries the ownership through every run of the threads.
  \<^item> \<open>Log_Stream\<close> (LogStream.h/.cc, Logger.h/.cc) and \<open>Async_Logging\<close> (LogFile.h/.cc, AsyncLogging.h/.cc).
  \<^item> \<open>Webbench\<close>, \<open>Webbench_Run\<close> and \<open>Webbench_Main\<close> (webbench-1.5/webbench.c, socket.c): the benchmark
    client's options and request text, its request loop and the collection of the reports, and what
    \<open>main\<close> prints and how it puts these together.
  \<^item> this theory: properties of the whole program.

  \<^bold>\<open>How the code is represented.\<close> A definition is named after its function, with the class in front; a
  record field after its member. A function that can fail returns an \<open>outcome\<close>. Objects that callbacks can
  destroy live in heaps, a connection as long as the table or a \<open>shared_ptr\<close> on the stack refers to it
  (\<open>conn_owned\<close>), a channel as long as the poller, the loop, the acceptor or a connection does
  (\<open>channel_owned\<close>); reading a destroyed object is the fault \<open>UseAfterFree\<close>. A loop is known by its thread; the world is seen from one
  thread, whose loop is the record extended, and \<open>nt_loops\<close> parks the loops of the others (\<open>exchange\<close>, \<open>on_loop\<close>). A
  functor in another thread's queue keeps the connections bound into it (\<open>bound_conns\<close>) until the vector it is
  taken out with is destroyed (\<open>drop_functors\<close>). Threads take turns, a turn being a round of \<open>EventLoop::Loop\<close>
  (\<open>take_turn\<close>); what goes wrong inside a round is stated where it is: \<open>Loop_Wakeup\<close> interleaves a round with queueing threads, and
  \<open>TcpServer_threads_release_race\<close> puts the base loop's turn into the middle of an event. Bound member functions are
  the constructors of \<open>closure\<close>, given their meaning by \<open>run_task\<close> and \<open>run_event\<close>. Results of system calls
  are inputs and the calls made are recorded.

  \<^bold>\<open>Interfaces.\<close> The locales state what a client relies on, and each is interpreted on the model: byte
  queues on both buffers, ordered maps on \<open>std_map\<close>, \<open>channel_heap\<close> (\<open>Channel\<close>, on the loop's heap as
  \<open>heap\<close>) and \<open>min_queue\<close> (\<open>Timer_Queue\<close>, as \<open>tq\<close>).

  \<^bold>\<open>What the lemmas show.\<close> Buffers refine byte lists and deliver bytes in order. A rendered \<open>GET\<close> request
  parses back, and the requests webbench builds are such requests. The poller's table mirrors the kernel's
  interest list. Dispatch runs the callbacks the events select; queued functors run in order, no wakeup is
  lost; expired timers fire in order. The server establishes a connection and releases everything when
  it closes. With a pool of threads every client gets to the loop of its turn and is
  answered and released there without a fault as long as turns do not overlap. The owning pointers of the server are sound in every state its loops reach, on any number of threads, and
  \<open>shared_from_this\<close> never fails: what dangles where a run ends in \<open>UseAfterFree\<close> is the plain pointer of
  a channel to itself, whose last owner a callback released. Log lines reach the file in order. The other group of properties pins down, as exactly, where the
  code departs from that: the first request served by \<open>main\<close> ends in a use after free, connection names
  collide, partial sends are dropped, the last log lines are lost.

  \<^bold>\<open>Bounds and recursion.\<close> Loops are structural recursion or have a measure, except the timer loop, which
  callbacks can keep going: it is a partial function, with a proof that it returns for callbacks that
  add only later timers. \<open>EventLoop_Loop\<close> takes the list of poll results; when it is used up the loop is
  blocked. The loops of webbench recur on the number of times the alarm flag is still read as unset.
  Sizes are below \<open>2 ^ 31\<close> where the code casts to \<open>int\<close>.

  \<^bold>\<open>Not modelled.\<close> Diagnostics on \<open>std::cout\<close> and the last two lines webbench prints (floating-point rates); functions that are declared but have no definition
  (\<open>RunAfter\<close>, \<open>RunEvery\<close>, \<open>DeleteTimer\<close>, \<open>Close\<close>, \<open>CloseWithDelay\<close>, the static functions of \<open>Logger\<close>);
  \<open>TcpConnection::HandleTimeout\<close>, which only prints and is never called; the commented-out parser of
  HttpRequest.cc; \<open>noncopyable\<close>; test and build files. No code of the repository calls \<open>SetThreadNum\<close> with a number of its own: the client program
  \<open>threaded_start\<close> that does so stands for a user of the library.
\<close>

section \<open>The whole program\<close>

text \<open>C2: the server of \<open>main\<close>, however its descriptors and addresses are numbered: it starts, accepts
  its first client, and on the first poll that reports the client's complete, well-formed \<open>GET\<close>
  request it runs into a use of freed memory.\<close>

theorem http_main_first_request:
  assumes "0 < fresh" "wakeup_fd \<noteq> accept_fd" "fd \<noteq> wakeup_fd" "fd \<noteq> accept_fd"
    and w0: "w0 = net_new (EventLoop_new tid epollfd wakeup_fd timer_fd junk) fresh (Some data # reads) writes sends
      (Inr (fd, client) # accepts) [idle_fd, accept_fd]"
    and data: "data = render_request ''GET'' p v hs" "length data \<le> 512"
    and ok: "token p" "token v" "list_all good_header hs"
  shows "http_main addr [Inr [(fresh + 2, EPOLLIN)], Inr [(fresh + 4, EPOLLIN)]] w0 = Inl UseAfterFree"
proof -
  have w0s: "nt_fresh w0 = fresh" "nt_accept w0 = Inr (fd, client) # accepts" "nt_readv w0 = Some data # reads"
    by (simp_all add: w0 net_new_def event_loop.defs)
  obtain w where w: "main_start addr w0 = Inr w" "started w0 wakeup_fd accept_fd w"
    using main_start_run [OF assms(1,2) w0] by blast
  let ?w = "w\<lparr>el_loop_flag := True, el_quit_flag := False\<rparr>"
  have start: "started w0 wakeup_fd accept_fd ?w" "el_quit_flag ?w = False"
    using w(2) by (simp_all add: started_def server_ready_updates get_channel_def)
  have "data \<noteq> []" by (simp add: data(1) render_request_def)
  from accept_iteration [OF start w0s(2) assms(3,4) w0s(3) this data(2)] obtain x c where
    x: "EventLoop_iteration (run_event http_user) drop_functors (Inr [(fresh + 2, EPOLLIN)]) ?w = Inr x"
      "el_quit_flag x = False" "1 < pl_events_size (el_poller x)"
    and c: "http_ready (fresh + 3) c (new_channel fd (fresh + 3)) data x" "tc_channel c = fresh + 4"
    unfolding w0s(1) by blast
  let ?ch = "(new_channel fd (fresh + 3))\<lparr>ch_trigger_events := EPOLLIN\<rparr>"
  let ?x1 = "(put_channel (fresh + 4) ?ch (x\<lparr>el_active_channel_list := []\<rparr>))
       \<lparr>el_active_channel_list := [fresh + 4], el_event_handling_flag := True\<rparr>"
  have get: "get_channel (fresh + 4) x = Some (new_channel fd (fresh + 3))"
    using c by (simp add: http_ready_def http_input_def live_conn_def)
  have "http_ready (fresh + 3) c ?ch data ?x1"
    using c by (simp add: http_ready_def http_input_def live_conn_def put_channel_def get_channel_def new_channel_def Channel_EnableReading_def)
  moreover have "conn_channel (fresh + 3) ?ch"
    by (simp add: conn_channel_def new_channel_def Channel_EnableReading_def)
  ultimately have "Channel_HandleEvent get_channel put_channel (run_event http_user) (fresh + 4) ?x1 = Inl UseAfterFree"
    using request_uses_freed_channel [OF _ data(1) ok, of "fresh + 3" c ?ch ?x1] c(2) by simp
  then have "EventLoop_iteration (run_event http_user) drop_functors (Inr [(fresh + 4, EPOLLIN)]) x = Inl UseAfterFree"
    using iteration_one [OF get x(3) refl, of "run_event http_user" drop_functors EPOLLIN] by simp
  with w(1) x(1,2) show ?thesis
    by (simp add: http_main_def EventLoop_Loop_def EventLoop_Loop_while.simps)
qed

theorem http_main_first_request_witness:
  "http_main no_addr [Inr [(102, EPOLLIN)], Inr [(104, EPOLLIN)]]
     (net_new (EventLoop_new 1 3 4 6 False) 100 [Some get_request] [] [263]
       [Inr (9, \<lparr>sin_addr = (127, 0, 0, 1), sin_port = 4242\<rparr>)] [7, 8]) = Inl UseAfterFree"
proof -
  have "length get_request \<le> 512" by code_simp
  from http_main_first_request [OF _ _ _ _ refl get_request_def this get_request_good,
      of 100 4 8 9 no_addr 1 3 6 False "[]" "[]" "[263]" "\<lparr>sin_addr = (127, 0, 0, 1), sin_port = 4242\<rparr>" "[]" 7]
  show ?thesis by simp
qed





text \<open>\<open>main\<close> reaches its loop with the server started on one loop, no connections, and exactly the
  wakeup and the listening descriptor registered, the latter's channel bound to the acceptor; the
  timer descriptor is not registered.\<close>

theorem http_main_starts:
  assumes "0 < fresh" "wakeup_fd \<noteq> accept_fd" "timer_fd \<noteq> wakeup_fd" "timer_fd \<noteq> accept_fd"
    and "w0 = net_new (EventLoop_new tid epollfd wakeup_fd timer_fd junk) fresh readvs writes sends accepts [idle_fd, accept_fd]"
  shows "\<exists>w. main_start addr w0 = Inr w \<and> server_ready w \<and> nt_connection_map w = [] \<and>
     map_find (pl_channels_map (el_poller w)) = [wakeup_fd \<mapsto> fresh + 1, accept_fd \<mapsto> fresh + 2] \<and>
     map_find (pl_channels_map (el_poller w)) timer_fd = None \<and>
     (\<exists>ch. get_channel (fresh + 2) w = Some ch \<and> ch_fd ch = accept_fd \<and> ch_read_call_back ch = Some OnAccept)"
proof -
  have fresh: "nt_fresh w0 = fresh" by (simp add: assms(5) net_new_def event_loop.defs)
  obtain w where "main_start addr w0 = Inr w" "started w0 wakeup_fd accept_fd w"
    using main_start_run [OF assms(1,2,5)] by blast
  then show ?thesis
    using assms(3,4) unfolding started_def fresh by (intro exI [of _ w]) auto
qed

theorem http_main_starts_witness:
  "\<exists>w. main_start no_addr (net_new (EventLoop_new 1 3 4 6 False) 100 [] [] [] [] [7, 8]) = Inr w \<and>
     server_ready w \<and> map_find (pl_channels_map (el_poller w)) = [4 \<mapsto> 101, 8 \<mapsto> 102]"
  using http_main_starts [OF _ _ _ _ refl, of 100 4 8 6 no_addr 1 3 False "[]" "[]" "[]" "[]" 7] by auto

end
